(* ===== verification/Prelude.thy ===== *)
theory Prelude
  imports Main "HOL-Library.Word"
begin

text \<open>
  What the components share: the byte-addressed memory the C code mutates through
  pointers, the little-endian encodings of its integers, the C strings and the few
  \<^verbatim>\<open>string.h\<close> routines it calls, and the generic lemmas about them.

  A pointer is an object and an offset into it, so that two pointers alias exactly when
  the C pointers would: every overlay of the mapped image (\<^verbatim>\<open>bitmap_overlay\<close>,
  \<^verbatim>\<open>block_store_inode_create\<close>) is a pointer into the one object \<open>Image\<close>, while the
  two buffers of the descriptor table are objects of their own.
  \<^verbatim>\<open>NULL\<close> is offset 0 of the object \<open>Null\<close>.
\<close>

unbundle bit_operations_syntax

section \<open>Types of the C program\<close>

type_synonym byte = "8 word"
type_synonym uint8_t = "8 word"
type_synonym uint16_t = "16 word"
type_synonym uint32_t = "32 word"
type_synonym uint64_t = "64 word"

text \<open>\<^verbatim>\<open>SIZE_MAX\<close> of a 64-bit \<^verbatim>\<open>size_t\<close>; sizes and ids that the code only compares are
  natural numbers, those it computes with where it may wrap are \<open>64 word\<close>.\<close>

abbreviation SIZE_MAX :: nat where
  "SIZE_MAX \<equiv> 18446744073709551615"

datatype obj = Null | Image | FdData | FdBits | Local

type_synonym ptr = "obj \<times> nat"
type_synonym mem = "obj \<Rightarrow> nat \<Rightarrow> byte"

abbreviation null :: ptr where
  "null \<equiv> (Null, 0)"

text \<open>Pointer arithmetic on \<^verbatim>\<open>uint8_t *\<close>.\<close>

definition padd :: "ptr \<Rightarrow> nat \<Rightarrow> ptr" where
  "padd p n = (fst p, snd p + n)"

section \<open>Rule collections of the development\<close>

named_theorems mem_simps "reads of memory after writes"
named_theorems codec_simps "decoding what was encoded"
named_theorems bm_simps "bitmap tests after bitmap updates"
named_theorems fs_defs "definitions that file-system proofs unfold together"

section \<open>Reading and writing memory\<close>

definition mread :: "mem \<Rightarrow> ptr \<Rightarrow> nat \<Rightarrow> byte list" where
  "mread m p n = map (\<lambda>i. m (fst p) (snd p + i)) [0..<n]"

definition mwrite :: "mem \<Rightarrow> ptr \<Rightarrow> byte list \<Rightarrow> mem" where
  "mwrite m p bs = m(fst p := (\<lambda>a. if snd p \<le> a \<and> a < snd p + length bs
      then bs ! (a - snd p) else m (fst p) a))"

definition mem_disjoint :: "ptr \<Rightarrow> nat \<Rightarrow> ptr \<Rightarrow> nat \<Rightarrow> bool" where
  "mem_disjoint p n q k \<longleftrightarrow> fst p \<noteq> fst q \<or> snd p + n \<le> snd q \<or> snd q + k \<le> snd p"

lemma padd_simps [simp]: "fst (padd p n) = fst p" "snd (padd p n) = snd p + n"
  by (simp_all add: padd_def)

lemma padd_pair [simp]: "padd (ob, a) n = (ob, a + n)"
  by (simp add: padd_def)

lemma length_mread [simp]: "length (mread m p n) = n"
  by (simp add: mread_def)

lemma nth_mread [simp]: "i < n \<Longrightarrow> mread m p n ! i = m (fst p) (snd p + i)"
  by (simp add: mread_def)

lemma mread_eqI: "(\<And>i. i < n \<Longrightarrow> m (fst p) (snd p + i) = m' (fst p) (snd p + i)) \<Longrightarrow>
    mread m p n = mread m' p n"
  by (simp add: mread_def)

lemma mread_mwrite_same [mem_simps]:
  "length bs = n \<Longrightarrow> mread (mwrite m p bs) p n = bs"
  by (rule nth_equalityI) (auto simp: mwrite_def)

lemma mread_mwrite_disjoint [mem_simps]:
  assumes "mem_disjoint p (length bs) q n"
  shows "mread (mwrite m p bs) q n = mread m q n"
  by (rule mread_eqI) (use assms in \<open>auto simp: mwrite_def mem_disjoint_def\<close>)

lemma mwrite_other [mem_simps]:
  "\<not> (ob = fst p \<and> snd p \<le> a \<and> a < snd p + length bs) \<Longrightarrow> mwrite m p bs ob a = m ob a"
  by (auto simp: mwrite_def)

lemma mwrite_at [mem_simps]:
  "snd p \<le> a \<Longrightarrow> a < snd p + length bs \<Longrightarrow> mwrite m p bs (fst p) a = bs ! (a - snd p)"
  by (auto simp: mwrite_def)

lemma mwrite_mread [simp]: "mwrite m p (mread m p n) = m"
  by (intro ext) (auto simp: mwrite_def)

lemma mwrite_mwrite_same [mem_simps]:
  "length bs = length cs \<Longrightarrow> mwrite (mwrite m p bs) p cs = mwrite m p cs"
  by (intro ext) (auto simp: mwrite_def)

lemma mwrite_commute:
  "mem_disjoint p (length bs) q (length cs) \<Longrightarrow>
    mwrite (mwrite m p bs) q cs = mwrite (mwrite m q cs) p bs"
  by (intro ext) (auto simp: mwrite_def mem_disjoint_def)

lemma take_drop_mread: "i + k \<le> n \<Longrightarrow> take k (drop i (mread m p n)) = mread m (padd p i) k"
  by (rule nth_equalityI) (auto simp: ac_simps)

text \<open>\<^verbatim>\<open>memset(p, v, n)\<close>, and \<^verbatim>\<open>size_t\<close> subtraction, which wraps.\<close>

definition c_memset :: "mem \<Rightarrow> ptr \<Rightarrow> byte \<Rightarrow> nat \<Rightarrow> mem" where
  "c_memset m p v n = m(fst p := (\<lambda>a. if snd p \<le> a \<and> a < snd p + n then v else m (fst p) a))"

definition size_t_sub :: "nat \<Rightarrow> nat \<Rightarrow> nat" where
  "size_t_sub a b = (a + 2 ^ 64 - b) mod 2 ^ 64"

lemma c_memset_at [mem_simps]:
  "c_memset m p v n ob a = (if ob = fst p \<and> snd p \<le> a \<and> a < snd p + n then v else m ob a)"
  by (simp add: c_memset_def)

lemma size_t_sub_le: "b \<le> a \<Longrightarrow> a < 2 ^ 64 \<Longrightarrow> size_t_sub a b = a - b"
proof -
  assume "b \<le> a" and "a < 2 ^ 64"
  then have "a + 2 ^ 64 - b = (a - b) + 2 ^ 64" and "a - b < 2 ^ 64" by simp_all
  then show ?thesis by (simp only: size_t_sub_def mod_add_self2 mod_less)
qed

section \<open>Little-endian integers\<close>

text \<open>
  The host is little-endian: an integer object of \<open>n\<close> bytes has its least significant
  byte at its address. \<open>le\<close> is the object representation of a word and \<open>unle\<close> reads it.
\<close>

definition le :: "nat \<Rightarrow> 'a::len word \<Rightarrow> byte list" where
  "le n w = map (\<lambda>i. ucast (drop_bit (8 * i) w)) [0..<n]"

definition unle :: "byte list \<Rightarrow> 'a::len word" where
  "unle bs = foldr (\<lambda>b acc. ucast b OR push_bit 8 acc) bs 0"

lemma length_le [simp]: "length (le n w) = n"
  by (simp add: le_def)

lemma unle_simps [simp]: "unle [] = 0" "unle (b # bs) = ucast b OR push_bit 8 (unle bs)"
  by (simp_all add: unle_def)

lemma le_Suc: "le (Suc n) w = ucast w # le n (drop_bit 8 w)"
  by (simp add: le_def upt_conv_Cons map_Suc_upt [symmetric] drop_bit_drop_bit ac_simps
      del: upt_Suc)

lemma bit_unle:
  "bit (unle bs :: 'a::len word) i \<longleftrightarrow>
    i < LENGTH('a) \<and> i < 8 * length bs \<and> bit (bs ! (i div 8)) (i mod 8)"
proof (induction bs arbitrary: i)
  case Nil
  then show ?case by simp
next
  case (Cons b bs)
  show ?case
  proof (cases "i < 8")
    case True
    then show ?thesis by (auto simp: bit_simps)
  next
    case False
    then obtain k where k: "i = 8 + k" using le_Suc_ex not_less by blast
    have "\<not> bit b (8 + k)" using bit_imp_le_length [of b "8 + k"] by auto
    moreover have "(8 + k) div 8 = Suc (k div 8)" by presburger
    ultimately show ?thesis by (auto simp: k bit_simps Cons.IH)
  qed
qed

lemma bit_le: "i < n \<Longrightarrow> j < 8 \<Longrightarrow> bit (le n w ! i) j = bit w (8 * i + j)"
  using bit_imp_le_length [of w "8 * i + j"] by (auto simp: le_def bit_simps)

lemma unle_le [codec_simps]: "LENGTH('a) \<le> 8 * n \<Longrightarrow> unle (le n w) = (w :: 'a::len word)"
  by (rule bit_word_eqI) (auto simp: bit_unle bit_le)

lemma le_unle [codec_simps]:
  assumes "length bs = n" and "8 * n \<le> LENGTH('a)"
  shows "le n (unle bs :: 'a::len word) = bs"
proof (rule nth_equalityI)
  fix i assume "i < length (le n (unle bs :: 'a word))"
  then have i: "i < n" by simp
  show "le n (unle bs :: 'a word) ! i = bs ! i"
  proof (rule bit_word_eqI)
    fix j assume "j < LENGTH(8)"
    then have j: "j < 8" by simp
    with i have "8 * i + j < 8 * n" by simp
    with assms i j show "bit (le n (unle bs :: 'a word) ! i) j = bit (bs ! i) j"
      by (simp add: bit_le bit_unle)
  qed
qed (use assms in simp)

text \<open>
  The interface of a fixed-width encoding: the representation of a value has \<open>width\<close> bytes
  and reading it back gives the value. A struct that C copies with \<^verbatim>\<open>memcpy\<close> is stored
  and loaded through such an encoding.
\<close>

locale codec =
  fixes enc :: "'a \<Rightarrow> byte list" and dec :: "byte list \<Rightarrow> 'a"
    and width :: nat and wf :: "'a \<Rightarrow> bool"
  assumes enc_width: "wf x \<Longrightarrow> length (enc x) = width"
    and dec_enc: "wf x \<Longrightarrow> dec (enc x) = x"
    and wf_dec: "length bs = width \<Longrightarrow> wf (dec bs)"
    and enc_dec: "length bs = width \<Longrightarrow> enc (dec bs) = bs"
begin

lemma load_store: "wf x \<Longrightarrow> dec (mread (mwrite m p (enc x)) p width) = x"
  by (simp add: mread_mwrite_same enc_width dec_enc)

lemma load_store_other:
  "wf x \<Longrightarrow> mem_disjoint p width q width \<Longrightarrow>
    dec (mread (mwrite m p (enc x)) q width) = dec (mread m q width)"
  by (simp add: mread_mwrite_disjoint enc_width)

lemma store_load: "mwrite m p (enc (dec (mread m p width))) = m"
  by (simp add: enc_dec)

lemma enc_inject: "wf x \<Longrightarrow> wf y \<Longrightarrow> enc x = enc y \<Longrightarrow> x = y"
  by (metis dec_enc)

end

interpretation u8: codec "le 1" "unle :: byte list \<Rightarrow> uint8_t" 1 "\<lambda>_. True"
  by unfold_locales (simp_all add: codec_simps)

interpretation u16: codec "le 2" "unle :: byte list \<Rightarrow> uint16_t" 2 "\<lambda>_. True"
  by unfold_locales (simp_all add: codec_simps)

interpretation u32: codec "le 4" "unle :: byte list \<Rightarrow> uint32_t" 4 "\<lambda>_. True"
  by unfold_locales (simp_all add: codec_simps)

interpretation u64: codec "le 8" "unle :: byte list \<Rightarrow> uint64_t" 8 "\<lambda>_. True"
  by unfold_locales (simp_all add: codec_simps)

section \<open>Struct layouts\<close>

text \<open>\<open>chunks\<close> cuts a representation at the field widths of a layout.\<close>

fun chunks :: "nat list \<Rightarrow> byte list \<Rightarrow> byte list list" where
  "chunks [] bs = []"
| "chunks (n # ns) bs = take n bs # chunks ns (drop n bs)"

lemma length_chunks [simp]: "length (chunks ns bs) = length ns"
  by (induction ns bs rule: chunks.induct) auto

lemma chunks_concat [codec_simps]: "map length xss = ns \<Longrightarrow> chunks ns (concat xss) = xss"
  by (induction xss arbitrary: ns) auto

lemma concat_chunks [codec_simps]: "length bs = sum_list ns \<Longrightarrow> concat (chunks ns bs) = bs"
  by (induction ns bs rule: chunks.induct) auto

lemma map_length_chunks [codec_simps]: "length bs = sum_list ns \<Longrightarrow> map length (chunks ns bs) = ns"
  by (induction ns bs rule: chunks.induct) auto

lemma length_nth_chunks:
  "length bs = sum_list ns \<Longrightarrow> i < length ns \<Longrightarrow> length (chunks ns bs ! i) = ns ! i"
  by (metis length_chunks map_length_chunks nth_map)

lemma map_nth_chunks: "map (\<lambda>i. chunks ns bs ! i) [0..<length ns] = chunks ns bs"
  using map_nth [of "chunks ns bs"] by simp

lemma singleton_hd: "length xs = 1 \<Longrightarrow> [hd xs] = xs"
  by (cases xs) auto

text \<open>An array of 16-bit block numbers, as \<^verbatim>\<open>uint16_t ptrs[n]\<close>.\<close>

definition ptrs_bytes :: "uint16_t list \<Rightarrow> byte list" where
  "ptrs_bytes ps = concat (map (le 2) ps)"

definition bytes_ptrs :: "nat \<Rightarrow> byte list \<Rightarrow> uint16_t list" where
  "bytes_ptrs n bs = map unle (chunks (replicate n 2) bs)"

lemma length_bytes_ptrs [simp]: "length (bytes_ptrs n bs) = n"
  by (simp add: bytes_ptrs_def)

lemma length_ptrs_bytes [simp]: "length (ptrs_bytes ps) = 2 * length ps"
  by (induction ps) (simp_all add: ptrs_bytes_def)

lemma bytes_ptrs_bytes [codec_simps]: "length ps = n \<Longrightarrow> bytes_ptrs n (ptrs_bytes ps) = ps"
proof -
  assume "length ps = n"
  then have "map length (map (le 2) ps) = replicate n 2" by (simp add: map_replicate_const o_def)
  then show ?thesis
    by (simp add: bytes_ptrs_def ptrs_bytes_def chunks_concat o_def codec_simps map_idI)
qed

lemma ptrs_bytes_ptrs [codec_simps]: "length bs = 2 * n \<Longrightarrow> ptrs_bytes (bytes_ptrs n bs) = bs"
proof -
  assume len: "length bs = 2 * n"
  have "map (le 2) (bytes_ptrs n bs) = chunks (replicate n 2) bs"
  proof (rule nth_equalityI)
    fix i assume "i < length (map (le 2) (bytes_ptrs n bs))"
    then have "i < n" by simp
    moreover then have "length (chunks (replicate n 2) bs ! i) = 2"
      using length_nth_chunks [of bs "replicate n 2" i] len by (simp add: sum_list_replicate)
    ultimately show "map (le 2) (bytes_ptrs n bs) ! i = chunks (replicate n 2) bs ! i"
      by (simp add: bytes_ptrs_def le_unle)
  qed simp
  then show ?thesis using len by (simp add: ptrs_bytes_def concat_chunks sum_list_replicate)
qed

interpretation ptr_block: codec ptrs_bytes "bytes_ptrs 512" 1024 "\<lambda>ps. length ps = 512"
  by unfold_locales (simp_all add: codec_simps)

section \<open>Local buffers\<close>

text \<open>A local array is a byte list; \<open>buf_write\<close> is \<^verbatim>\<open>memcpy(buf + off, bs, n)\<close> inside it.\<close>

definition buf_write :: "byte list \<Rightarrow> nat \<Rightarrow> byte list \<Rightarrow> byte list" where
  "buf_write buf off bs = take off buf @ bs @ drop (off + length bs) buf"

lemma length_buf_write [simp]:
  "off + length bs \<le> length buf \<Longrightarrow> length (buf_write buf off bs) = length buf"
  by (simp add: buf_write_def)

lemma nth_buf_write:
  "off + length bs \<le> length buf \<Longrightarrow> i < length buf \<Longrightarrow>
    buf_write buf off bs ! i = (if off \<le> i \<and> i < off + length bs then bs ! (i - off) else buf ! i)"
  by (auto simp: buf_write_def nth_append min_def)

lemma buf_write_same [mem_simps]:
  "off + length bs \<le> length buf \<Longrightarrow> n = length bs \<Longrightarrow>
    take n (drop off (buf_write buf off bs)) = bs"
  by (simp add: buf_write_def)

lemma buf_write_disjoint [mem_simps]:
  assumes "off + length bs \<le> length buf" and "i + k \<le> off \<or> off + length bs \<le> i" and "i + k \<le> length buf"
  shows "take k (drop i (buf_write buf off bs)) = take k (drop i buf)"
  by (rule nth_equalityI) (use assms in \<open>auto simp: nth_buf_write\<close>)

lemma buf_write_within:
  assumes "off + length bs \<le> length buf" and "i = off + j" and "j + k \<le> length bs"
  shows "take k (drop i (buf_write buf off bs)) = take k (drop j bs)"
  by (rule nth_equalityI) (use assms in \<open>auto simp: nth_buf_write\<close>)

section \<open>Intervals\<close>

lemma takeWhile_upt:
  assumes "a \<le> b" and "\<And>p. a \<le> p \<Longrightarrow> p < b \<Longrightarrow> P p" and "\<not> P b"
  shows "takeWhile P [a..<a + n] = [a..<min (a + n) b]"
proof -
  have *: "b' < a + n \<Longrightarrow> a \<le> b' \<Longrightarrow> [a..<a + n] = [a..<b'] @ b' # [Suc b'..<a + n]" for b'
    using upt_add_eq_append [of a b' "a + n - b'"] upt_conv_Cons [of b' "a + n"] by simp
  show ?thesis
  proof (cases "b < a + n")
    case True
    then have "takeWhile P [a..<a + n] = takeWhile P ([a..<b] @ b # [Suc b..<a + n])" using * assms(1) by simp
    also have "\<dots> = [a..<b]" using assms(2,3) by (subst takeWhile_append2) auto
    finally show ?thesis using True by simp
  next
    case False
    then show ?thesis using assms(2) by (simp add: takeWhile_eq_all_conv)
  qed
qed

section \<open>C strings\<close>

text \<open>
  A string argument is the list of its characters before the terminating \<^verbatim>\<open>NUL\<close>; a string in a
  buffer ends at the first \<^verbatim>\<open>NUL\<close> byte, and the end of the modelled buffer ends it too (reading
  on would be undefined behaviour).
\<close>

type_synonym cstring = "byte list"

definition str :: "string \<Rightarrow> cstring" where
  "str s = map of_char s"

definition cstr_at :: "byte list \<Rightarrow> cstring" where
  "cstr_at buf = takeWhile (\<lambda>b. b \<noteq> 0) buf"

definition c_strlen :: "byte list \<Rightarrow> nat" where
  "c_strlen buf = length (cstr_at buf)"

fun c_strcmp :: "byte list \<Rightarrow> byte list \<Rightarrow> int" where
  "c_strcmp [] [] = 0"
| "c_strcmp [] (b # bs) = (if b = 0 then 0 else -1)"
| "c_strcmp (a # as) [] = (if a = 0 then 0 else 1)"
| "c_strcmp (a # as) (b # bs) =
     (if a \<noteq> b then (if a < b then -1 else 1) else if a = 0 then 0 else c_strcmp as bs)"

fun c_strncmp :: "byte list \<Rightarrow> byte list \<Rightarrow> nat \<Rightarrow> int" where
  "c_strncmp as bs 0 = 0"
| "c_strncmp [] [] (Suc n) = 0"
| "c_strncmp [] (b # bs) (Suc n) = (if b = 0 then 0 else -1)"
| "c_strncmp (a # as) [] (Suc n) = (if a = 0 then 0 else 1)"
| "c_strncmp (a # as) (b # bs) (Suc n) =
     (if a \<noteq> b then (if a < b then -1 else 1) else if a = 0 then 0 else c_strncmp as bs n)"

text \<open>\<^verbatim>\<open>strncpy\<close> writes exactly \<open>n\<close> bytes: the string, cut or padded with \<^verbatim>\<open>NUL\<close>.\<close>

definition c_strncpy :: "cstring \<Rightarrow> nat \<Rightarrow> byte list" where
  "c_strncpy s n = take n s @ replicate (n - length s) 0"

lemma length_c_strncpy [simp]: "length (c_strncpy s n) = n"
  by (simp add: c_strncpy_def)

lemma cstr_at_simps [simp]: "cstr_at [] = []" "cstr_at (b # bs) = (if b = 0 then [] else b # cstr_at bs)"
  by (simp_all add: cstr_at_def)

lemma cstr_at_id: "0 \<notin> set s \<Longrightarrow> cstr_at s = s"
  by (induction s) auto

lemma cstr_at_append: "0 \<notin> set s \<Longrightarrow> cstr_at (s @ 0 # bs) = s"
  by (induction s) auto

lemma zero_notin_cstr_at [simp]: "0 \<notin> set (cstr_at bs)"
  by (induction bs) auto

lemma length_cstr_at_le: "length (cstr_at bs) \<le> length bs"
  unfolding cstr_at_def by (rule length_takeWhile_le)

lemma cstr_at_take: "length (cstr_at bs) < n \<Longrightarrow> cstr_at (take n bs) = cstr_at bs"
  by (induction bs arbitrary: n) (auto simp: take_Cons split: nat.splits if_splits)

lemma c_strcmp_eq_0 [simp]: "c_strcmp as bs = 0 \<longleftrightarrow> cstr_at as = cstr_at bs"
  by (induction as bs rule: c_strcmp.induct) auto

lemma c_strncmp_eq_0: "c_strncmp as bs n = 0 \<longleftrightarrow> take n (cstr_at as) = take n (cstr_at bs)"
  by (induction as bs n rule: c_strncmp.induct) auto

lemma c_strncmp_full:
  "c_strlen as \<le> n \<Longrightarrow> c_strlen bs \<le> n \<Longrightarrow> c_strncmp as bs n = 0 \<longleftrightarrow> cstr_at as = cstr_at bs"
  by (simp add: c_strncmp_eq_0 c_strlen_def)

lemma c_strncmp_prefix:
  "c_strncmp as bs (c_strlen bs) = 0 \<longleftrightarrow> take (c_strlen bs) (cstr_at as) = cstr_at bs"
  by (simp add: c_strncmp_eq_0 c_strlen_def)

end
