(* ===== verification/Bitmap.thy ===== *)
theory Bitmap
  imports Prelude
begin

text \<open>
  Model of \<^verbatim>\<open>src/bitmap.c\<close>: a bit set over bytes that the bitmap owns (\<^verbatim>\<open>bitmap_create\<close>,
  \<^verbatim>\<open>bitmap_import\<close>) or that lie in somebody else's memory (\<^verbatim>\<open>bitmap_overlay\<close>). The operations
  read and write the memory through the bitmap's data pointer, as the code does. The lemmas give
  each operation its meaning on the set of set bits; the locale \<open>bitset\<close> is the interface
  that the allocators of \<^verbatim>\<open>block_store.c\<close> and the directories of \<^verbatim>\<open>F19FS.c\<close> rely on.
\<close>

unbundle bit_operations_syntax

section \<open>The struct and its tables\<close>

datatype BITMAP_FLAGS = FLAG_NONE | FLAG_OVERLAY | FLAG_ALL

fun flag_value :: "BITMAP_FLAGS \<Rightarrow> byte" where
  "flag_value FLAG_NONE = 0x00"
| "flag_value FLAG_OVERLAY = 0x01"
| "flag_value FLAG_ALL = 0xFF"

record bitmap_t =
  leftover_bits :: nat
  flags :: BITMAP_FLAGS
  bm_data :: ptr
  bit_count :: nat
  byte_count :: nat

definition FLAG_CHECK :: "bitmap_t \<Rightarrow> BITMAP_FLAGS \<Rightarrow> bool" where
  "FLAG_CHECK b f \<longleftrightarrow> flag_value (flags b) AND flag_value f \<noteq> 0"

definition mask :: "byte list" where
  "mask = [0x01, 0x02, 0x04, 0x08, 0x10, 0x20, 0x40, 0x80]"

definition mask_down_inclusive :: "byte list" where
  "mask_down_inclusive = [0x01, 0x03, 0x07, 0x0F, 0x1F, 0x3F, 0x7F, 0xFF]"

definition invert_mask :: "byte list" where
  "invert_mask = [0xFE, 0xFD, 0xFB, 0xF7, 0xEF, 0xDF, 0xBF, 0x7F]"

definition B2 :: "nat \<Rightarrow> nat list" where
  "B2 n = [n, n + 1, n + 1, n + 2]"

definition B4 :: "nat \<Rightarrow> nat list" where
  "B4 n = B2 n @ B2 (n + 1) @ B2 (n + 1) @ B2 (n + 2)"

definition B6 :: "nat \<Rightarrow> nat list" where
  "B6 n = B4 n @ B4 (n + 1) @ B4 (n + 1) @ B4 (n + 2)"

definition bit_totals :: "nat list" where
  "bit_totals = B6 0 @ B6 1 @ B6 1 @ B6 2"

section \<open>Operations on one bit\<close>

definition byte_at :: "mem \<Rightarrow> ptr \<Rightarrow> byte" where
  "byte_at m p = m (fst p) (snd p)"

definition bitmap_byte :: "bitmap_t \<Rightarrow> nat \<Rightarrow> ptr" where
  "bitmap_byte b i = padd (bm_data b) i"

definition bitmap_set :: "bitmap_t \<Rightarrow> nat \<Rightarrow> mem \<Rightarrow> mem" where
  "bitmap_set b n m =
     (let p = bitmap_byte b (n div 8) in mwrite m p [byte_at m p OR mask ! (n mod 8)])"

definition bitmap_reset :: "bitmap_t \<Rightarrow> nat \<Rightarrow> mem \<Rightarrow> mem" where
  "bitmap_reset b n m =
     (let p = bitmap_byte b (n div 8) in mwrite m p [byte_at m p AND invert_mask ! (n mod 8)])"

definition bitmap_test :: "bitmap_t \<Rightarrow> nat \<Rightarrow> mem \<Rightarrow> bool" where
  "bitmap_test b n m \<longleftrightarrow> byte_at m (bitmap_byte b (n div 8)) AND mask ! (n mod 8) \<noteq> 0"

definition bitmap_flip :: "bitmap_t \<Rightarrow> nat \<Rightarrow> mem \<Rightarrow> mem" where
  "bitmap_flip b n m =
     (let p = bitmap_byte b (n div 8) in mwrite m p [byte_at m p XOR mask ! (n mod 8)])"

section \<open>Operations on the whole map\<close>

definition bitmap_invert :: "bitmap_t \<Rightarrow> mem \<Rightarrow> mem" where
  "bitmap_invert b m =
     fold (\<lambda>byte m. mwrite m (bitmap_byte b byte) [NOT (byte_at m (bitmap_byte b byte))])
       [0..<byte_count b] m"

function ffs_loop :: "bitmap_t \<Rightarrow> mem \<Rightarrow> nat \<Rightarrow> nat" where
  "ffs_loop b m result =
     (if result < bit_count b \<and> \<not> bitmap_test b result m then ffs_loop b m (Suc result) else result)"
  by pat_completeness auto
termination
  by (relation "measure (\<lambda>(b, m, result). bit_count b - result)") auto

definition bitmap_ffs :: "bitmap_t option \<Rightarrow> mem \<Rightarrow> nat" where
  "bitmap_ffs bo m = (case bo of
       Some b \<Rightarrow> (let result = ffs_loop b m 0 in if result = bit_count b then SIZE_MAX else result)
     | None \<Rightarrow> SIZE_MAX)"

function ffz_loop :: "bitmap_t \<Rightarrow> mem \<Rightarrow> nat \<Rightarrow> nat" where
  "ffz_loop b m result =
     (if result < bit_count b \<and> bitmap_test b result m then ffz_loop b m (Suc result) else result)"
  by pat_completeness auto
termination
  by (relation "measure (\<lambda>(b, m, result). bit_count b - result)") auto

definition bitmap_ffz :: "bitmap_t option \<Rightarrow> mem \<Rightarrow> nat" where
  "bitmap_ffz bo m = (case bo of
       Some b \<Rightarrow> (let result = ffz_loop b m 0 in if result = bit_count b then SIZE_MAX else result)
     | None \<Rightarrow> SIZE_MAX)"

declare ffs_loop.simps [simp del] ffz_loop.simps [simp del]

definition bitmap_total_set :: "bitmap_t option \<Rightarrow> mem \<Rightarrow> nat" where
  "bitmap_total_set bo m = (case bo of
       None \<Rightarrow> 0
     | Some b \<Rightarrow>
        (let stop = (if leftover_bits b \<noteq> 0 then byte_count b - 1 else byte_count b);
             total = (\<Sum>idx\<leftarrow>[0..<stop]. bit_totals ! unat (byte_at m (bitmap_byte b idx)))
         in if leftover_bits b \<noteq> 0
            then total + bit_totals ! unat (byte_at m (bitmap_byte b (byte_count b - 1))
                   AND mask_down_inclusive ! (leftover_bits b - 1))
            else total))"

definition bitmap_for_each ::
    "bitmap_t option \<Rightarrow> (nat \<Rightarrow> 'arg \<Rightarrow> 'arg) option \<Rightarrow> 'arg \<Rightarrow> mem \<Rightarrow> 'arg" where
  "bitmap_for_each bo func arg m = (case (bo, func) of
       (Some b, Some f) \<Rightarrow>
         fold (\<lambda>idx arg. if bitmap_test b idx m then f idx arg else arg) [0..<bit_count b] arg
     | _ \<Rightarrow> arg)"

definition bitmap_format :: "bitmap_t \<Rightarrow> byte \<Rightarrow> mem \<Rightarrow> mem" where
  "bitmap_format b pattern m = mwrite m (bm_data b) (replicate (byte_count b) pattern)"

definition bitmap_get_bits :: "bitmap_t \<Rightarrow> nat" where
  "bitmap_get_bits b = bit_count b"

definition bitmap_get_bytes :: "bitmap_t \<Rightarrow> nat" where
  "bitmap_get_bytes b = byte_count b"

definition bitmap_export :: "bitmap_t \<Rightarrow> ptr" where
  "bitmap_export b = bm_data b"

section \<open>Construction and destruction\<close>

text \<open>
  \<open>struct_ok\<close> is whether \<^verbatim>\<open>malloc\<close> of the struct succeeds, \<open>buf\<close> what \<^verbatim>\<open>calloc\<close> of the data
  returns: the code handles both failures.
\<close>

definition bitmap_struct :: "nat \<Rightarrow> BITMAP_FLAGS \<Rightarrow> ptr \<Rightarrow> bitmap_t" where
  "bitmap_struct n_bits fl p =
     \<lparr>leftover_bits = n_bits mod 8, flags = fl, bm_data = p, bit_count = n_bits,
      byte_count = n_bits div 8 + (if n_bits mod 8 \<noteq> 0 then 1 else 0)\<rparr>"

definition bitmap_initialize ::
    "nat \<Rightarrow> BITMAP_FLAGS \<Rightarrow> bool \<Rightarrow> ptr \<Rightarrow> mem \<Rightarrow> bitmap_t option \<times> mem" where
  "bitmap_initialize n_bits fl struct_ok buf m =
     (if n_bits \<noteq> 0 \<and> struct_ok then
        (let b = bitmap_struct n_bits fl null in
         if FLAG_CHECK b FLAG_OVERLAY then (Some b, m)
         else if buf \<noteq> null
           then (Some (b\<lparr>bm_data := buf\<rparr>), mwrite m buf (replicate (byte_count b) 0))
           else (None, m))
      else (None, m))"

definition bitmap_create :: "nat \<Rightarrow> bool \<Rightarrow> ptr \<Rightarrow> mem \<Rightarrow> bitmap_t option \<times> mem" where
  "bitmap_create n_bits struct_ok buf m = bitmap_initialize n_bits FLAG_NONE struct_ok buf m"

definition bitmap_import :: "nat \<Rightarrow> ptr \<Rightarrow> bool \<Rightarrow> ptr \<Rightarrow> mem \<Rightarrow> bitmap_t option \<times> mem" where
  "bitmap_import n_bits bitmap_data struct_ok buf m =
     (if bitmap_data \<noteq> null then
        (case bitmap_initialize n_bits FLAG_NONE struct_ok buf m of
           (Some b, m') \<Rightarrow> (Some b, mwrite m' (bm_data b) (mread m' bitmap_data (byte_count b)))
         | (None, m') \<Rightarrow> (None, m'))
      else (None, m))"

definition bitmap_overlay :: "nat \<Rightarrow> ptr \<Rightarrow> bool \<Rightarrow> bitmap_t option" where
  "bitmap_overlay n_bits bitmap_data struct_ok =
     (if bitmap_data \<noteq> null then
        (case fst (bitmap_initialize n_bits FLAG_OVERLAY struct_ok null (\<lambda>_ _. 0)) of
           Some b \<Rightarrow> Some (b\<lparr>bm_data := bitmap_data\<rparr>)
         | None \<Rightarrow> None)
      else None)"

text \<open>What \<^verbatim>\<open>free\<close> is called on: the data buffer, then the struct.\<close>

datatype freed = Free_data ptr | Free_struct

definition bitmap_destroy :: "bitmap_t option \<Rightarrow> freed list" where
  "bitmap_destroy bo = (case bo of
       None \<Rightarrow> []
     | Some b \<Rightarrow> (if \<not> FLAG_CHECK b FLAG_OVERLAY then [Free_data (bm_data b)] else []) @ [Free_struct])"

section \<open>The tables are the bits they stand for\<close>

lemma less_8: "i < 8 \<Longrightarrow> i = 0 \<or> i = 1 \<or> i = 2 \<or> i = 3 \<or> i = 4 \<or> i = 5 \<or> i = 6 \<or> i = (7::nat)"
  by arith

lemma mask_nth: "i < 8 \<Longrightarrow> mask ! i = push_bit i 1"
  by (drule less_8) (elim disjE; simp add: mask_def)

lemma invert_mask_nth: "i < 8 \<Longrightarrow> invert_mask ! i = NOT (push_bit i 1)"
  by (drule less_8) (elim disjE; simp add: invert_mask_def)

lemma mask_down_inclusive_nth: "i < 8 \<Longrightarrow> mask_down_inclusive ! i = Bit_Operations.mask (Suc i)"
  by (drule less_8) (elim disjE; simp add: mask_down_inclusive_def mask_eq_exp_minus_1)

lemma length_bit_totals: "length bit_totals = 256"
  by (simp add: bit_totals_def B6_def B4_def B2_def)



lemma quad_nth:
  fixes F :: "nat \<Rightarrow> nat list"
  assumes len: "\<And>x. length (F x) = 2 ^ k" and i: "i < 2 ^ (k + 2)"
  shows "(F n @ F (n + 1) @ F (n + 1) @ F (n + 2)) ! i =
    F (n + of_bool (bit i k) + of_bool (bit i (Suc k))) ! take_bit k (i :: nat)"
proof -
  define q where "q = i div 2 ^ k"
  define r where "r = take_bit k i"
  have r: "r < 2 ^ k" by (simp add: r_def)
  have i_eq: "i = q * 2 ^ k + r" by (simp add: q_def r_def take_bit_eq_mod del: div_mult_mod_eq) (simp only: div_mult_mod_eq)
  have "q < 4" using i by (simp add: q_def less_mult_imp_div_less power_add)
  moreover have "bit i k = odd q" by (simp add: q_def bit_iff_odd)
  moreover have "bit i (Suc k) = odd (q div 2)"
    by (simp add: q_def bit_iff_odd div_mult2_eq mult.commute flip: div_mult2_eq)
  moreover have "q = 0 \<or> q = 1 \<or> q = 2 \<or> q = 3" using \<open>q < 4\<close> by arith
  ultimately show ?thesis
    using r by (fold r_def) (elim disjE; simp add: i_eq nth_append len)
qed

lemma length_B: "length (B2 n) = 2 ^ 2" "length (B4 n) = 2 ^ 4" "length (B6 n) = 2 ^ 6"
  by (simp_all add: B6_def B4_def B2_def)

lemma B2_nth: "i < 4 \<Longrightarrow> B2 n ! i = n + of_bool (bit i 0) + of_bool (bit i 1)"
proof -
  assume "i < 4"
  then have "i = 0 \<or> i = 1 \<or> i = 2 \<or> i = 3" by arith
  then show ?thesis by (elim disjE) (simp_all add: B2_def bit_iff_odd)
qed

lemma B4_nth: 
  assumes "i < 16"
  shows "B4 n ! i = n + of_bool (bit i 0) + of_bool (bit i 1) + of_bool (bit i 2) + of_bool (bit i 3)"
proof -
  have "i < 2 ^ (2 + 2)" using assms by simp
  note quad_nth [of B2 2 i n, OF length_B(1) this, folded B4_def]
  moreover have "take_bit 2 i < 4" using take_bit_nat_less_exp [of 2 i] by simp
  ultimately show ?thesis by (simp add: B2_nth bit_take_bit_iff numeral_3_eq_3 numeral_2_eq_2)
qed

lemma B6_nth: 
  assumes "i < 64"
  shows "B6 n ! i = n + of_bool (bit i 0) + of_bool (bit i 1) + of_bool (bit i 2) + of_bool (bit i 3)
    + of_bool (bit i 4) + of_bool (bit i 5)"
proof -
  have "i < 2 ^ (4 + 2)" using assms by simp
  note quad_nth [of B4 4 i n, OF length_B(2) this, folded B6_def]
  moreover have "take_bit 4 i < 16" using take_bit_nat_less_exp [of 4 i] by simp
  ultimately show ?thesis by (simp add: B4_nth bit_take_bit_iff)
qed

lemma bit_totals_nth:
  assumes "i < 256"
  shows "bit_totals ! i = length (filter (bit i) [0..<8])"
proof -
  have "i < 2 ^ (6 + 2)" using assms by simp
  note quad_nth [of B6 6 i 0, OF length_B(3) this, unfolded add_0, folded bit_totals_def]
  moreover have "take_bit 6 i < 64" using take_bit_nat_less_exp [of 6 i] by simp
  moreover have "[0..<8] = [0, 1, 2, 3, 4, 5, 6, 7]" by (simp add: upt_rec)
  ultimately show ?thesis by (simp add: B6_nth bit_take_bit_iff)
qed

lemma byte_at_mwrite [bm_simps]: "byte_at (mwrite m p [v]) q = (if q = p then v else byte_at m q)"
  by (cases p; cases q) (auto simp: byte_at_def mwrite_def)

lemma bitmap_byte_eq [bm_simps]: "bitmap_byte b i = bitmap_byte b j \<longleftrightarrow> i = j"
  by (auto simp: bitmap_byte_def padd_def)

lemma bitmap_test_bit:
  "bitmap_test b n m \<longleftrightarrow> bit (byte_at m (bitmap_byte b (n div 8))) (n mod 8)"
  by (simp add: bitmap_test_def mask_nth bit_iff_and_push_bit_not_eq_0)

lemma eq_div_mod_8: "(i::nat) = j \<longleftrightarrow> i div 8 = j div 8 \<and> i mod 8 = j mod 8"
  by (metis div_mult_mod_eq)

lemma bitmap_test_set [bm_simps]: "bitmap_test b j (bitmap_set b i m) \<longleftrightarrow> j = i \<or> bitmap_test b j m"
  by (auto simp: bitmap_test_bit bitmap_set_def Let_def bm_simps mask_nth bit_simps eq_div_mod_8 [of j i])

lemma bitmap_test_reset [bm_simps]: "bitmap_test b j (bitmap_reset b i m) \<longleftrightarrow> j \<noteq> i \<and> bitmap_test b j m"
  by (auto simp: bitmap_test_bit bitmap_reset_def Let_def bm_simps invert_mask_nth bit_simps eq_div_mod_8 [of j i])

lemma bitmap_test_flip [bm_simps]:
  "bitmap_test b j (bitmap_flip b i m) \<longleftrightarrow> (if j = i then \<not> bitmap_test b j m else bitmap_test b j m)"
  by (auto simp: bitmap_test_bit bitmap_flip_def Let_def bm_simps mask_nth bit_simps eq_div_mod_8 [of j i])

lemma ffs_loop_spec:
  "result \<le> bit_count b \<Longrightarrow> result \<le> ffs_loop b m result \<and> ffs_loop b m result \<le> bit_count b \<and>
    (\<forall>j. result \<le> j \<and> j < ffs_loop b m result \<longrightarrow> \<not> bitmap_test b j m) \<and>
    (ffs_loop b m result < bit_count b \<longrightarrow> bitmap_test b (ffs_loop b m result) m)"
proof (induction b m result rule: ffs_loop.induct)
  case (1 b m result)
  show ?case
  proof (cases "result < bit_count b \<and> \<not> bitmap_test b result m")
    case True
    with 1 show ?thesis
      by (auto simp: ffs_loop.simps [of b m result]) (metis Suc_leI le_neq_implies_less)+
  next
    case False
    with 1 show ?thesis by (auto simp: ffs_loop.simps [of b m result])
  qed
qed

lemma ffz_loop_spec:
  "result \<le> bit_count b \<Longrightarrow> result \<le> ffz_loop b m result \<and> ffz_loop b m result \<le> bit_count b \<and>
    (\<forall>j. result \<le> j \<and> j < ffz_loop b m result \<longrightarrow> bitmap_test b j m) \<and>
    (ffz_loop b m result < bit_count b \<longrightarrow> \<not> bitmap_test b (ffz_loop b m result) m)"
proof (induction b m result rule: ffz_loop.induct)
  case (1 b m result)
  show ?case
  proof (cases "result < bit_count b \<and> bitmap_test b result m")
    case True
    with 1 show ?thesis
      by (auto simp: ffz_loop.simps [of b m result]) (metis Suc_leI le_neq_implies_less)+
  next
    case False
    with 1 show ?thesis by (auto simp: ffz_loop.simps [of b m result])
  qed
qed

lemma filter_test_byte:
  "length (filter (\<lambda>j. bitmap_test b j m) [8 * k..<8 * k + 8]) =
    bit_totals ! unat (byte_at m (bitmap_byte b k))"
proof -
  let ?x = "byte_at m (bitmap_byte b k)"
  have "[8 * k..<8 * k + 8] = map (\<lambda>i. i + 8 * k) [0..<8]"
    by (simp add: map_add_upt ac_simps)
  then have "length (filter (\<lambda>j. bitmap_test b j m) [8 * k..<8 * k + 8]) =
      length (filter (\<lambda>i. bitmap_test b (i + 8 * k) m) [0..<8])"
    by (simp add: filter_map o_def)
  also have "filter (\<lambda>i. bitmap_test b (i + 8 * k) m) [0..<8] = filter (bit (unat ?x)) [0..<8]"
    by (rule filter_cong) (auto simp: bitmap_test_bit bit_unsigned_iff)
  finally show ?thesis using unsigned_less [of ?x, where 'a = nat] by (simp add: bit_totals_nth)
qed

lemma filter_test_bytes:
  "(\<Sum>idx\<leftarrow>[0..<k]. bit_totals ! unat (byte_at m (bitmap_byte b idx))) =
    length (filter (\<lambda>j. bitmap_test b j m) [0..<8 * k])"
proof (induction k)
  case (Suc k)
  have "[0..<8 * Suc k] = [0..<8 * k] @ [8 * k..<8 * k + 8]"
    by (metis add.commute le_add1 mult_Suc_right upt_add_eq_append zero_le)
  then show ?case by (simp add: Suc filter_test_byte)
qed simp

lemma filter_test_leftover:
  assumes "0 < l" and "l < 8"
  shows "bit_totals ! unat (byte_at m (bitmap_byte b k) AND mask_down_inclusive ! (l - Suc 0)) =
    length (filter (\<lambda>j. bitmap_test b j m) [8 * k..<8 * k + l])"
proof -
  let ?x = "byte_at m (bitmap_byte b k)" 
  let ?y = "?x AND mask_down_inclusive ! (l - Suc 0)"
  have y: "bit (unat ?y) i \<longleftrightarrow> i < l \<and> bit (unat ?x) i" for i
    using assms by (auto simp: mask_down_inclusive_nth bit_simps)
  have "[8 * k..<8 * k + l] = map (\<lambda>i. i + 8 * k) [0..<l]"
    by (simp add: map_add_upt ac_simps)
  then have "length (filter (\<lambda>j. bitmap_test b j m) [8 * k..<8 * k + l]) =
      length (filter (\<lambda>i. bitmap_test b (i + 8 * k) m) [0..<l])"
    by (simp add: filter_map o_def)
  also have "filter (\<lambda>i. bitmap_test b (i + 8 * k) m) [0..<l] = filter (bit (unat ?x)) [0..<l]"
    using assms by (intro filter_cong) (auto simp: bitmap_test_bit bit_unsigned_iff)
  also have "\<dots> = filter (bit (unat ?y)) [0..<8]"
  proof -
    have "[0..<8] = [0..<l] @ [l..<8]" using assms
      by (metis le_add_diff_inverse less_imp_le upt_add_eq_append zero_le)
    moreover have "filter (bit (unat ?y)) [l..<8] = []" by (auto simp: y filter_empty_conv)
    moreover have "filter (bit (unat ?y)) [0..<l] = filter (bit (unat ?x)) [0..<l]"
      by (rule filter_cong) (auto simp: y)
    ultimately show ?thesis by simp
  qed
  finally show ?thesis using unsigned_less [of ?y, where 'a = nat] by (simp add: bit_totals_nth)
qed

lemma bitmap_total_set_struct:
  "bitmap_total_set (Some (bitmap_struct n fl p)) m =
    card {j. j < n \<and> bitmap_test (bitmap_struct n fl p) j m}"
proof -
  let ?b = "bitmap_struct n fl p"
  have "bitmap_total_set (Some ?b) m = length (filter (\<lambda>j. bitmap_test ?b j m) [0..<n])"
  proof (cases "n mod 8 = 0")
    case True
    then have "8 * (n div 8) = n" by presburger
    with True show ?thesis
      using filter_test_bytes [of m ?b "n div 8"]
      by (simp add: bitmap_total_set_def Let_def) (simp add: bitmap_struct_def)
  next
    case False
    then have n: "n = 8 * (n div 8) + n mod 8" by presburger
    have split: "[0..<n] = [0..<8 * (n div 8)] @ [8 * (n div 8)..<8 * (n div 8) + n mod 8]"
      by (metis n upt_add_eq_append zero_le)
    from False show ?thesis
      using filter_test_bytes [of m ?b "n div 8"] filter_test_leftover [of "n mod 8" m ?b "n div 8"]
      by (simp add: bitmap_total_set_def Let_def split) (simp add: bitmap_struct_def)
  qed
  also have "\<dots> = card {j. j < n \<and> bitmap_test ?b j m}"
    by (subst distinct_card [symmetric]) (auto intro: arg_cong [where f = card])
  finally show ?thesis .
qed


section \<open>The interface of a bit set\<close>

text \<open>
  What a client of a bitmap relies on: testing after setting and resetting, the first zero, the
  count. The clients' lemmas are proved once here: they are what makes an allocator (first zero,
  then set) hand out fresh ids and account for them.
\<close>

locale bitset =
  fixes test :: "nat \<Rightarrow> 's \<Rightarrow> bool" and setb :: "nat \<Rightarrow> 's \<Rightarrow> 's" and resetb :: "nat \<Rightarrow> 's \<Rightarrow> 's"
    and ffz :: "'s \<Rightarrow> nat" and total :: "'s \<Rightarrow> nat" and n :: nat
  assumes test_set: "test j (setb i s) \<longleftrightarrow> j = i \<or> test j s"
    and test_reset: "test j (resetb i s) \<longleftrightarrow> j \<noteq> i \<and> test j s"
    and ffz_found: "ffz s \<noteq> SIZE_MAX \<Longrightarrow> ffz s < n \<and> \<not> test (ffz s) s \<and> (\<forall>j < ffz s. test j s)"
    and ffz_full: "ffz s = SIZE_MAX \<Longrightarrow> n \<le> SIZE_MAX \<Longrightarrow> j < n \<Longrightarrow> test j s"
    and total_card: "total s = card {j. j < n \<and> test j s}"
begin

lemma total_le: "total s \<le> n"
proof -
  have "{j. j < n \<and> test j s} \<subseteq> {..<n}" by auto
  then show ?thesis unfolding total_card using card_mono [of "{..<n}"] by fastforce
qed

lemma total_eq_iff: "total s = n \<longleftrightarrow> (\<forall>j<n. test j s)"
proof -
  have sub: "{j. j < n \<and> test j s} \<subseteq> {..<n}" by auto
  have "total s = n \<longleftrightarrow> {j. j < n \<and> test j s} = {..<n}"
    by (metis card_lessThan card_subset_eq finite_lessThan sub total_card)
  then show ?thesis by auto
qed

lemma ffz_max_iff: "n \<le> SIZE_MAX \<Longrightarrow> ffz s = SIZE_MAX \<longleftrightarrow> total s = n"
  unfolding total_eq_iff by (cases "ffz s = SIZE_MAX") (auto dest: ffz_full ffz_found)

lemma total_set:
  assumes "i < n" and "\<not> test i s"
  shows "total (setb i s) = Suc (total s)"
proof -
  have "{j. j < n \<and> test j (setb i s)} = insert i {j. j < n \<and> test j s}"
    using assms by (auto simp: test_set)
  with assms show ?thesis by (simp add: total_card)
qed

lemma total_reset:
  assumes "i < n" and "test i s"
  shows "Suc (total (resetb i s)) = total s"
proof -
  have "{j. j < n \<and> test j s} = insert i {j. j < n \<and> test j (resetb i s)}"
    using assms by (auto simp: test_reset)
  with assms show ?thesis by (simp add: total_card test_reset)
qed

lemma total_alloc: "ffz s \<noteq> SIZE_MAX \<Longrightarrow> total (setb (ffz s) s) = Suc (total s)"
  using ffz_found total_set by blast

lemma ffz_cong:
  assumes "\<And>j. j < n \<Longrightarrow> test j s = test j s'" and "n \<le> SIZE_MAX"
  shows "ffz s = ffz s'"
proof (cases "ffz s = SIZE_MAX \<or> ffz s' = SIZE_MAX")
  case True
  have "total s = total s'" unfolding total_card using assms(1) by (auto intro: arg_cong [where f = card])
  with True assms(2) show ?thesis using ffz_max_iff by metis
next
  case False
  then have "ffz s < n \<and> \<not> test (ffz s) s \<and> (\<forall>j < ffz s. test j s)"
    and "ffz s' < n \<and> \<not> test (ffz s') s' \<and> (\<forall>j < ffz s'. test j s')"
    using ffz_found by blast+
  then show ?thesis using assms(1) by (metis nat_neq_iff)
qed

lemma ffz_after_reset:
  assumes "n \<le> SIZE_MAX" and "i < n" and "\<forall>j<i. test j s"
  shows "ffz (resetb i s) = i"
proof -
  have "ffz (resetb i s) \<noteq> SIZE_MAX"
    using ffz_full [of "resetb i s" i] assms by (auto simp: test_reset)
  then have "\<not> test (ffz (resetb i s)) (resetb i s)" "\<forall>j < ffz (resetb i s). test j (resetb i s)"
    using ffz_found by blast+
  with assms(3) show ?thesis by (auto simp: test_reset) (metis nat_neq_iff)
qed

lemma ffz_after_reset_le:
  assumes "n \<le> SIZE_MAX" and "i < n"
  shows "ffz (resetb i s) \<le> i"
proof (rule ccontr)
  assume "\<not> ffz (resetb i s) \<le> i"
  moreover have "ffz (resetb i s) \<noteq> SIZE_MAX"
    using ffz_full [of "resetb i s" i] assms by (auto simp: test_reset)
  ultimately have "test i (resetb i s)" using ffz_found by (meson not_le)
  then show False by (simp add: test_reset)
qed

end

lemma bitmap_ffz_struct:
  fixes n fl p
  defines "b \<equiv> bitmap_struct n fl p"
  shows "bitmap_ffz (Some b) m \<noteq> SIZE_MAX \<Longrightarrow> bitmap_ffz (Some b) m < n \<and>
      \<not> bitmap_test b (bitmap_ffz (Some b) m) m \<and> (\<forall>j < bitmap_ffz (Some b) m. bitmap_test b j m)"
    and "bitmap_ffz (Some b) m = SIZE_MAX \<Longrightarrow> n \<le> SIZE_MAX \<Longrightarrow> j < n \<Longrightarrow> bitmap_test b j m"
  using ffz_loop_spec [of 0 b m]
  by (auto simp: bitmap_ffz_def Let_def b_def bitmap_struct_def split: if_splits)

interpretation bits: bitset "bitmap_test (bitmap_struct n fl p)" "bitmap_set (bitmap_struct n fl p)"
    "bitmap_reset (bitmap_struct n fl p)" "bitmap_ffz (Some (bitmap_struct n fl p))"
    "bitmap_total_set (Some (bitmap_struct n fl p))" n
  for n fl p
proof (unfold_locales, goal_cases)
  case 1 show ?case by (rule bitmap_test_set)
next
  case 2 show ?case by (rule bitmap_test_reset)
next
  case 3 then show ?case by (rule bitmap_ffz_struct(1))
next
  case 4 then show ?case by (rule bitmap_ffz_struct(2))
next
  case 5 show ?case by (rule bitmap_total_set_struct)
qed


section \<open>The remaining operations\<close>

lemma bitmap_invert_byte:
  "byte_at (fold (\<lambda>byte m. mwrite m (bitmap_byte b byte) [NOT (byte_at m (bitmap_byte b byte))]) [0..<k] m)
      (bitmap_byte b i) =
    (if i < k then NOT (byte_at m (bitmap_byte b i)) else byte_at m (bitmap_byte b i))"
  by (induction k) (auto simp: bm_simps)

lemma bitmap_test_invert [bm_simps]:
  "bitmap_test b j (bitmap_invert b m) \<longleftrightarrow>
    (if j < 8 * byte_count b then \<not> bitmap_test b j m else bitmap_test b j m)"
  by (auto simp: bitmap_invert_def bitmap_test_bit bitmap_invert_byte bit_simps)

lemma bitmap_test_format:
  "j < 8 * byte_count b \<Longrightarrow> bitmap_test b j (bitmap_format b pattern m) \<longleftrightarrow> bit pattern (j mod 8)"
  by (auto simp: bitmap_test_bit bitmap_format_def byte_at_def bitmap_byte_def mwrite_def)

lemma bitmap_for_each_filter:
  "bitmap_for_each (Some b) (Some f) arg m = fold f (filter (\<lambda>j. bitmap_test b j m) [0..<bit_count b]) arg"
proof -
  have "fold (\<lambda>idx arg. if bitmap_test b idx m then f idx arg else arg) xs arg =
      fold f (filter (\<lambda>j. bitmap_test b j m) xs) arg" for xs arg
    by (induction xs arbitrary: arg) auto
  then show ?thesis by (simp add: bitmap_for_each_def)
qed

lemma bitmap_struct_simps [simp]:
  "leftover_bits (bitmap_struct n fl p) = n mod 8" "flags (bitmap_struct n fl p) = fl"
  "bm_data (bitmap_struct n fl p) = p" "bit_count (bitmap_struct n fl p) = n"
  "bitmap_struct n fl p\<lparr>bm_data := q\<rparr> = bitmap_struct n fl q"
  by (simp_all add: bitmap_struct_def)

lemma byte_count_struct: "byte_count (bitmap_struct n fl p) = (n + 7) div 8"
proof -
  have "n div 8 + (if n mod 8 \<noteq> 0 then 1 else 0) = (n + 7) div 8" by presburger
  then show ?thesis by (simp add: bitmap_struct_def)
qed

lemma bitmap_overlay_struct:
  "n \<noteq> 0 \<Longrightarrow> p \<noteq> null \<Longrightarrow> bitmap_overlay n p True = Some (bitmap_struct n FLAG_OVERLAY p)"
  by (simp add: bitmap_overlay_def bitmap_initialize_def FLAG_CHECK_def)

lemma bitmap_create_struct:
  "n \<noteq> 0 \<Longrightarrow> buf \<noteq> null \<Longrightarrow> bitmap_create n True buf m =
    (Some (bitmap_struct n FLAG_NONE buf), mwrite m buf (replicate ((n + 7) div 8) 0))"
  by (simp add: bitmap_create_def bitmap_initialize_def FLAG_CHECK_def byte_count_struct Let_def)

lemma bitmap_test_zeroed:
  assumes "j < n"
  shows "\<not> bitmap_test (bitmap_struct n fl p) j (mwrite m p (replicate ((n + 7) div 8) 0))"
proof -
  have "j div 8 < (n + 7) div 8" using div_le_mono [of "j + 8" "n + 7" 8] assms by simp
  then have "byte_at (mwrite m p (replicate ((n + 7) div 8) 0)) (bitmap_byte (bitmap_struct n fl p) (j div 8)) = 0"
    by (simp add: byte_at_def bitmap_byte_def mwrite_def)
  then show ?thesis by (simp add: bitmap_test_bit)
qed

end
