(* ===== verification/Block_Store.thy ===== *)
theory Block_Store
  imports Bitmap
begin

text \<open>
  Model of \<^verbatim>\<open>src/block_store.c\<close>: the image file mapped into memory (64 MiB, 65536 blocks of
  1024 bytes, the last 8 of which hold the free block map), and the two small stores laid over
  it or beside it, the inode table and the descriptor table. A \<^verbatim>\<open>NULL\<close> store is \<open>None\<close>;
  dereferencing a null bitmap pointer is undefined behaviour, and \<open>bm_deref\<close> is unspecified
  there. The operating system calls (\<^verbatim>\<open>open\<close>, \<^verbatim>\<open>ftruncate\<close>, \<^verbatim>\<open>fstat\<close>,
  \<^verbatim>\<open>mmap\<close>) are the fields of a record \<open>host\<close>. The lemmas give the allocator and the
  block transfer functions their meaning; the locale \<open>slot_table\<close> is the interface of the three
  stores as tables of fixed-size records.
\<close>

abbreviation BLOCK_STORE_NUM_BLOCKS :: nat where "BLOCK_STORE_NUM_BLOCKS \<equiv> 65536"
abbreviation BLOCK_STORE_AVAIL_BLOCKS :: nat where "BLOCK_STORE_AVAIL_BLOCKS \<equiv> 65528"
abbreviation BLOCK_SIZE_BYTES :: nat where "BLOCK_SIZE_BYTES \<equiv> 1024"
abbreviation BLOCK_STORE_NUM_BYTES :: nat where "BLOCK_STORE_NUM_BYTES \<equiv> 67108864"

record block_store_t =
  bs_fd :: int
  data_blocks :: ptr
  fbm :: "bitmap_t option"

definition bm_deref :: "bitmap_t option \<Rightarrow> bitmap_t" where
  "bm_deref b = the b"

lemma bm_deref_Some [simp]: "bm_deref (Some b) = b"
  by (simp add: bm_deref_def)

section \<open>Opening and closing the image\<close>

record host =
  h_malloc :: bool                            \<comment> \<open>the struct can be allocated\<close>
  h_open_creat :: "cstring \<Rightarrow> int"            \<comment> \<open>\<^verbatim>\<open>open\<close> with \<^verbatim>\<open>O_CREAT | O_TRUNC\<close>\<close>
  h_open_rdwr :: "cstring \<Rightarrow> int"             \<comment> \<open>\<^verbatim>\<open>open\<close> with \<^verbatim>\<open>O_RDWR\<close>\<close>
  h_ftruncate :: "int \<Rightarrow> nat \<Rightarrow> int"
  h_fstat :: "int \<Rightarrow> int \<times> nat"               \<comment> \<open>result and \<^verbatim>\<open>st_size\<close>\<close>
  h_mmap :: "int \<Rightarrow> bool"                     \<comment> \<open>the mapping succeeds\<close>
  h_content :: "int \<Rightarrow> nat \<Rightarrow> byte"           \<comment> \<open>what the mapped file holds\<close>

definition create_file :: "host \<Rightarrow> cstring option \<Rightarrow> int" where
  "create_file h fname = (case fname of
       Some f \<Rightarrow>
         (let fd = h_open_creat h f in
          if fd \<noteq> -1 then (if h_ftruncate h fd BLOCK_STORE_NUM_BYTES \<noteq> -1 then fd else -1) else -1)
     | None \<Rightarrow> -1)"

definition check_file :: "host \<Rightarrow> cstring option \<Rightarrow> int" where
  "check_file h fname = (case fname of
       Some f \<Rightarrow>
         (let fd = h_open_rdwr h f in
          if fd \<noteq> -1 then
            (let (r, st_size) = h_fstat h fd in
             if r \<noteq> -1 \<and> BLOCK_STORE_NUM_BYTES \<le> st_size \<and>
                st_size \<le> BLOCK_STORE_NUM_BYTES + BLOCK_STORE_NUM_BYTES div 8
             then fd else -1)
          else -1)
     | None \<Rightarrow> -1)"

definition block_store_init ::
    "host \<Rightarrow> bool \<Rightarrow> cstring option \<Rightarrow> mem \<Rightarrow> block_store_t option \<times> mem" where
  "block_store_init h init fname m =
     (if fname \<noteq> None \<and> h_malloc h then
        (let fd = (if init then create_file h fname else check_file h fname) in
         if fd \<noteq> -1 \<and> h_mmap h fd then
           (let data = (Image, 0);
                m1 = m(Image := h_content h fd);
                m2 = (if init
                      then mwrite (c_memset m1 data 0 BLOCK_STORE_NUM_BYTES)
                             (padd data (BLOCK_STORE_NUM_BYTES - 1)) [0xff]
                      else m1)
            in case bitmap_overlay BLOCK_STORE_AVAIL_BLOCKS
                      (padd data (BLOCK_STORE_AVAIL_BLOCKS * BLOCK_SIZE_BYTES)) (h_malloc h) of
                 Some b \<Rightarrow> (Some \<lparr>bs_fd = fd, data_blocks = data, fbm = Some b\<rparr>, m2)
               | None \<Rightarrow> (None, m2))
         else (None, m))
      else (None, m))"

definition block_store_create :: "host \<Rightarrow> cstring option \<Rightarrow> mem \<Rightarrow> block_store_t option \<times> mem" where
  "block_store_create h fname m = block_store_init h True fname m"

definition block_store_open :: "host \<Rightarrow> cstring option \<Rightarrow> mem \<Rightarrow> block_store_t option \<times> mem" where
  "block_store_open h fname m = block_store_init h False fname m"

text \<open>Destruction is the sequence of resources given back.\<close>

datatype release_action =
    Bitmap_freed freed | Munmap ptr nat | Close int | Free_blocks ptr | Free_store | Free_fs

definition block_store_destroy :: "block_store_t option \<Rightarrow> release_action list" where
  "block_store_destroy bs = (case bs of
       None \<Rightarrow> []
     | Some b \<Rightarrow> map Bitmap_freed (bitmap_destroy (fbm b)) @
         [Munmap (data_blocks b) BLOCK_STORE_NUM_BYTES, Close (bs_fd b), Free_store])"

section \<open>Allocation\<close>

definition block_store_allocate :: "block_store_t option \<Rightarrow> mem \<Rightarrow> nat \<times> mem" where
  "block_store_allocate bs m = (case bs of
       None \<Rightarrow> (SIZE_MAX, m)
     | Some b \<Rightarrow>
         (let id = bitmap_ffz (fbm b) m in
          if id = SIZE_MAX then (SIZE_MAX, m)
          else (id, bitmap_set (bm_deref (fbm b)) id m)))"

definition block_store_request :: "block_store_t option \<Rightarrow> nat \<Rightarrow> mem \<Rightarrow> bool \<times> mem" where
  "block_store_request bs block_id m =
     (if block_id > BLOCK_STORE_AVAIL_BLOCKS \<or> bs = None then (False, m)
      else (let b = bm_deref (fbm (the bs)) in
            if bitmap_test b block_id m then (False, m) else (True, bitmap_set b block_id m)))"

definition block_store_release :: "block_store_t option \<Rightarrow> nat \<Rightarrow> mem \<Rightarrow> mem" where
  "block_store_release bs block_id m =
     (if block_id \<le> BLOCK_STORE_AVAIL_BLOCKS \<and> bs \<noteq> None then
        (let b = bm_deref (fbm (the bs)) in
         if bitmap_test b block_id m then bitmap_reset b block_id m else m)
      else m)"

definition block_store_get_used_blocks :: "block_store_t option \<Rightarrow> mem \<Rightarrow> nat" where
  "block_store_get_used_blocks bs m = (case bs of
       Some b \<Rightarrow> bitmap_total_set (fbm b) m
     | None \<Rightarrow> SIZE_MAX)"

definition block_store_get_free_blocks :: "block_store_t option \<Rightarrow> mem \<Rightarrow> nat" where
  "block_store_get_free_blocks bs m = (case bs of
       Some b \<Rightarrow> (let numSet = bitmap_total_set (fbm b) m
                  in size_t_sub BLOCK_STORE_AVAIL_BLOCKS numSet)
     | None \<Rightarrow> SIZE_MAX)"

definition block_store_get_total_blocks :: nat where
  "block_store_get_total_blocks = BLOCK_STORE_AVAIL_BLOCKS"

section \<open>Transfer of whole blocks\<close>

text \<open>
  A buffer argument is its content, or \<open>None\<close> for \<^verbatim>\<open>NULL\<close>; a read returns the number of bytes
  and the buffer afterwards.
\<close>

definition block_store_read ::
    "block_store_t option \<Rightarrow> nat \<Rightarrow> byte list option \<Rightarrow> mem \<Rightarrow> nat \<times> byte list option" where
  "block_store_read bs block_id buffer m = (case (bs, buffer) of
       (Some b, Some buf) \<Rightarrow>
         if block_id \<le> BLOCK_STORE_AVAIL_BLOCKS
         then (BLOCK_SIZE_BYTES, Some (buf_write buf 0
                 (mread m (padd (data_blocks b) (block_id * BLOCK_SIZE_BYTES)) BLOCK_SIZE_BYTES)))
         else (0, buffer)
     | _ \<Rightarrow> (0, buffer))"

definition block_store_write ::
    "block_store_t option \<Rightarrow> nat \<Rightarrow> byte list option \<Rightarrow> mem \<Rightarrow> nat \<times> mem" where
  "block_store_write bs block_id buffer m = (case (bs, buffer) of
       (Some b, Some buf) \<Rightarrow>
         if block_id \<le> BLOCK_STORE_AVAIL_BLOCKS
         then (BLOCK_SIZE_BYTES,
               mwrite m (padd (data_blocks b) (block_id * BLOCK_SIZE_BYTES)) (take BLOCK_SIZE_BYTES buf))
         else (0, m)
     | _ \<Rightarrow> (0, m))"

section \<open>The stores of the inode table and the descriptor table\<close>

text \<open>
  The \<^verbatim>\<open>fd\<close> field of these two is never set by the code nor read: it is \<open>undefined\<close>. The two
  buffers that \<^verbatim>\<open>block_store_fd_create\<close> obtains from \<^verbatim>\<open>calloc\<close> are the objects \<open>FdData\<close>
  and \<open>FdBits\<close>.
\<close>

definition block_store_inode_create :: "bool \<Rightarrow> ptr \<Rightarrow> ptr \<Rightarrow> block_store_t option" where
  "block_store_inode_create struct_ok BM_start_pos data_start_pos =
     (if struct_ok
      then Some \<lparr>bs_fd = undefined, data_blocks = data_start_pos,
                 fbm = bitmap_overlay 256 BM_start_pos struct_ok\<rparr>
      else None)"

definition block_store_fd_create :: "bool \<Rightarrow> mem \<Rightarrow> block_store_t option \<times> mem" where
  "block_store_fd_create struct_ok m =
     (if struct_ok then
        (let data = (FdData, 0);
             m1 = c_memset m data 0 (256 * 6);
             (b, m2) = bitmap_create 256 struct_ok (FdBits, 0) m1
         in (Some \<lparr>bs_fd = undefined, data_blocks = data, fbm = b\<rparr>, m2))
      else (None, m))"

definition block_store_Data_location :: "block_store_t option \<Rightarrow> ptr" where
  "block_store_Data_location bs = (case bs of Some b \<Rightarrow> data_blocks b | None \<Rightarrow> null)"

definition block_store_inode_destroy :: "block_store_t option \<Rightarrow> release_action list" where
  "block_store_inode_destroy bs = (case bs of
       Some b \<Rightarrow> map Bitmap_freed (bitmap_destroy (fbm b)) @ [Free_store]
     | None \<Rightarrow> [])"

definition block_store_fd_destroy :: "block_store_t option \<Rightarrow> release_action list" where
  "block_store_fd_destroy bs = (case bs of
       Some b \<Rightarrow> map Bitmap_freed (bitmap_destroy (fbm b)) @ [Free_blocks (data_blocks b), Free_store]
     | None \<Rightarrow> [])"

definition block_store_sub_allocate :: "block_store_t option \<Rightarrow> mem \<Rightarrow> nat \<times> mem" where
  "block_store_sub_allocate bs m = (case bs of
       None \<Rightarrow> (SIZE_MAX, m)
     | Some b \<Rightarrow>
         (let id = bitmap_ffz (fbm b) m in
          if id = SIZE_MAX then (SIZE_MAX, m)
          else (id, bitmap_set (bm_deref (fbm b)) id m)))"

definition block_store_sub_test :: "block_store_t option \<Rightarrow> nat \<Rightarrow> mem \<Rightarrow> bool" where
  "block_store_sub_test bs block_id m =
     (if block_id > 255 \<or> bs = None then False
      else if bitmap_test (bm_deref (fbm (the bs))) block_id m then True else False)"

definition block_store_sub_release :: "block_store_t option \<Rightarrow> nat \<Rightarrow> mem \<Rightarrow> mem" where
  "block_store_sub_release bs block_id m =
     (if block_id < 256 \<and> bs \<noteq> None then
        (let b = bm_deref (fbm (the bs)) in
         if bitmap_test b block_id m then bitmap_reset b block_id m else m)
      else m)"

definition block_store_inode_read ::
    "block_store_t option \<Rightarrow> nat \<Rightarrow> byte list option \<Rightarrow> mem \<Rightarrow> nat \<times> byte list option" where
  "block_store_inode_read bs block_id buffer m = (case (bs, buffer) of
       (Some b, Some buf) \<Rightarrow>
         if block_id \<le> 255
         then (64, Some (buf_write buf 0 (mread m (padd (data_blocks b) (block_id * 64)) 64)))
         else (0, buffer)
     | _ \<Rightarrow> (0, buffer))"

definition block_store_fd_read ::
    "block_store_t option \<Rightarrow> nat \<Rightarrow> byte list option \<Rightarrow> mem \<Rightarrow> nat \<times> byte list option" where
  "block_store_fd_read bs block_id buffer m = (case (bs, buffer) of
       (Some b, Some buf) \<Rightarrow>
         if block_id \<le> 255
         then (6, Some (buf_write buf 0 (mread m (padd (data_blocks b) (block_id * 6)) 6)))
         else (0, buffer)
     | _ \<Rightarrow> (0, buffer))"

definition block_store_inode_write ::
    "block_store_t option \<Rightarrow> nat \<Rightarrow> byte list option \<Rightarrow> mem \<Rightarrow> nat \<times> mem" where
  "block_store_inode_write bs block_id buffer m = (case (bs, buffer) of
       (Some b, Some buf) \<Rightarrow>
         if block_id < 256
         then (64, mwrite m (padd (data_blocks b) (block_id * 64)) (take 64 buf))
         else (0, m)
     | _ \<Rightarrow> (0, m))"

definition block_store_fd_write ::
    "block_store_t option \<Rightarrow> nat \<Rightarrow> byte list option \<Rightarrow> mem \<Rightarrow> nat \<times> mem" where
  "block_store_fd_write bs block_id buffer m = (case (bs, buffer) of
       (Some b, Some buf) \<Rightarrow>
         if block_id < 256
         then (6, mwrite m (padd (data_blocks b) (block_id * 6)) (take 6 buf))
         else (0, m)
     | _ \<Rightarrow> (0, m))"

definition block_store_get_data :: "block_store_t option \<Rightarrow> ptr" where
  "block_store_get_data bs = (case bs of Some b \<Rightarrow> data_blocks b | None \<Rightarrow> null)"

definition block_store_get_bm :: "block_store_t option \<Rightarrow> bitmap_t option" where
  "block_store_get_bm bs = (case bs of Some b \<Rightarrow> fbm b | None \<Rightarrow> None)"

section \<open>The three stores of a mounted file system\<close>

text \<open>
  What \<^verbatim>\<open>block_store_init\<close>, \<^verbatim>\<open>block_store_inode_create\<close> and \<^verbatim>\<open>block_store_fd_create\<close>
  build: the whole image with its free block map in the last 8 blocks, the inode table in
  blocks 1 to 16 with its bitmap in block 0, the descriptor table on the heap.
\<close>

definition whole_bm :: bitmap_t where
  "whole_bm = bitmap_struct BLOCK_STORE_AVAIL_BLOCKS FLAG_OVERLAY (Image, 67100672)"

definition inode_bm :: bitmap_t where
  "inode_bm = bitmap_struct 256 FLAG_OVERLAY (Image, 0)"

definition fd_bm :: bitmap_t where
  "fd_bm = bitmap_struct 256 FLAG_NONE (FdBits, 0)"

definition whole_store :: "int \<Rightarrow> block_store_t" where
  "whole_store fd = \<lparr>bs_fd = fd, data_blocks = (Image, 0), fbm = Some whole_bm\<rparr>"

definition inode_store :: block_store_t where
  "inode_store = \<lparr>bs_fd = undefined, data_blocks = (Image, 1024), fbm = Some inode_bm\<rparr>"

definition fd_store :: block_store_t where
  "fd_store = \<lparr>bs_fd = undefined, data_blocks = (FdData, 0), fbm = Some fd_bm\<rparr>"

lemma store_simps [simp]:
  "bs_fd (whole_store fd) = fd" "data_blocks (whole_store fd) = (Image, 0)" "fbm (whole_store fd) = Some whole_bm"
  "data_blocks inode_store = (Image, 1024)" "fbm inode_store = Some inode_bm"
  "data_blocks fd_store = (FdData, 0)" "fbm fd_store = Some fd_bm"
  by (simp_all add: whole_store_def inode_store_def fd_store_def)

lemmas store_bms = whole_bm_def inode_bm_def fd_bm_def

lemma bm_data_simps [simp]:
  "bm_data whole_bm = (Image, 67100672)" "bm_data inode_bm = (Image, 0)" "bm_data fd_bm = (FdBits, 0)"
  by (simp_all add: store_bms)

lemma inode_store_created:
  "block_store_inode_create True (Image, 0) (Image, 1024) = Some inode_store"
  by (simp add: block_store_inode_create_def bitmap_overlay_struct inode_store_def inode_bm_def)

lemma fd_store_created:
  "block_store_fd_create True m =
    (Some fd_store, mwrite (c_memset m (FdData, 0) 0 1536) (FdBits, 0) (replicate 32 0))"
  by (simp add: block_store_fd_create_def bitmap_create_struct fd_store_def fd_bm_def Let_def)

interpretation whole: bitset "bitmap_test whole_bm" "bitmap_set whole_bm" "bitmap_reset whole_bm"
    "bitmap_ffz (Some whole_bm)" "bitmap_total_set (Some whole_bm)" BLOCK_STORE_AVAIL_BLOCKS
  unfolding whole_bm_def by (rule bits.bitset_axioms)

interpretation ino: bitset "bitmap_test inode_bm" "bitmap_set inode_bm" "bitmap_reset inode_bm"
    "bitmap_ffz (Some inode_bm)" "bitmap_total_set (Some inode_bm)" 256
  unfolding inode_bm_def by (rule bits.bitset_axioms)

interpretation fds: bitset "bitmap_test fd_bm" "bitmap_set fd_bm" "bitmap_reset fd_bm"
    "bitmap_ffz (Some fd_bm)" "bitmap_total_set (Some fd_bm)" 256
  unfolding fd_bm_def by (rule bits.bitset_axioms)

section \<open>What an allocation does to memory\<close>

lemma bitmap_set_elsewhere [mem_simps]:
  "fst q \<noteq> fst (bm_data b) \<or> snd q + n \<le> snd (bm_data b) \<or> snd (bm_data b) + i div 8 < snd q \<Longrightarrow>
    mread (bitmap_set b i m) q n = mread m q n"
  by (auto simp: bitmap_set_def Let_def bitmap_byte_def mem_disjoint_def intro!: mread_mwrite_disjoint)

lemma bitmap_reset_elsewhere [mem_simps]:
  "fst q \<noteq> fst (bm_data b) \<or> snd q + n \<le> snd (bm_data b) \<or> snd (bm_data b) + i div 8 < snd q \<Longrightarrow>
    mread (bitmap_reset b i m) q n = mread m q n"
  by (auto simp: bitmap_reset_def Let_def bitmap_byte_def mem_disjoint_def intro!: mread_mwrite_disjoint)

lemma bitmap_test_cong:
  "byte_at m (bitmap_byte b (i div 8)) = byte_at m' (bitmap_byte b (i div 8)) \<Longrightarrow>
    bitmap_test b i m = bitmap_test b i m'"
  by (simp add: bitmap_test_bit)

lemma bitmap_test_mwrite [bm_simps]:
  "fst p \<noteq> fst (bm_data b) \<or> snd p + length bs \<le> snd (bm_data b) + i div 8 \<or>
     snd (bm_data b) + i div 8 < snd p \<Longrightarrow> bitmap_test b i (mwrite m p bs) = bitmap_test b i m"
  by (rule bitmap_test_cong) (auto simp: byte_at_def bitmap_byte_def mwrite_def)

lemma bitmap_test_set_other [bm_simps]:
  assumes "fst (bm_data b) \<noteq> fst (bm_data c) \<or> snd (bm_data b) + i div 8 \<noteq> snd (bm_data c) + j div 8"
  shows "bitmap_test c j (bitmap_set b i m) = bitmap_test c j m"
  by (rule bitmap_test_cong)
    (use assms in \<open>auto simp: bitmap_set_def Let_def byte_at_mwrite bitmap_byte_def padd_def\<close>)

lemma bitmap_test_reset_other [bm_simps]:
  assumes "fst (bm_data b) \<noteq> fst (bm_data c) \<or> snd (bm_data b) + i div 8 \<noteq> snd (bm_data c) + j div 8"
  shows "bitmap_test c j (bitmap_reset b i m) = bitmap_test c j m"
  by (rule bitmap_test_cong)
    (use assms in \<open>auto simp: bitmap_reset_def Let_def byte_at_mwrite bitmap_byte_def padd_def\<close>)

definition get_block :: "mem \<Rightarrow> nat \<Rightarrow> byte list" where
  "get_block m i = mread m (Image, i * 1024) 1024"

definition put_block :: "nat \<Rightarrow> byte list \<Rightarrow> mem \<Rightarrow> mem" where
  "put_block i bs m = mwrite m (Image, i * 1024) (take 1024 bs)"

lemma length_get_block [simp]: "length (get_block m i) = 1024"
  by (simp add: get_block_def)

lemma buf_write_all [simp]: "length bs = length buf \<Longrightarrow> buf_write buf 0 bs = bs"
  by (simp add: buf_write_def)

lemma block_store_read_whole [simp]:
  "length buf = 1024 \<Longrightarrow> i \<le> 65528 \<Longrightarrow>
    block_store_read (Some (whole_store fd)) i (Some buf) m = (1024, Some (get_block m i))"
  by (simp add: block_store_read_def get_block_def)

lemma block_store_write_whole [simp]:
  "i \<le> 65528 \<Longrightarrow> block_store_write (Some (whole_store fd)) i (Some bs) m = (1024, put_block i bs m)"
  by (simp add: block_store_write_def put_block_def)

lemma get_put_block [mem_simps]:
  "length bs = 1024 \<Longrightarrow> get_block (put_block i bs m) j = (if i = j then bs else get_block m j)"
proof -
  assume len: "length bs = 1024"
  have "i \<noteq> j \<Longrightarrow> mem_disjoint (Image, i * 1024) 1024 (Image, j * 1024) 1024"
    by (auto simp: mem_disjoint_def)
  with len show ?thesis
    by (auto simp: get_block_def put_block_def mread_mwrite_same mread_mwrite_disjoint)
qed

lemma get_block_alloc [mem_simps]:
  "i < 65528 \<Longrightarrow> get_block (bitmap_set whole_bm j m) i = get_block m i"
  "i < 65528 \<Longrightarrow> get_block (bitmap_reset whole_bm j m) i = get_block m i"
  by (simp_all add: get_block_def bitmap_set_elsewhere bitmap_reset_elsewhere)

lemma whole_test_put_block [bm_simps]:
  "i < 65528 \<Longrightarrow> bitmap_test whole_bm j (put_block i bs m) = bitmap_test whole_bm j m"
  by (simp add: put_block_def bitmap_test_mwrite)

section \<open>The allocator\<close>

text \<open>
  The three allocators are the same code on different bitmaps: the first zero bit, then set.
  Their laws are the facts of the interpretations \<open>whole\<close>, \<open>ino\<close> and \<open>fds\<close>.
\<close>

lemma allocate_whole:
  "block_store_allocate (Some (whole_store fd)) m =
    (let id = bitmap_ffz (Some whole_bm) m in
     if id = SIZE_MAX then (SIZE_MAX, m) else (id, bitmap_set whole_bm id m))"
  by (simp add: block_store_allocate_def Let_def)

lemma allocate_inode:
  "block_store_allocate (Some inode_store) m =
    (let id = bitmap_ffz (Some inode_bm) m in
     if id = SIZE_MAX then (SIZE_MAX, m) else (id, bitmap_set inode_bm id m))"
  by (simp add: block_store_allocate_def Let_def)

lemma allocate_fd:
  "block_store_sub_allocate (Some fd_store) m =
    (let id = bitmap_ffz (Some fd_bm) m in
     if id = SIZE_MAX then (SIZE_MAX, m) else (id, bitmap_set fd_bm id m))"
  by (simp add: block_store_sub_allocate_def Let_def)

lemma allocate_whole_cases:
  obtains (full) "block_store_allocate (Some (whole_store fd)) m = (SIZE_MAX, m)"
      and "\<And>j. j < 65528 \<Longrightarrow> bitmap_test whole_bm j m"
  | (found) id where "block_store_allocate (Some (whole_store fd)) m = (id, bitmap_set whole_bm id m)"
      and "id < 65528" and "\<not> bitmap_test whole_bm id m" and "\<And>j. j < id \<Longrightarrow> bitmap_test whole_bm j m"
proof (cases "bitmap_ffz (Some whole_bm) m = SIZE_MAX")
  case True
  then show ?thesis using full whole.ffz_full [OF True] by (simp add: allocate_whole Let_def)
next
  case False
  then show ?thesis using found whole.ffz_found [OF False] by (simp add: allocate_whole Let_def)
qed

section \<open>Tables of fixed-size records\<close>

text \<open>
  The interface the file system uses of a store: a slot read back is what was last written to
  it, and writing one slot leaves the others alone.
\<close>

locale slot_table =
  fixes rd :: "nat \<Rightarrow> mem \<Rightarrow> byte list" and wr :: "nat \<Rightarrow> byte list \<Rightarrow> mem \<Rightarrow> mem"
    and slots :: nat and width :: nat
  assumes rd_width: "i < slots \<Longrightarrow> length (rd i m) = width"
    and rd_wr: "i < slots \<Longrightarrow> length bs = width \<Longrightarrow> rd i (wr i bs m) = bs"
    and rd_wr_other: "i < slots \<Longrightarrow> j < slots \<Longrightarrow> i \<noteq> j \<Longrightarrow> length bs = width \<Longrightarrow> rd j (wr i bs m) = rd j m"
    and wr_rd: "i < slots \<Longrightarrow> wr i (rd i m) m = m"
begin

lemma rd_wr_if:
  "i < slots \<Longrightarrow> j < slots \<Longrightarrow> length bs = width \<Longrightarrow> rd j (wr i bs m) = (if i = j then bs else rd j m)"
  by (simp add: rd_wr rd_wr_other)

lemma rd_wr_all_other:
  "\<forall>(i, bs) \<in> set us. i < slots \<and> length bs = width \<Longrightarrow> j < slots \<Longrightarrow> j \<notin> fst ` set us \<Longrightarrow>
    rd j (fold (\<lambda>(i, bs). wr i bs) us m) = rd j m"
  by (induction us arbitrary: m) (auto simp: rd_wr_other)

lemma rd_wr_all:
  "\<forall>(i, bs) \<in> set us. i < slots \<and> length bs = width \<Longrightarrow> distinct (map fst us) \<Longrightarrow> (j, bs) \<in> set us \<Longrightarrow>
    rd j (fold (\<lambda>(i, bs). wr i bs) us m) = bs"
proof (induction us arbitrary: m)
  case (Cons u us)
  obtain i cs where u: "u = (i, cs)" by (cases u)
  show ?case
  proof (cases "(j, bs) = u")
    case True
    with Cons.prems u have "j \<notin> fst ` set us" "j < slots" "length bs = width" by auto
    then show ?thesis
      using rd_wr_all_other [of us j "wr j bs m"] Cons.prems(1) True u by (simp add: rd_wr)
  next
    case False
    with Cons show ?thesis by auto
  qed
qed simp

end

definition read_slot ::
    "(byte list option \<Rightarrow> mem \<Rightarrow> nat \<times> byte list option) \<Rightarrow> nat \<Rightarrow> mem \<Rightarrow> byte list" where
  "read_slot rd n m = the (snd (rd (Some (replicate n 0)) m))"

lemma read_slot_whole:
  "i \<le> 65528 \<Longrightarrow> read_slot (block_store_read (Some (whole_store fd)) i) 1024 m = get_block m i"
  by (simp add: read_slot_def)

lemma read_slot_inode:
  "i < 256 \<Longrightarrow> read_slot (block_store_inode_read (Some inode_store) i) 64 m = mread m (Image, 1024 + i * 64) 64"
  by (simp add: read_slot_def block_store_inode_read_def)

lemma read_slot_fd:
  "i < 256 \<Longrightarrow> read_slot (block_store_fd_read (Some fd_store) i) 6 m = mread m (FdData, i * 6) 6"
  by (simp add: read_slot_def block_store_fd_read_def)

lemma write_slot_inode:
  "i < 256 \<Longrightarrow> snd (block_store_inode_write (Some inode_store) i (Some bs) m) =
    mwrite m (Image, 1024 + i * 64) (take 64 bs)"
  by (simp add: block_store_inode_write_def)

lemma write_slot_fd:
  "i < 256 \<Longrightarrow> snd (block_store_fd_write (Some fd_store) i (Some bs) m) = mwrite m (FdData, i * 6) (take 6 bs)"
  by (simp add: block_store_fd_write_def)

lemma slots_disjoint:
  "i \<noteq> j \<Longrightarrow> mem_disjoint (ob, k + i * w) w (ob, k + j * w) w"
proof -
  assume "i \<noteq> j"
  then have "Suc i \<le> j \<or> Suc j \<le> i" by arith
  then have "Suc i * w \<le> j * w \<or> Suc j * w \<le> i * w" using mult_le_mono1 by blast
  then show ?thesis by (auto simp: mem_disjoint_def)
qed

interpretation blocks: slot_table
    "\<lambda>i m. read_slot (block_store_read (Some (whole_store fd)) i) 1024 m"
    "\<lambda>i bs m. snd (block_store_write (Some (whole_store fd)) i (Some bs) m)" 65528 1024
  for fd
  by unfold_locales
    (simp_all add: read_slot_whole get_put_block, simp add: put_block_def get_block_def)

interpretation inodes: slot_table
    "\<lambda>i m. read_slot (block_store_inode_read (Some inode_store) i) 64 m"
    "\<lambda>i bs m. snd (block_store_inode_write (Some inode_store) i (Some bs) m)" 256 64
  by unfold_locales
    (simp_all add: read_slot_inode write_slot_inode mread_mwrite_same mread_mwrite_disjoint slots_disjoint)

interpretation descriptors: slot_table
    "\<lambda>i m. read_slot (block_store_fd_read (Some fd_store) i) 6 m"
    "\<lambda>i bs m. snd (block_store_fd_write (Some fd_store) i (Some bs) m)" 256 6
  by unfold_locales
    (simp_all add: read_slot_fd write_slot_fd mread_mwrite_same mread_mwrite_disjoint
      slots_disjoint [where k = 0, simplified])

end
