(* ===== verification/Inode_Table.thy ===== *)
theory Inode_Table
  imports Block_Store
begin

text \<open>
  The inode (\<^verbatim>\<open>struct inode\<close> of \<^verbatim>\<open>F19FS.c\<close> and \<^verbatim>\<open>inode.h\<close>) with its 64-byte
  representation, and \<^verbatim>\<open>src/inode.c\<close>. The code copies inodes to and from the table with
  \<^verbatim>\<open>memcpy\<close>; the record is the typed view of those 64 bytes. The lemmas show that the encoding
  is a bijection, so that an inode written is the inode read, field for field.
\<close>

record inode_t =
  vacantFile :: uint32_t
  owner :: "byte list"
  fileType :: byte
  inode_pad :: byte            \<comment> \<open>the byte the compiler leaves before the first \<^verbatim>\<open>size_t\<close>\<close>
  inodeNumber :: uint64_t
  fileSize :: uint64_t
  linkCount :: uint64_t
  directPointer :: "uint16_t list"
  indirectPointer :: uint16_t
  doubleIndirectPointer :: uint16_t

definition inode_layout :: "nat list" where
  "inode_layout = [4, 18, 1, 1, 8, 8, 8, 12, 2, 2]"

definition encode_inode :: "inode_t \<Rightarrow> byte list" where
  "encode_inode i = concat [le 4 (vacantFile i), owner i, [fileType i], [inode_pad i],
     le 8 (inodeNumber i), le 8 (fileSize i), le 8 (linkCount i),
     ptrs_bytes (directPointer i), le 2 (indirectPointer i), le 2 (doubleIndirectPointer i)]"

definition decode_inode :: "byte list \<Rightarrow> inode_t" where
  "decode_inode bs = (let c = chunks inode_layout bs in
     \<lparr>vacantFile = unle (c ! 0), owner = c ! 1, fileType = hd (c ! 2), inode_pad = hd (c ! 3),
      inodeNumber = unle (c ! 4), fileSize = unle (c ! 5), linkCount = unle (c ! 6),
      directPointer = bytes_ptrs 6 (c ! 7), indirectPointer = unle (c ! 8),
      doubleIndirectPointer = unle (c ! 9)\<rparr>)"

text \<open>The two array fields have their C lengths.\<close>

definition inode_wf :: "inode_t \<Rightarrow> bool" where
  "inode_wf i \<longleftrightarrow> length (owner i) = 18 \<and> length (directPointer i) = 6"

definition zero_inode :: inode_t where
  "zero_inode = \<lparr>vacantFile = 0, owner = replicate 18 0, fileType = 0, inode_pad = 0, inodeNumber = 0,
     fileSize = 0, linkCount = 0, directPointer = replicate 6 0, indirectPointer = 0,
     doubleIndirectPointer = 0\<rparr>"

abbreviation ch_r :: byte where "ch_r \<equiv> 0x72"
abbreviation ch_d :: byte where "ch_d \<equiv> 0x64"

lemma length_encode_inode: "inode_wf i \<Longrightarrow> length (encode_inode i) = 64"
  by (simp add: encode_inode_def inode_wf_def)

lemma decode_encode_inode: "inode_wf i \<Longrightarrow> decode_inode (encode_inode i) = i"
proof -
  assume wf: "inode_wf i"
  then have "chunks inode_layout (encode_inode i) = [le 4 (vacantFile i), owner i, [fileType i], [inode_pad i],
     le 8 (inodeNumber i), le 8 (fileSize i), le 8 (linkCount i),
     ptrs_bytes (directPointer i), le 2 (indirectPointer i), le 2 (doubleIndirectPointer i)]"
    unfolding encode_inode_def by (intro chunks_concat) (simp add: inode_layout_def inode_wf_def)
  with wf show ?thesis by (simp add: decode_inode_def codec_simps inode_wf_def)
qed

lemma inode_wf_decode: "length bs = 64 \<Longrightarrow> inode_wf (decode_inode bs)"
  using length_nth_chunks [of bs inode_layout 1]
  by (simp add: decode_inode_def inode_wf_def Let_def inode_layout_def)

lemma encode_decode_inode: "length bs = 64 \<Longrightarrow> encode_inode (decode_inode bs) = bs"
proof -
  assume len: "length bs = 64"
  define c where "c = chunks inode_layout bs"
  have l: "i < 10 \<Longrightarrow> length (c ! i) = inode_layout ! i" for i
    using length_nth_chunks [of bs inode_layout i] len by (simp add: c_def inode_layout_def)
  have "length (c ! 0) = 4" "length (c ! 2) = 1" "length (c ! 3) = 1" "length (c ! 4) = 8" "length (c ! 5) = 8"
    "length (c ! 6) = 8" "length (c ! 7) = 12" "length (c ! 8) = 2" "length (c ! 9) = 2"
    using l by (simp_all add: inode_layout_def)
  then have "encode_inode (decode_inode bs) =
      concat [c ! 0, c ! 1, c ! 2, c ! 3, c ! 4, c ! 5, c ! 6, c ! 7, c ! 8, c ! 9]"
    by (simp add: encode_inode_def decode_inode_def c_def [symmetric] codec_simps singleton_hd)
  also have "[c ! 0, c ! 1, c ! 2, c ! 3, c ! 4, c ! 5, c ! 6, c ! 7, c ! 8, c ! 9] =
      map (\<lambda>i. c ! i) [0..<length inode_layout]"
  proof -
    have "[0..<length inode_layout] = [0, 1, 2, 3, 4, 5, 6, 7, 8, 9]"
      by (simp add: inode_layout_def upt_rec)
    then show ?thesis by (simp only: list.map)
  qed
  also have "\<dots> = c" unfolding c_def by (rule map_nth_chunks)
  also have "concat c = bs" unfolding c_def by (rule concat_chunks) (simp add: len inode_layout_def)
  finally show ?thesis .
qed

interpretation inode: codec encode_inode decode_inode 64 inode_wf
  by unfold_locales
    (simp_all add: length_encode_inode decode_encode_inode inode_wf_decode encode_decode_inode)

section \<open>Inodes in the table\<close>

definition get_inode :: "mem \<Rightarrow> nat \<Rightarrow> inode_t" where
  "get_inode m i = decode_inode (mread m (Image, 1024 + i * 64) 64)"

definition put_inode :: "nat \<Rightarrow> inode_t \<Rightarrow> mem \<Rightarrow> mem" where
  "put_inode i ino m = mwrite m (Image, 1024 + i * 64) (encode_inode ino)"

text \<open>
  The way \<^verbatim>\<open>F19FS.c\<close> transfers an inode: into a struct variable, whose previous content stays
  when the read fails, and out of one.
\<close>

definition read_inode :: "block_store_t option \<Rightarrow> nat \<Rightarrow> inode_t \<Rightarrow> mem \<Rightarrow> nat \<times> inode_t" where
  "read_inode bs i ino m = (let (r, buf) = block_store_inode_read bs i (Some (encode_inode ino)) m
                            in (r, decode_inode (the buf)))"

definition write_inode :: "block_store_t option \<Rightarrow> nat \<Rightarrow> inode_t \<Rightarrow> mem \<Rightarrow> nat \<times> mem" where
  "write_inode bs i ino m = block_store_inode_write bs i (Some (encode_inode ino)) m"

lemma read_inode_store [simp]:
  "inode_wf ino \<Longrightarrow> i < 256 \<Longrightarrow> read_inode (Some inode_store) i ino m = (64, get_inode m i)"
  by (simp add: read_inode_def block_store_inode_read_def get_inode_def length_encode_inode)

lemma read_inode_fails:
  "inode_wf ino \<Longrightarrow> 255 < i \<Longrightarrow> read_inode (Some inode_store) i ino m = (0, ino)"
  by (simp add: read_inode_def block_store_inode_read_def decode_encode_inode)

lemma write_inode_store [simp]:
  "inode_wf ino \<Longrightarrow> i < 256 \<Longrightarrow> write_inode (Some inode_store) i ino m = (64, put_inode i ino m)"
  by (simp add: write_inode_def block_store_inode_write_def put_inode_def length_encode_inode)

lemma inode_wf_get [simp]: "inode_wf (get_inode m i)"
  by (simp add: get_inode_def inode_wf_decode)

lemma inode_wf_zero [simp]: "inode_wf zero_inode"
  by (simp add: inode_wf_def zero_inode_def)

lemma get_put_inode [mem_simps]:
  "inode_wf ino \<Longrightarrow> get_inode (put_inode i ino m) j = (if i = j then ino else get_inode m j)"
  using slots_disjoint [of i j Image 1024 64]
  by (auto simp: get_inode_def put_inode_def inode.load_store inode.load_store_other)

lemma get_inode_alloc [mem_simps]:
  "i < 256 \<Longrightarrow> get_inode (bitmap_set whole_bm j m) i = get_inode m i"
  "i < 256 \<Longrightarrow> get_inode (bitmap_reset whole_bm j m) i = get_inode m i"
  "j < 256 \<Longrightarrow> get_inode (bitmap_set inode_bm j m) i = get_inode m i"
  "j < 256 \<Longrightarrow> get_inode (bitmap_reset inode_bm j m) i = get_inode m i"
  by (simp_all add: get_inode_def bitmap_set_elsewhere bitmap_reset_elsewhere)

lemma get_inode_put_block [mem_simps]:
  "i < 256 \<Longrightarrow> 17 \<le> j \<Longrightarrow> get_inode (put_block j bs m) i = get_inode m i"
  by (simp add: get_inode_def put_block_def mem_disjoint_def mread_mwrite_disjoint)

lemma get_block_put_inode [mem_simps]:
  "inode_wf ino \<Longrightarrow> i < 256 \<Longrightarrow> 17 \<le> j \<Longrightarrow> get_block (put_inode i ino m) j = get_block m j"
  by (simp add: get_block_def put_inode_def mem_disjoint_def mread_mwrite_disjoint length_encode_inode)

lemma whole_test_put_inode [bm_simps]:
  "inode_wf ino \<Longrightarrow> i < 256 \<Longrightarrow> bitmap_test whole_bm j (put_inode i ino m) = bitmap_test whole_bm j m"
  by (simp add: put_inode_def bitmap_test_mwrite length_encode_inode)

lemma inode_test_put_inode [bm_simps]:
  "j < 256 \<Longrightarrow> bitmap_test inode_bm j (put_inode i ino m) = bitmap_test inode_bm j m"
  using less_mult_imp_div_less [of j 32 8] by (simp add: put_inode_def bitmap_test_mwrite)

lemma inode_test_put_block [bm_simps]:
  "j < 256 \<Longrightarrow> 1 \<le> i \<Longrightarrow> bitmap_test inode_bm j (put_block i bs m) = bitmap_test inode_bm j m"
  using less_mult_imp_div_less [of j 32 8] by (simp add: put_block_def bitmap_test_mwrite)

section \<open>The functions of \<^verbatim>\<open>inode.c\<close>\<close>

text \<open>
  A second set of accessors to the same table, on a store of the same struct; \<^verbatim>\<open>F19FS.c\<close> does
  not call them. Their range checks admit \<^verbatim>\<open>block_id == number_inodes\<close>.
\<close>

abbreviation number_inodes :: nat where "number_inodes \<equiv> 256"
abbreviation inode_size :: nat where "inode_size \<equiv> 64"

definition inode_table_create :: "bool \<Rightarrow> ptr \<Rightarrow> ptr \<Rightarrow> block_store_t option" where
  "inode_table_create struct_ok bitmap_buffer block_buffer =
     (if struct_ok
      then Some \<lparr>bs_fd = undefined, data_blocks = block_buffer,
                 fbm = bitmap_overlay number_inodes bitmap_buffer struct_ok\<rparr>
      else None)"

definition inode_table_destory :: "block_store_t option \<Rightarrow> release_action list" where
  "inode_table_destory bs = (case bs of
       None \<Rightarrow> [] | Some b \<Rightarrow> map Bitmap_freed (bitmap_destroy (fbm b)) @ [Free_store])"

definition inode_table_release :: "block_store_t option \<Rightarrow> nat \<Rightarrow> mem \<Rightarrow> mem" where
  "inode_table_release bs block_id m =
     (if bs = None \<or> block_id > number_inodes then m
      else (let b = bm_deref (fbm (the bs)) in
            if bitmap_test b block_id m then bitmap_reset b block_id m else m))"

definition inode_table_read ::
    "block_store_t option \<Rightarrow> nat \<Rightarrow> byte list option \<Rightarrow> mem \<Rightarrow> nat \<times> byte list option" where
  "inode_table_read bs block_id buffer m =
     (if bs = None \<or> buffer = None \<or> block_id > number_inodes then (0, buffer)
      else (inode_size, Some (buf_write (the buffer) 0
              (mread m (padd (data_blocks (the bs)) (block_id * inode_size)) 64))))"

definition inode_table_write ::
    "block_store_t option \<Rightarrow> nat \<Rightarrow> byte list option \<Rightarrow> mem \<Rightarrow> nat \<times> mem" where
  "inode_table_write bs block_id buffer m =
     (if bs = None \<or> buffer = None \<or> block_id > number_inodes then (0, m)
      else (inode_size, mwrite m (padd (data_blocks (the bs)) (block_id * inode_size))
                          (take inode_size (the buffer))))"

text \<open>Within the table the two sets of accessors agree.\<close>

lemma inode_table_agrees:
  "i < 256 \<Longrightarrow> inode_table_read bs i buf m = block_store_inode_read bs i buf m"
  "i < 256 \<Longrightarrow> inode_table_write bs i buf m = block_store_inode_write bs i buf m"
  "i < 256 \<Longrightarrow> inode_table_release bs i m = block_store_sub_release bs i m"
  by (auto simp: inode_table_read_def block_store_inode_read_def inode_table_write_def
      block_store_inode_write_def inode_table_release_def block_store_sub_release_def split: option.splits)

end
