(* ===== verification/File_Descriptor.thy ===== *)
theory File_Descriptor
  imports Block_Store
begin

text \<open>
  The file descriptor (\<^verbatim>\<open>struct fileDescriptor\<close>) with its 6-byte representation,
  \<^verbatim>\<open>src/file_descriptor.c\<close>, and the cursor arithmetic of \<^verbatim>\<open>F19FS.c\<close>: \<^verbatim>\<open>updateFD\<close>,
  \<^verbatim>\<open>getPreviosOffset\<close> and \<^verbatim>\<open>cutBoundary\<close>. A cursor is a block index within the file and an
  offset in that block; \<open>cursor_pos\<close> is the byte position they stand for.
\<close>

record fd_t =
  inodeNum :: uint8_t
  usage :: uint8_t
  locate_order :: uint16_t
  locate_offset :: uint16_t

definition fd_layout :: "nat list" where
  "fd_layout = [1, 1, 2, 2]"

definition encode_fd :: "fd_t \<Rightarrow> byte list" where
  "encode_fd f = concat [le 1 (inodeNum f), le 1 (usage f), le 2 (locate_order f), le 2 (locate_offset f)]"

definition decode_fd :: "byte list \<Rightarrow> fd_t" where
  "decode_fd bs = (let c = chunks fd_layout bs in
     \<lparr>inodeNum = unle (c ! 0), usage = unle (c ! 1), locate_order = unle (c ! 2), locate_offset = unle (c ! 3)\<rparr>)"

definition zero_fd :: fd_t where
  "zero_fd = \<lparr>inodeNum = 0, usage = 0, locate_order = 0, locate_offset = 0\<rparr>"

lemma length_encode_fd [simp]: "length (encode_fd f) = 6"
  by (simp add: encode_fd_def)

lemma decode_encode_fd [simp]: "decode_fd (encode_fd f) = f"
proof -
  have "chunks fd_layout (encode_fd f) =
      [le 1 (inodeNum f), le 1 (usage f), le 2 (locate_order f), le 2 (locate_offset f)]"
    unfolding encode_fd_def by (intro chunks_concat) (simp add: fd_layout_def)
  then show ?thesis by (simp add: decode_fd_def codec_simps)
qed

lemma encode_decode_fd: "length bs = 6 \<Longrightarrow> encode_fd (decode_fd bs) = bs"
proof -
  assume len: "length bs = 6"
  define c where "c = chunks fd_layout bs"
  have l: "i < 4 \<Longrightarrow> length (c ! i) = fd_layout ! i" for i
    using length_nth_chunks [of bs fd_layout i] len by (simp add: c_def fd_layout_def)
  have "length (c ! 0) = 1" "length (c ! 1) = 1" "length (c ! 2) = 2" "length (c ! 3) = 2"
    using l by (simp_all add: fd_layout_def)
  then have "encode_fd (decode_fd bs) = concat [c ! 0, c ! 1, c ! 2, c ! 3]"
    by (simp add: encode_fd_def decode_fd_def c_def [symmetric] codec_simps)
  also have "[c ! 0, c ! 1, c ! 2, c ! 3] = map (\<lambda>i. c ! i) [0..<length fd_layout]"
  proof -
    have "[0..<length fd_layout] = [0, 1, 2, 3]" by (simp add: fd_layout_def upt_rec)
    then show ?thesis by (simp only: list.map)
  qed
  also have "\<dots> = c" unfolding c_def by (rule map_nth_chunks)
  also have "concat c = bs" unfolding c_def by (rule concat_chunks) (simp add: len fd_layout_def)
  finally show ?thesis .
qed

interpretation fd: codec encode_fd decode_fd 6 "\<lambda>_. True"
  by unfold_locales (simp_all add: encode_decode_fd)

section \<open>Descriptors in the table\<close>

definition get_fd :: "mem \<Rightarrow> nat \<Rightarrow> fd_t" where
  "get_fd m i = decode_fd (mread m (FdData, i * 6) 6)"

definition put_fd :: "nat \<Rightarrow> fd_t \<Rightarrow> mem \<Rightarrow> mem" where
  "put_fd i f m = mwrite m (FdData, i * 6) (encode_fd f)"

definition read_fd :: "block_store_t option \<Rightarrow> nat \<Rightarrow> fd_t \<Rightarrow> mem \<Rightarrow> nat \<times> fd_t" where
  "read_fd bs i f m = (let (r, buf) = block_store_fd_read bs i (Some (encode_fd f)) m
                       in (r, decode_fd (the buf)))"

definition write_fd :: "block_store_t option \<Rightarrow> nat \<Rightarrow> fd_t \<Rightarrow> mem \<Rightarrow> nat \<times> mem" where
  "write_fd bs i f m = block_store_fd_write bs i (Some (encode_fd f)) m"

lemma read_fd_store [simp]: "i < 256 \<Longrightarrow> read_fd (Some fd_store) i f m = (6, get_fd m i)"
  by (simp add: read_fd_def block_store_fd_read_def get_fd_def)

lemma write_fd_store [simp]: "i < 256 \<Longrightarrow> write_fd (Some fd_store) i f m = (6, put_fd i f m)"
  by (simp add: write_fd_def block_store_fd_write_def put_fd_def)

lemma get_put_fd [mem_simps]: "get_fd (put_fd i f m) j = (if i = j then f else get_fd m j)"
  using slots_disjoint [of i j FdData 0 6]
  by (auto simp: get_fd_def put_fd_def fd.load_store fd.load_store_other)

section \<open>The functions of \<^verbatim>\<open>file_descriptor.c\<close>\<close>

abbreviation NUM_FD :: nat where "NUM_FD \<equiv> 256"
abbreviation SIZE_FD :: nat where "SIZE_FD \<equiv> 6"

definition fd_table_create :: "bool \<Rightarrow> mem \<Rightarrow> block_store_t option \<times> mem" where
  "fd_table_create struct_ok m =
     (if struct_ok then
        (let data = (FdData, 0);
             m1 = c_memset m data 0 (NUM_FD * SIZE_FD);
             (b, m2) = bitmap_create NUM_FD struct_ok (FdBits, 0) m1
         in (Some \<lparr>bs_fd = undefined, data_blocks = data, fbm = b\<rparr>, m2))
      else (None, m))"

definition fd_table_destory :: "block_store_t option \<Rightarrow> release_action list" where
  "fd_table_destory bs = (case bs of
       None \<Rightarrow> []
     | Some b \<Rightarrow> map Bitmap_freed (bitmap_destroy (fbm b)) @ [Free_blocks (data_blocks b), Free_store])"

definition fd_table_release :: "block_store_t option \<Rightarrow> nat \<Rightarrow> mem \<Rightarrow> mem" where
  "fd_table_release bs block_id m =
     (if bs = None \<or> block_id > NUM_FD then m
      else (let b = bm_deref (fbm (the bs)) in
            if bitmap_test b block_id m then bitmap_reset b block_id m else m))"

definition fd_table_read ::
    "block_store_t option \<Rightarrow> nat \<Rightarrow> byte list option \<Rightarrow> mem \<Rightarrow> nat \<times> byte list option" where
  "fd_table_read bs block_id buffer m =
     (if bs = None \<or> buffer = None \<or> block_id > NUM_FD then (0, buffer)
      else (SIZE_FD, Some (buf_write (the buffer) 0
              (mread m (padd (data_blocks (the bs)) (block_id * SIZE_FD)) SIZE_FD))))"

definition fd_table_write ::
    "block_store_t option \<Rightarrow> nat \<Rightarrow> byte list option \<Rightarrow> mem \<Rightarrow> nat \<times> mem" where
  "fd_table_write bs block_id buffer m =
     (if bs = None \<or> buffer = None \<or> block_id > NUM_FD then (0, m)
      else (SIZE_FD, mwrite m (padd (data_blocks (the bs)) (block_id * SIZE_FD))
                       (take SIZE_FD (the buffer))))"

definition fd_table_test :: "block_store_t option \<Rightarrow> nat \<Rightarrow> mem \<Rightarrow> bool" where
  "fd_table_test bs fd_id m =
     (if bs = None \<or> fd_id \<ge> NUM_FD then False else bitmap_test (bm_deref (fbm (the bs))) fd_id m)"

lemma fd_table_agrees:
  "fd_table_create ok m = block_store_fd_create ok m"
  "i < 256 \<Longrightarrow> fd_table_read bs i buf m = block_store_fd_read bs i buf m"
  "i < 256 \<Longrightarrow> fd_table_write bs i buf m = block_store_fd_write bs i buf m"
  "i < 256 \<Longrightarrow> fd_table_release bs i m = block_store_sub_release bs i m"
  "fd_table_test bs i m = block_store_sub_test bs i m"
  by (auto simp: fd_table_create_def block_store_fd_create_def fd_table_read_def block_store_fd_read_def
      fd_table_write_def block_store_fd_write_def fd_table_release_def block_store_sub_release_def
      fd_table_test_def block_store_sub_test_def split: option.splits)

section \<open>The cursor\<close>

text \<open>
  \<^verbatim>\<open>updateFD(fd, nbyte)\<close>: \<^verbatim>\<open>nbyte\<close> is a signed size, \<open>int\<close> here; the two fields are 16 bits
  wide and wrap on assignment, and \<^verbatim>\<open>/\<close> and \<^verbatim>\<open>%\<close> of C are only reached with a positive
  operand, where they are \<open>div\<close> and \<open>mod\<close>. \<^verbatim>\<open>blankSpace\<close> is a \<^verbatim>\<open>uint16_t\<close>.
\<close>

definition updateFD :: "fd_t \<Rightarrow> int \<Rightarrow> fd_t" where
  "updateFD f nbyte =
     (let blankSpace = (1024 - locate_offset f :: uint16_t) in
      if nbyte \<le> int (unat blankSpace) then
        (let f1 = f\<lparr>locate_offset := locate_offset f + of_int nbyte\<rparr> in
         if locate_offset f1 = 1024
         then f1\<lparr>locate_order := locate_order f1 + 1, locate_offset := 0\<rparr>
         else f1)
      else
        (let rest = nbyte - int (unat blankSpace) in
         f\<lparr>locate_order := locate_order f + 1 + of_int (rest div 1024),
           locate_offset := of_int (rest mod 1024)\<rparr>))"

text \<open>\<^verbatim>\<open>int\<close> parameters truncate to 32 bits, \<^verbatim>\<open>off_t\<close> arithmetic to 64.\<close>

definition as_int32 :: "int \<Rightarrow> int" where
  "as_int32 i = signed_take_bit 31 i"

definition as_int64 :: "int \<Rightarrow> int" where
  "as_int64 i = signed_take_bit 63 i"

definition cutBoundary :: "int \<Rightarrow> int \<Rightarrow> int" where
  "cutBoundary file_size offset =
     (if offset \<le> 0 then 0 else if offset > file_size then file_size else offset)"

definition getPreviosOffset :: "fd_t \<Rightarrow> int" where
  "getPreviosOffset f =
     (let location = int (unat (locate_order f)); offset = int (unat (locate_offset f)) in
      if location = 0 then offset
      else if offset \<noteq> 0 then (location - 1) * 1024 + offset
      else location * 1024)"

definition cursor_pos :: "fd_t \<Rightarrow> nat" where
  "cursor_pos f = unat (locate_order f) * 1024 + unat (locate_offset f)"

definition cursor_ok :: "fd_t \<Rightarrow> bool" where
  "cursor_ok f \<longleftrightarrow> unat (locate_offset f) < 1024"

lemma unat_of_nat_u16: "k < 65536 \<Longrightarrow> unat (of_nat k :: uint16_t) = k"
  by (simp add: unat_of_nat)

lemma unat_add_u16: "unat (a :: uint16_t) + unat b < 65536 \<Longrightarrow> unat (a + b) = unat a + unat b"
  by (simp add: unat_word_ariths)

lemma updateFD_advances:
  assumes ok: "cursor_ok f" and pos: "cursor_pos f + k < 2 ^ 26"
  shows "cursor_pos (updateFD f (int k)) = cursor_pos f + k" and "cursor_ok (updateFD f (int k))"
    and "inodeNum (updateFD f (int k)) = inodeNum f" and "usage (updateFD f (int k)) = usage f"
proof -
  define p where "p = unat (locate_offset f)"
  define q where "q = unat (locate_order f)"
  have p: "p < 1024" using ok by (simp add: cursor_ok_def p_def)
  have le: "locate_offset f \<le> 1024" using p by (simp add: word_le_nat_alt p_def)
  have blank: "unat (1024 - locate_offset f :: uint16_t) = 1024 - p"
    using le by (simp add: unat_sub p_def)
  have blank': "uint (1024 - locate_offset f :: uint16_t) = int (1024 - p)"
    using blank by (metis of_nat_unat)
  have qpk: "q * 1024 + p + k < 67108864" using pos by (simp add: cursor_pos_def p_def q_def)
  show "inodeNum (updateFD f (int k)) = inodeNum f" "usage (updateFD f (int k)) = usage f"
    by (simp_all add: updateFD_def Let_def)
  have "cursor_pos (updateFD f (int k)) = cursor_pos f + k \<and> cursor_ok (updateFD f (int k))"
  proof (cases "k \<le> 1024 - p")
    case True
    have le_int: "int k \<le> 1024 - int p" using True p by simp
    have off: "unat (locate_offset f + of_nat k) = p + k"
      using True p by (subst unat_add_u16) (simp_all add: unat_of_nat p_def)
    have eq: "locate_offset f + of_nat k = 1024 \<longleftrightarrow> p + k = 1024"
      unfolding word_unat_eq_iff off by simp
    show ?thesis
    proof (cases "p + k = 1024")
      case full: True
      then have "q + 1 < 65536" using qpk by simp
      then have "unat (locate_order f + 1) = q + 1" by (subst unat_add_u16) (simp_all add: q_def)
      with True full le_int show ?thesis
        by (simp add: updateFD_def Let_def blank' eq cursor_pos_def cursor_ok_def p_def [symmetric] q_def [symmetric])
    next
      case False
      with True p off le_int show ?thesis
        by (simp add: updateFD_def Let_def blank' eq cursor_pos_def cursor_ok_def p_def [symmetric] q_def [symmetric])
    qed
  next
    case False
    define r where "r = k - (1024 - p)"
    have k: "k = (1024 - p) + r" using False p by (simp add: r_def)
    then have rest: "int k - int (1024 - p) = int r" by simp
    have bound: "q + 1 + r div 1024 < 65536"
    proof -
      have "(q + 1 + r div 1024) * 1024 \<le> q * 1024 + 1024 + r" by simp
      also have "\<dots> < 65536 * 1024" using qpk k p by simp
      finally show ?thesis by simp
    qed
    have order: "unat (locate_order f + 1 + of_nat (r div 1024)) = q + 1 + r div 1024"
      using bound by (simp add: unat_word_ariths q_def unat_of_nat)
    have off: "unat (of_nat (r mod 1024) :: uint16_t) = r mod 1024"
      by (simp add: unat_of_nat order_less_trans [OF mod_less_divisor])
    have nle: "\<not> int k \<le> int (1024 - p)" using False by simp
    have conv: "of_int (int r div 1024) = (of_nat (r div 1024) :: uint16_t)"
      "of_int (int r mod 1024) = (of_nat (r mod 1024) :: uint16_t)"
      by (metis of_int_of_nat_eq of_nat_numeral zdiv_int, metis of_int_of_nat_eq of_nat_numeral zmod_int)
    have "updateFD f (int k) = f\<lparr>locate_order := locate_order f + 1 + of_nat (r div 1024),
        locate_offset := of_nat (r mod 1024)\<rparr>"
      unfolding updateFD_def Let_def blank rest conv by (rule if_not_P [OF nle])
    moreover have "r div 1024 * 1024 + r mod 1024 = r" by simp
    ultimately show ?thesis
      using order off k p by (simp add: cursor_pos_def cursor_ok_def p_def [symmetric] q_def [symmetric])
  qed
  then show "cursor_pos (updateFD f (int k)) = cursor_pos f + k" "cursor_ok (updateFD f (int k))" by simp_all
qed

lemma getPreviosOffset_pos:
  "getPreviosOffset f =
    int (cursor_pos f) - (if locate_order f \<noteq> 0 \<and> locate_offset f \<noteq> 0 then 1024 else 0)"
  by (auto simp: getPreviosOffset_def cursor_pos_def Let_def unat_eq_zero uint_0_iff algebra_simps)

lemma cutBoundary_clamp: "0 \<le> fsize \<Longrightarrow> cutBoundary fsize offset = max 0 (min fsize offset)"
  by (auto simp: cutBoundary_def)

end
