(* ===== verification/FS_Names.thy ===== *)
theory FS_Names
  imports Prelude
begin

text \<open>
  The names and paths of \<^verbatim>\<open>F19FS.c\<close>: \<^verbatim>\<open>isValidFileName\<close>, \<^verbatim>\<open>isValidPath\<close>,
  \<^verbatim>\<open>str_split\<close>, and what it uses of the C library (\<^verbatim>\<open>strtok\<close>, \<^verbatim>\<open>dirname\<close>,
  \<^verbatim>\<open>basename\<close>). The lemmas relate the two ways in which the code takes a path apart: the
  tokens of \<^verbatim>\<open>str_split\<close>, and \<^verbatim>\<open>dirname\<close> with \<^verbatim>\<open>basename\<close>.
\<close>

abbreviation slash :: byte where "slash \<equiv> 0x2F"
abbreviation FS_FNAME_MAX :: nat where "FS_FNAME_MAX \<equiv> 32"

section \<open>Valid names and paths\<close>

text \<open>The characters \<^verbatim>\<open>! @ # $ % ^ & * ?\<close> and the double quote.\<close>

definition invalidCharacters :: "byte list" where
  "invalidCharacters = [0x21, 0x40, 0x23, 0x24, 0x25, 0x5E, 0x26, 0x2A, 0x3F, 0x22]"

definition isValidFileName :: "cstring option \<Rightarrow> bool" where
  "isValidFileName filename = (case filename of
       None \<Rightarrow> False
     | Some s \<Rightarrow> if length s = 0 \<or> length s > 31 then False
                 else \<not> list_ex (\<lambda>c. c \<in> set s) invalidCharacters)"

definition isValidPath :: "cstring option \<Rightarrow> bool" where
  "isValidPath path = (case path of
       None \<Rightarrow> False
     | Some p \<Rightarrow> \<not> (p = [] \<or> hd p \<noteq> slash \<or> last p = slash))"

section \<open>Taking paths apart\<close>

text \<open>The successive results of \<^verbatim>\<open>strtok(s, delim)\<close>, \<^verbatim>\<open>strtok(NULL, delim)\<close>, \<dots> up to \<^verbatim>\<open>NULL\<close>.\<close>

function strtok_all :: "byte \<Rightarrow> cstring \<Rightarrow> cstring list" where
  "strtok_all delim s =
     (let s' = dropWhile (\<lambda>c. c = delim) s in
      if s' = [] then []
      else takeWhile (\<lambda>c. c \<noteq> delim) s' # strtok_all delim (dropWhile (\<lambda>c. c \<noteq> delim) s'))"
  by pat_completeness auto
termination
proof (relation "measure (\<lambda>(delim, s). length s)")
  fix delim :: byte and s s' :: cstring
  assume s': "s' = dropWhile (\<lambda>c. c = delim) s" and ne: "s' \<noteq> []"
  have "hd s' \<noteq> delim" using hd_dropWhile [of "\<lambda>c. c = delim" s] ne unfolding s' by blast
  then obtain c r where c: "s' = c # r" "c \<noteq> delim" using ne by (cases s') simp_all
  have "length (dropWhile (\<lambda>c. c \<noteq> delim) r) \<le> length r" by (rule length_dropWhile_le)
  moreover have "length s' \<le> length s" unfolding s' by (rule length_dropWhile_le)
  ultimately show "((delim, dropWhile (\<lambda>c. c \<noteq> delim) s'), delim, s) \<in> measure (\<lambda>(delim, s). length s)"
    using c by simp
qed (rule wf_measure)

declare strtok_all.simps [simp del]

text \<open>
  \<^verbatim>\<open>str_split\<close>: \<^verbatim>\<open>NULL\<close> (the inner \<open>None\<close>) unless the string starts with a slash; otherwise the
  tokens and the count, which is the number of delimiters: positions without a token keep the empty
  string that \<^verbatim>\<open>calloc\<close> left there. Each token is copied into 200 bytes of its own: a longer one
  overruns them, which is undefined behaviour (the outer \<open>None\<close>).
\<close>

definition str_split :: "cstring \<Rightarrow> byte \<Rightarrow> (cstring list \<times> nat) option option" where
  "str_split a_str a_delim =
     (if a_str = [] \<or> hd a_str \<noteq> slash then Some None
      else (let cnt = length (filter (\<lambda>c. c = a_delim) a_str);
                tokens = strtok_all a_delim a_str
            in if list_all (\<lambda>t. length t < 200) tokens
               then Some (Some (tokens @ replicate (cnt - length tokens) [], cnt)) else None))"

text \<open>The callers copy the path into a buffer of \<open>bytes\<close> bytes before they split it: both copies stay
  within their buffers.\<close>

definition path_safe :: "nat \<Rightarrow> cstring \<Rightarrow> bool" where
  "path_safe bytes path \<longleftrightarrow> length path < bytes \<and> str_split path slash \<noteq> None"

text \<open>
  \<^verbatim>\<open>dirname\<close> and \<^verbatim>\<open>basename\<close> as POSIX defines them on the paths that the code gives them:
  absolute and not ending in a slash.
\<close>

definition c_basename :: "cstring \<Rightarrow> cstring" where
  "c_basename path = rev (takeWhile (\<lambda>c. c \<noteq> slash) (rev path))"

definition c_dirname :: "cstring \<Rightarrow> cstring" where
  "c_dirname path =
     (let d = rev (dropWhile (\<lambda>c. c = slash) (dropWhile (\<lambda>c. c \<noteq> slash) (rev path)))
      in if d = [] then [slash] else d)"

section \<open>Lemmas\<close>

lemma strtok_all_delim [simp]: "strtok_all d (d # s) = strtok_all d s"
  by (simp add: strtok_all.simps [of d "d # s"] strtok_all.simps [of d s])

lemma strtok_all_Nil [simp]: "strtok_all d [] = []"
  by (simp add: strtok_all.simps)

lemma strtok_all_dropWhile: "strtok_all d (dropWhile (\<lambda>c. c = d) s) = strtok_all d s"
  by (induction s) (auto simp: strtok_all_delim)

lemma strtok_all_token:
  assumes "d \<notin> set t" and "t \<noteq> []"
  shows "strtok_all d (t @ d # s) = t # strtok_all d s" and "strtok_all d t = [t]"
proof -
  have skip: "dropWhile (\<lambda>c. c = d) (t @ u) = t @ u" for u using assms by (cases t) auto
  have split: "takeWhile (\<lambda>c. c \<noteq> d) (t @ d # s) = t" "dropWhile (\<lambda>c. c \<noteq> d) (t @ d # s) = d # s"
    "takeWhile (\<lambda>c. c \<noteq> d) t = t" "dropWhile (\<lambda>c. c \<noteq> d) t = []"
    using assms(1) by (induction t) auto
  have "strtok_all d (t @ d # s) = t # strtok_all d (d # s)"
    using assms(2) by (simp only: strtok_all.simps [of d "t @ d # s"] skip split Let_def) simp
  then show "strtok_all d (t @ d # s) = t # strtok_all d s" by simp
  have "strtok_all d t = t # strtok_all d []"
    using assms(2) skip [of "[]"]
    by (simp only: strtok_all.simps [of d t] append_Nil2 split Let_def if_False)
  then show "strtok_all d t = [t]" by simp
qed

lemma strtok_all_cases:
  obtains (delim) s' where "s = d # s'" | (last) "d \<notin> set s"
    | (token) t s' where "s = t @ d # s'" "t \<noteq> []" "d \<notin> set t"
  by (metis append_Nil split_list_first)

text \<open>A token followed by the delimiter can be split off at the right end as well.\<close>

lemma strtok_all_append: "strtok_all d (s @ d # u) = strtok_all d s @ strtok_all d u"
proof (induction "length s" arbitrary: s rule: less_induct)
  case less
  show ?case
  proof (cases s d rule: strtok_all_cases)
    case (delim s')
    with less show ?thesis by simp
  next
    case last
    then show ?thesis by (cases "s = []") (simp_all add: strtok_all_token)
  next
    case (token t s')
    then have "length s' < length s" by simp
    with token less show ?thesis by (simp add: strtok_all_token)
  qed
qed

lemma strtok_all_strip: "strtok_all d (s @ replicate n d) = strtok_all d s"
proof (induction n)
  case (Suc n)
  have "strtok_all d (s @ replicate (Suc n) d) = strtok_all d ((s @ replicate n d) @ [d])"
    by (simp add: replicate_append_same)
  also have "\<dots> = strtok_all d (s @ replicate n d)"
    using strtok_all_append [of d "s @ replicate n d" "[]"] by simp
  finally show ?case using Suc by simp
qed simp

lemma tokens_nonempty: "t \<in> set (strtok_all d s) \<Longrightarrow> t \<noteq> [] \<and> d \<notin> set t"
proof (induction d s rule: strtok_all.induct)
  case (1 d s)
  let ?s = "dropWhile (\<lambda>c. c = d) s"
  show ?case
  proof (cases "?s = []")
    case True
    with 1(2) show ?thesis by (simp add: strtok_all.simps [of d s])
  next
    case False
    then have "hd ?s \<noteq> d" by (rule hd_dropWhile)
    with False have tk: "takeWhile (\<lambda>c. c \<noteq> d) ?s \<noteq> []" by (cases ?s) auto
    have "strtok_all d s = takeWhile (\<lambda>c. c \<noteq> d) ?s # strtok_all d (dropWhile (\<lambda>c. c \<noteq> d) ?s)"
      by (subst strtok_all.simps) (simp only: Let_def False if_False)
    then consider "t = takeWhile (\<lambda>c. c \<noteq> d) ?s" | "t \<in> set (strtok_all d (dropWhile (\<lambda>c. c \<noteq> d) ?s))"
      using 1(2) by auto
    then show ?thesis
    proof cases
      case 1
      then show ?thesis using tk by (auto dest: set_takeWhileD)
    next
      case 2
      then show ?thesis using "1.IH" [OF refl False] by blast
    qed
  qed
qed

lemma path_split:
  assumes "isValidPath (Some p)"
  obtains k where "p = c_dirname p @ replicate k slash @ c_basename p \<and> 0 < k \<or>
      c_dirname p = [slash] \<and> p = replicate k slash @ c_basename p \<and> 0 < k"
    and "c_basename p \<noteq> []" and "slash \<notin> set (c_basename p)"
proof -
  let ?r = "dropWhile (\<lambda>c. c \<noteq> slash) (rev p)"
  let ?s = "takeWhile (\<lambda>c. c = slash) ?r"
  have p: "p \<noteq> []" "hd p = slash" "last p \<noteq> slash" using assms by (simp_all add: isValidPath_def)
  then have "slash \<in> set (rev p)" by (metis hd_in_set set_rev)
  then have r: "?r \<noteq> []" by (auto simp: dropWhile_eq_Nil_conv)
  then have "hd ?r = slash" by (metis (mono_tags, lifting) hd_dropWhile)
  with r have s: "?s \<noteq> []" by (cases ?r) auto
  define k where "k = length ?s"
  have "\<forall>c \<in> set ?s. c = slash" by (auto dest: set_takeWhileD)
  then have "?s = replicate k slash" unfolding k_def by (metis replicate_length_same)
  then have rev_p: "rev p = takeWhile (\<lambda>c. c \<noteq> slash) (rev p) @ replicate k slash @ dropWhile (\<lambda>c. c = slash) ?r"
    by (metis takeWhile_dropWhile_id)
  have "p = rev (rev p)" by simp
  also have "\<dots> = rev (dropWhile (\<lambda>c. c = slash) ?r) @ replicate k slash @ c_basename p"
    by (subst rev_p) (simp add: c_basename_def)
  finally have eq: "p = rev (dropWhile (\<lambda>c. c = slash) ?r) @ replicate k slash @ c_basename p" .
  have "0 < k" using s by (simp add: k_def)
  moreover have "c_basename p \<noteq> []"
    using p by (cases "rev p") (auto simp: c_basename_def last_rev hd_rev simp flip: hd_rev)
  moreover have "slash \<notin> set (c_basename p)" by (auto simp: c_basename_def dest: set_takeWhileD)
  moreover have "c_dirname p = (if rev (dropWhile (\<lambda>c. c = slash) ?r) = [] then [slash]
      else rev (dropWhile (\<lambda>c. c = slash) ?r))"
    by (simp only: c_dirname_def Let_def)
  ultimately show ?thesis
    using that [of k] eq by (cases "rev (dropWhile (\<lambda>c. c = slash) ?r) = []") (simp_all del: rev_is_Nil_conv)
qed

text \<open>On a valid path the tokens of the directory part, then the base name, are the tokens of
  the whole.\<close>

lemma tokens_dirname_basename:
  assumes "isValidPath (Some p)"
  shows "strtok_all slash p = strtok_all slash (c_dirname p) @ [c_basename p]"
proof -
  obtain k where k: "p = c_dirname p @ replicate k slash @ c_basename p \<and> 0 < k \<or>
      c_dirname p = [slash] \<and> p = replicate k slash @ c_basename p \<and> 0 < k"
    and b: "c_basename p \<noteq> []" "slash \<notin> set (c_basename p)"
    using path_split [OF assms] by blast
  obtain n where n: "k = Suc n" using k by (cases k) auto
  have shape: "replicate k slash @ c_basename p = replicate n slash @ slash # c_basename p"
    by (simp add: n replicate_app_Cons_same)
  have "strtok_all slash (u @ replicate k slash @ c_basename p) = strtok_all slash u @ [c_basename p]" for u
    unfolding shape using strtok_all_append [of slash "u @ replicate n slash" "c_basename p"] b
    by (simp add: strtok_all_strip strtok_all_token)
  from this [of "c_dirname p"] this [of "[]"] k show ?thesis by auto
qed

lemma tokens_subset: "t \<in> set (strtok_all d s) \<Longrightarrow> set t \<subseteq> set s"
proof (induction d s rule: strtok_all.induct)
  case (1 d s)
  let ?s = "dropWhile (\<lambda>c. c = d) s"
  have sub: "set ?s \<subseteq> set s" by (auto dest: set_dropWhileD)
  show ?case
  proof (cases "?s = []")
    case True
    with 1(2) show ?thesis by (simp add: strtok_all.simps [of d s])
  next
    case False
    have "strtok_all d s = takeWhile (\<lambda>c. c \<noteq> d) ?s # strtok_all d (dropWhile (\<lambda>c. c \<noteq> d) ?s)"
      by (subst strtok_all.simps) (simp only: Let_def False if_False)
    then consider "t = takeWhile (\<lambda>c. c \<noteq> d) ?s" | "t \<in> set (strtok_all d (dropWhile (\<lambda>c. c \<noteq> d) ?s))"
      using 1(2) by auto
    then show ?thesis
    proof cases
      case 1
      then show ?thesis using sub by (auto dest: set_takeWhileD)
    next
      case 2
      then have "set t \<subseteq> set (dropWhile (\<lambda>c. c \<noteq> d) ?s)" using "1.IH" [OF refl False] by blast
      then show ?thesis using sub by (auto dest: set_dropWhileD)
    qed
  qed
qed

lemma strtok_all_length:
  "length (strtok_all d s) \<le> length (filter (\<lambda>c. c = d) s) + (if s = [] \<or> hd s = d then 0 else 1)"
proof (induction "length s" arbitrary: s rule: less_induct)
  case less
  show ?case
  proof (cases s d rule: strtok_all_cases)
    case (delim s')
    with less [of s'] show ?thesis by (auto split: if_splits)
  next
    case last
    then show ?thesis by (cases s) (simp_all add: strtok_all_token)
  next
    case (token t s')
    with less [of s'] have "length (strtok_all d s') \<le> length (filter (\<lambda>c. c = d) s') + 1"
      by (auto split: if_splits)
    moreover have "hd s \<noteq> d" "s \<noteq> []" using token by (cases t; auto)+
    ultimately show ?thesis using token by (simp add: strtok_all_token)
  qed
qed

lemma strtok_token_length: "t \<in> set (strtok_all d s) \<Longrightarrow> length t \<le> length s"
proof (induction "length s" arbitrary: s rule: less_induct)
  case less
  show ?case
  proof (cases s d rule: strtok_all_cases)
    case (delim s')
    with less show ?thesis by (auto simp: le_SucI)
  next
    case last
    with less.prems show ?thesis by (cases "s = []") (simp_all add: strtok_all_token)
  next
    case (token u s')
    with less.prems less.hyps [of s'] show ?thesis by (auto simp: strtok_all_token)
  qed
qed

lemma path_safe_200: "path_safe 200 path \<longleftrightarrow> length path < 200"
  using strtok_token_length [of _ slash path]
  by (fastforce simp: path_safe_def str_split_def Let_def list_all_iff)

lemma str_split_length:
  "str_split s d = Some (Some (tokens, cnt)) \<Longrightarrow> d = slash \<Longrightarrow> length tokens = cnt \<and> 0 < cnt"
  using strtok_all_length [of d s]
  by (auto simp: str_split_def Let_def filter_empty_conv split: if_splits)

end
