(* ===== verification/FS_Dir.thy ===== *)
theory FS_Dir
  imports Inode_Table File_Descriptor FS_Names
begin

text \<open>
  The mounted file system of \<^verbatim>\<open>F19FS.c\<close> (\<^verbatim>\<open>struct F19FS\<close>), its directories (\<^verbatim>\<open>struct directoryFile\<close>, the bit map \<^verbatim>\<open>vacantFile\<close>), and the
  helper functions that look names up. The lemmas give a directory its meaning as a list of
  slots, each vacant or holding a name and an inode id, and the lookups theirs as searches in it.
\<close>

unbundle bit_operations_syntax

record F19FS_t =
  BlockStore_whole :: "block_store_t option"
  BlockStore_inode :: "block_store_t option"
  BlockStore_fd :: "block_store_t option"

text \<open>\<^verbatim>\<open>file_t\<close>; a C caller may pass a value that is neither.\<close>

datatype file_t = FS_REGULAR | FS_DIRECTORY | Other_type

abbreviation NUM_OF_ENTRIES :: nat where "NUM_OF_ENTRIES \<equiv> 31"
abbreviation SIZE_OF_ENTRY_BYTE :: nat where "SIZE_OF_ENTRY_BYTE \<equiv> 33"

section \<open>Directory blocks\<close>

text \<open>
  A directory block is an array of 31 entries of 33 bytes: a name of 32 characters and the inode
  number. \<open>entry_filename\<close> is the pointer the code passes to the string functions: the bytes from
  the name on.
\<close>

definition entry_filename :: "byte list \<Rightarrow> nat \<Rightarrow> byte list" where
  "entry_filename blk j = drop (SIZE_OF_ENTRY_BYTE * j) blk"

definition entry_inode :: "byte list \<Rightarrow> nat \<Rightarrow> uint8_t" where
  "entry_inode blk j = blk ! (SIZE_OF_ENTRY_BYTE * j + FS_FNAME_MAX)"

text \<open>\<^verbatim>\<open>strcpy\<close> into the name of an entry, any other store into it, and the inode number.\<close>

definition set_entry_filename :: "byte list \<Rightarrow> nat \<Rightarrow> byte list \<Rightarrow> byte list" where
  "set_entry_filename blk j bs = buf_write blk (SIZE_OF_ENTRY_BYTE * j) bs"

definition set_entry_inode :: "byte list \<Rightarrow> nat \<Rightarrow> uint8_t \<Rightarrow> byte list" where
  "set_entry_inode blk j i = buf_write blk (SIZE_OF_ENTRY_BYTE * j + FS_FNAME_MAX) [i]"

definition c_strcpy_bytes :: "cstring \<Rightarrow> byte list" where
  "c_strcpy_bytes s = s @ [0]"

definition init_db :: "byte list" where
  "init_db = fold (\<lambda>i current. set_entry_filename (set_entry_inode current i 0) i (replicate FS_FNAME_MAX 0))
     [0..<NUM_OF_ENTRIES] (replicate BLOCK_SIZE_BYTES 0)"

section \<open>The bit map of the entries\<close>

text \<open>
  Some functions lay a \<^verbatim>\<open>bitmap_t\<close> over the field \<^verbatim>\<open>vacantFile\<close> of a local inode; the others
  shift the integer. \<open>vacant_mem v\<close> is the memory that holds the local field.
\<close>

definition vacant_bm :: "bitmap_t option" where
  "vacant_bm = bitmap_overlay NUM_OF_ENTRIES (Local, 0) True"

definition vacant_mem :: "uint32_t \<Rightarrow> mem" where
  "vacant_mem v = mwrite (\<lambda>_ _. 0) (Local, 0) (le 4 v)"

definition vacant_of :: "mem \<Rightarrow> uint32_t" where
  "vacant_of m = unle (mread m (Local, 0) 4)"

definition vacant_test :: "uint32_t \<Rightarrow> nat \<Rightarrow> bool" where
  "vacant_test v i = bitmap_test (bm_deref vacant_bm) i (vacant_mem v)"

definition vacant_set :: "uint32_t \<Rightarrow> nat \<Rightarrow> uint32_t" where
  "vacant_set v i = vacant_of (bitmap_set (bm_deref vacant_bm) i (vacant_mem v))"

definition vacant_reset :: "uint32_t \<Rightarrow> nat \<Rightarrow> uint32_t" where
  "vacant_reset v i = vacant_of (bitmap_reset (bm_deref vacant_bm) i (vacant_mem v))"

definition vacant_ffz :: "uint32_t \<Rightarrow> nat" where
  "vacant_ffz v = bitmap_ffz vacant_bm (vacant_mem v)"

definition vacant_total_set :: "uint32_t \<Rightarrow> nat" where
  "vacant_total_set v = bitmap_total_set vacant_bm (vacant_mem v)"

text \<open>\<^verbatim>\<open>((vacantFile >> j) & 1) == 1\<close>.\<close>

definition vacant_shift_test :: "uint32_t \<Rightarrow> nat \<Rightarrow> bool" where
  "vacant_shift_test v j \<longleftrightarrow> drop_bit j v AND 1 = 1"

text \<open>The loop of \<^verbatim>\<open>fs_create\<close> for the first vacant entry, \<^verbatim>\<open>folder_number_entries\<close> when there is none.\<close>

function vacant_loop :: "uint32_t \<Rightarrow> nat \<Rightarrow> nat" where
  "vacant_loop v k =
     (if k < NUM_OF_ENTRIES then if drop_bit k v AND 1 = 0 then k else vacant_loop v (Suc k) else k)"
  by pat_completeness auto
termination by (relation "measure (\<lambda>(v, k). NUM_OF_ENTRIES - k)") auto

declare vacant_loop.simps [simp del]

section \<open>Reading a directory\<close>

definition zero_block :: "byte list" where
  "zero_block = replicate BLOCK_SIZE_BYTES 0"

text \<open>
  \<^verbatim>\<open>block_store_read\<close> into a block buffer and \<^verbatim>\<open>block_store_write\<close> from one. Local structs that
  C leaves uninitialised are passed as zero where a successful read overwrites them before any
  use.
\<close>

definition read_block :: "F19FS_t \<Rightarrow> nat \<Rightarrow> byte list \<Rightarrow> mem \<Rightarrow> nat \<times> byte list" where
  "read_block fs i buf m = (let (r, b) = block_store_read (BlockStore_whole fs) i (Some buf) m in (r, the b))"

definition write_block :: "F19FS_t \<Rightarrow> nat \<Rightarrow> byte list \<Rightarrow> mem \<Rightarrow> nat \<times> mem" where
  "write_block fs i buf m = block_store_write (BlockStore_whole fs) i (Some buf) m"

abbreviation direct0 :: "inode_t \<Rightarrow> nat" where
  "direct0 ino \<equiv> unat (directPointer ino ! 0)"

text \<open>\<^verbatim>\<open>getParentDirInodeID\<close>: the loop over the entries of one directory, then the loop over the
  tokens of the path.\<close>

definition max_strlen :: "byte list \<Rightarrow> byte list \<Rightarrow> nat" where
  "max_strlen a b = (if c_strlen a \<ge> c_strlen b then c_strlen a else c_strlen b)"

definition same_name :: "byte list \<Rightarrow> cstring \<Rightarrow> bool" where
  "same_name filename s \<longleftrightarrow> c_strncmp filename s (max_strlen filename s) = 0"

definition parent_entries ::
    "F19FS_t \<Rightarrow> mem \<Rightarrow> inode_t \<Rightarrow> byte list \<Rightarrow> cstring \<Rightarrow> nat \<Rightarrow> nat \<times> bool" where
  "parent_entries fs m cur_dir_inode cur_dir_block currentDir cur_inode_ID =
     fold (\<lambda>i (cur, isFound).
         if vacant_test (vacantFile cur_dir_inode) i \<and> same_name (entry_filename cur_dir_block i) currentDir
         then (let (r, next_inode) = read_inode (BlockStore_inode fs) (unat (entry_inode cur_dir_block i)) zero_inode m
               in if r \<noteq> 0 \<and> fileType next_inode = ch_d then (unat (inodeNumber next_inode), True)
                  else (cur, isFound))
         else (cur, isFound))
       [0..<NUM_OF_ENTRIES] (cur_inode_ID, False)"

fun parent_walk :: "F19FS_t \<Rightarrow> mem \<Rightarrow> cstring list \<Rightarrow> nat \<Rightarrow> nat" where
  "parent_walk fs m [] cur_inode_ID = cur_inode_ID"
| "parent_walk fs m (currentDir # rest) cur_inode_ID =
     (let (r, cur_dir_inode) = read_inode (BlockStore_inode fs) cur_inode_ID zero_inode m in
      if r = 0 then SIZE_MAX
      else if fileType cur_dir_inode = ch_r then SIZE_MAX
      else
        (let (r2, cur_dir_block) = read_block fs (direct0 cur_dir_inode) zero_block m in
         if r2 = 0 then SIZE_MAX
         else
           (let (cur, isFound) = parent_entries fs m cur_dir_inode cur_dir_block currentDir cur_inode_ID in
            if \<not> isFound then SIZE_MAX else parent_walk fs m rest cur)))"

definition getParentDirInodeID :: "F19FS_t \<Rightarrow> cstring \<Rightarrow> mem \<Rightarrow> nat" where
  "getParentDirInodeID fs parentPath m = parent_walk fs m (strtok_all slash parentPath) 0"

text \<open>The first entry whose name is exactly \<open>fileName\<close>; the common loop of \<^verbatim>\<open>checkFileExist\<close> and
  \<^verbatim>\<open>getFileInodeID\<close>.\<close>

definition find_entry :: "uint32_t \<Rightarrow> byte list \<Rightarrow> cstring \<Rightarrow> nat option" where
  "find_entry v blk fileName =
     find (\<lambda>i. vacant_test v i \<and> same_name (entry_filename blk i) fileName) [0..<NUM_OF_ENTRIES]"

definition read_dir :: "F19FS_t \<Rightarrow> nat \<Rightarrow> mem \<Rightarrow> (inode_t \<times> byte list) option" where
  "read_dir fs dirInodeID m =
     (let (r, ino) = read_inode (BlockStore_inode fs) dirInodeID zero_inode m in
      if r = 0 then None
      else (let (r2, blk) = read_block fs (direct0 ino) zero_block m in
            if r2 = 0 then None else Some (ino, blk)))"

definition checkFileExist :: "F19FS_t \<Rightarrow> nat \<Rightarrow> cstring \<Rightarrow> mem \<Rightarrow> bool" where
  "checkFileExist fs parentDirInodeID fileName m = (case read_dir fs parentDirInodeID m of
       None \<Rightarrow> False
     | Some (ino, blk) \<Rightarrow> (case find_entry (vacantFile ino) blk fileName of None \<Rightarrow> False | Some _ \<Rightarrow> True))"

definition getFileInodeID :: "F19FS_t \<Rightarrow> nat \<Rightarrow> cstring \<Rightarrow> mem \<Rightarrow> nat" where
  "getFileInodeID fs parentDirInodeID fileName m = (case read_dir fs parentDirInodeID m of
       None \<Rightarrow> 0
     | Some (ino, blk) \<Rightarrow>
         (case find_entry (vacantFile ino) blk fileName of None \<Rightarrow> 0 | Some i \<Rightarrow> unat (entry_inode blk i)))"

text \<open>\<^verbatim>\<open>getFileIndexInDir\<close> compares only as many characters as \<open>fileName\<close> has.\<close>

definition getFileIndexInDir :: "inode_t \<Rightarrow> byte list \<Rightarrow> cstring \<Rightarrow> int" where
  "getFileIndexInDir parentDirInode parentDir fileName =
     (case find (\<lambda>i. vacant_test (vacantFile parentDirInode) i \<and>
                     c_strncmp (entry_filename parentDir i) fileName (c_strlen fileName) = 0)
            [0..<NUM_OF_ENTRIES] of
        Some i \<Rightarrow> int i | None \<Rightarrow> -1)"

definition isDirectoryEmpty :: "inode_t \<Rightarrow> bool" where
  "isDirectoryEmpty directoryInode \<longleftrightarrow> \<not> (vacant_total_set (vacantFile directoryInode) \<noteq> 0)"

section \<open>The walk along a path of \<^verbatim>\<open>fs_create\<close>, \<^verbatim>\<open>fs_open\<close> and \<^verbatim>\<open>fs_get_dir\<close>\<close>

text \<open>
  The three functions contain the same loop: for each name, look it up in the current directory
  (if it is one), follow every match, and count the matches. \<open>walk_parent_inode\<close> and
  \<open>walk_parent_data\<close> are the two buffers, which keep their content between iterations.
\<close>

record walk_state =
  walk_inode_ID :: nat
  walk_indicator :: nat
  walk_parent_inode :: inode_t
  walk_parent_data :: "byte list"

definition walk_entries :: "inode_t \<Rightarrow> byte list \<Rightarrow> cstring \<Rightarrow> nat \<times> nat \<Rightarrow> nat \<times> nat" where
  "walk_entries parent_inode parent_data name st =
     fold (\<lambda>j (i, indicator).
         if vacant_shift_test (vacantFile parent_inode) j \<and> c_strcmp (entry_filename parent_data j) name = 0
         then (unat (entry_inode parent_data j), indicator + 1) else (i, indicator))
       [0..<NUM_OF_ENTRIES] st"

definition walk_step :: "F19FS_t \<Rightarrow> mem \<Rightarrow> cstring \<Rightarrow> walk_state \<Rightarrow> walk_state" where
  "walk_step fs m name w =
     (let w1 = w\<lparr>walk_parent_inode :=
                   snd (read_inode (BlockStore_inode fs) (walk_inode_ID w) (walk_parent_inode w) m)\<rparr> in
      if fileType (walk_parent_inode w1) = ch_d then
        (let w2 = w1\<lparr>walk_parent_data :=
                       snd (read_block fs (direct0 (walk_parent_inode w1)) (walk_parent_data w1) m)\<rparr>;
             (i, indicator) = walk_entries (walk_parent_inode w2) (walk_parent_data w2) name
                                (walk_inode_ID w2, walk_indicator w2)
         in w2\<lparr>walk_inode_ID := i, walk_indicator := indicator\<rparr>)
      else w1)"

definition walk_start :: walk_state where
  "walk_start = \<lparr>walk_inode_ID = 0, walk_indicator = 0, walk_parent_inode = zero_inode,
                 walk_parent_data = zero_block\<rparr>"

definition walk :: "F19FS_t \<Rightarrow> mem \<Rightarrow> cstring list \<Rightarrow> walk_state" where
  "walk fs m names = fold (walk_step fs m) names walk_start"

section \<open>The bit map of the entries is the bits of the integer\<close>

lemma vacant_bm_struct [simp]: "vacant_bm = Some (bitmap_struct 31 FLAG_OVERLAY (Local, 0))"
  by (simp add: vacant_bm_def bitmap_overlay_struct)

lemma vacant_mem_test:
  assumes "i < 32"
  shows "bitmap_test (bitmap_struct 31 FLAG_OVERLAY (Local, 0)) i m \<longleftrightarrow> bit (vacant_of m) i"
proof -
  have "i div 8 < 4" using assms by auto
  with assms show ?thesis
    by (simp add: bitmap_test_bit vacant_of_def bit_unle byte_at_def bitmap_byte_def)
qed

lemma vacant_of_mem [simp]: "vacant_of (vacant_mem v) = v"
  by (simp add: vacant_of_def vacant_mem_def u32.load_store)

lemma vacant_test_bit: "i < 32 \<Longrightarrow> vacant_test v i \<longleftrightarrow> bit v i"
  by (simp add: vacant_test_def vacant_mem_test)

lemma bit_vacant_set: "i < 32 \<Longrightarrow> j < 32 \<Longrightarrow> bit (vacant_set v i) j \<longleftrightarrow> j = i \<or> bit v j"
  using vacant_mem_test [of j "bitmap_set (bitmap_struct 31 FLAG_OVERLAY (Local, 0)) i (vacant_mem v)"]
  by (simp add: vacant_set_def bitmap_test_set vacant_mem_test)

lemma bit_vacant_reset: "i < 32 \<Longrightarrow> j < 32 \<Longrightarrow> bit (vacant_reset v i) j \<longleftrightarrow> j \<noteq> i \<and> bit v j"
  using vacant_mem_test [of j "bitmap_reset (bitmap_struct 31 FLAG_OVERLAY (Local, 0)) i (vacant_mem v)"]
  by (simp add: vacant_reset_def bitmap_test_reset vacant_mem_test)

lemma vacant_set_or: "i < 32 \<Longrightarrow> vacant_set v i = v OR push_bit i 1"
  by (rule bit_word_eqI) (auto simp: bit_vacant_set bit_simps)

lemma bit_or_push: "j < 32 \<Longrightarrow> bit (v OR push_bit k 1 :: uint32_t) j \<longleftrightarrow> j = k \<or> bit v j"
  by (auto simp: bit_simps)

lemma vacant_shift_test_bit: "vacant_shift_test v j \<longleftrightarrow> bit v j"
  by (simp add: vacant_shift_test_def and_one_eq bit_iff_odd_drop_bit odd_iff_mod_2_eq_one)

lemma drop_bit_and_one_eq_0: "drop_bit k (v :: uint32_t) AND 1 = 0 \<longleftrightarrow> \<not> bit v k"
  by (simp add: and_one_eq bit_iff_odd_drop_bit even_iff_mod_2_eq_zero)

lemma vacant_loop_spec:
  "k \<le> 31 \<Longrightarrow> k \<le> vacant_loop v k \<and> vacant_loop v k \<le> 31 \<and> (\<forall>j. k \<le> j \<and> j < vacant_loop v k \<longrightarrow> bit v j) \<and>
    (vacant_loop v k < 31 \<longrightarrow> \<not> bit v (vacant_loop v k))"
proof (induction v k rule: vacant_loop.induct)
  case (1 v k)
  show ?case
  proof (cases "k < 31 \<and> bit v k")
    case True
    then have eq: "vacant_loop v k = vacant_loop v (Suc k)"
      by (subst vacant_loop.simps) (simp add: drop_bit_and_one_eq_0)
    have "Suc k \<le> vacant_loop v (Suc k) \<and> vacant_loop v (Suc k) \<le> 31 \<and>
        (\<forall>j. Suc k \<le> j \<and> j < vacant_loop v (Suc k) \<longrightarrow> bit v j) \<and>
        (vacant_loop v (Suc k) < 31 \<longrightarrow> \<not> bit v (vacant_loop v (Suc k)))"
      using 1 True by (simp add: drop_bit_and_one_eq_0)
    then show ?thesis unfolding eq using True by (metis Suc_leD Suc_leI le_neq_implies_less)
  next
    case False
    with 1(2) have "vacant_loop v k = k" by (subst vacant_loop.simps) (auto simp: drop_bit_and_one_eq_0)
    with False 1(2) show ?thesis by auto
  qed
qed

interpretation vac: bitset "bitmap_test (bitmap_struct 31 FLAG_OVERLAY (Local, 0))"
    "bitmap_set (bitmap_struct 31 FLAG_OVERLAY (Local, 0))" "bitmap_reset (bitmap_struct 31 FLAG_OVERLAY (Local, 0))"
    "bitmap_ffz vacant_bm" "bitmap_total_set vacant_bm" 31
  unfolding vacant_bm_struct by (rule bits.bitset_axioms)

lemma vacant_ffz_found:
  assumes "vacant_ffz v \<noteq> SIZE_MAX"
  shows "vacant_ffz v < 31 \<and> \<not> bit v (vacant_ffz v) \<and> (\<forall>j < vacant_ffz v. bit v j)"
  using vac.ffz_found [of "vacant_mem v"] assms unfolding vacant_ffz_def
  by (auto simp: vacant_mem_test simp del: vacant_bm_struct)

lemma vacant_total_card: "vacant_total_set v = card {j. j < 31 \<and> bit v j}"
proof -
  have "{j. j < 31 \<and> bitmap_test (bitmap_struct 31 FLAG_OVERLAY (Local, 0)) j (vacant_mem v)} = {j. j < 31 \<and> bit v j}"
    by (auto simp: vacant_mem_test)
  then show ?thesis unfolding vacant_total_set_def vac.total_card by (rule arg_cong)
qed

lemma vacant_total_full: "vacant_total_set v = 31 \<longleftrightarrow> (\<forall>j<31. bit v j)"
  using vac.total_eq_iff [of "vacant_mem v"] unfolding vacant_total_set_def
  by (simp add: vacant_mem_test del: vacant_bm_struct)

text \<open>The two ways of finding a vacant entry agree, on a directory that is not full.\<close>

lemma vacant_ffz_loop: "\<exists>j<31. \<not> bit v j \<Longrightarrow> vacant_ffz v = vacant_loop v 0"
proof -
  assume ex: "\<exists>j<31. \<not> bit v j"
  then have "vacant_total_set v \<noteq> 31" by (auto simp: vacant_total_full)
  then have "vacant_ffz v \<noteq> SIZE_MAX"
    using vac.ffz_max_iff [of "vacant_mem v"] by (simp add: vacant_ffz_def vacant_total_set_def del: vacant_bm_struct)
  then have f: "vacant_ffz v < 31" "\<not> bit v (vacant_ffz v)" "\<forall>j < vacant_ffz v. bit v j"
    using vacant_ffz_found by auto
  have l: "vacant_loop v 0 \<le> 31" "\<forall>j < vacant_loop v 0. bit v j" "vacant_loop v 0 < 31 \<longrightarrow> \<not> bit v (vacant_loop v 0)"
    using vacant_loop_spec [of 0 v] by auto
  from f l show ?thesis by (metis le_neq_implies_less linorder_neqE_nat)
qed

lemma isDirectoryEmpty_bits: "isDirectoryEmpty ino \<longleftrightarrow> (\<forall>j<31. \<not> bit (vacantFile ino) j)"
  by (auto simp: isDirectoryEmpty_def vacant_total_card card_eq_0_iff)

section \<open>Entries\<close>

definition entry_name :: "byte list \<Rightarrow> nat \<Rightarrow> cstring" where
  "entry_name blk j = cstr_at (entry_filename blk j)"

lemma same_name_iff: "0 \<notin> set s \<Longrightarrow> same_name (entry_filename blk j) s \<longleftrightarrow> entry_name blk j = s"
proof -
  assume s: "0 \<notin> set s"
  have "same_name (entry_filename blk j) s \<longleftrightarrow> cstr_at (entry_filename blk j) = cstr_at s"
    unfolding same_name_def max_strlen_def by (rule c_strncmp_full) auto
  then show ?thesis by (simp add: entry_name_def cstr_at_id s)
qed

lemma strcmp_name_iff: "0 \<notin> set s \<Longrightarrow> c_strcmp (entry_filename blk j) s = 0 \<longleftrightarrow> entry_name blk j = s"
  by (simp add: entry_name_def cstr_at_id)

lemma entry_name_local:
  assumes "length (entry_name blk j) < 32"
  shows "entry_name blk j = cstr_at (take 32 (drop (33 * j) blk))"
  using cstr_at_take [of "entry_filename blk j" 32] assms by (simp add: entry_name_def entry_filename_def)

lemma entry_name_eqI:
  assumes "length (entry_name blk j) < 32" and "take 32 (drop (33 * j) blk') = take 32 (drop (33 * j) blk)"
    and "33 * j + 32 \<le> length blk" and "33 * j + 32 \<le> length blk'"
  shows "entry_name blk' j = entry_name blk j"
proof -
  have n: "entry_name blk j = cstr_at (take 32 (drop (33 * j) blk'))"
    using entry_name_local [OF assms(1)] assms(2) by simp
  have len: "length (take 32 (drop (33 * j) blk')) = 32" using assms(4) by simp
  have "drop (33 * j) blk' = take 32 (drop (33 * j) blk') @ drop 32 (drop (33 * j) blk')"
    by (rule append_take_drop_id [symmetric])
  moreover have "cstr_at (take 32 (drop (33 * j) blk') @ u) = cstr_at (take 32 (drop (33 * j) blk'))" for u
  proof -
    have "\<exists>b \<in> set (take 32 (drop (33 * j) blk')). \<not> b \<noteq> 0"
    proof (rule ccontr)
      assume "\<not> ?thesis"
      then have "cstr_at (take 32 (drop (33 * j) blk')) = take 32 (drop (33 * j) blk')"
        by (auto simp: cstr_at_def takeWhile_eq_all_conv)
      with n len assms(1) show False by simp
    qed
    then show ?thesis unfolding cstr_at_def by (auto simp: takeWhile_append1)
  qed
  ultimately show ?thesis using n unfolding entry_name_def entry_filename_def by metis
qed

definition put_entry :: "byte list \<Rightarrow> nat \<Rightarrow> byte list \<Rightarrow> uint8_t \<Rightarrow> byte list" where
  "put_entry blk k bs i = set_entry_inode (set_entry_filename blk k bs) k i"

lemma put_entry_length [simp]:
  "length blk = 1024 \<Longrightarrow> k < 31 \<Longrightarrow> length bs \<le> 32 \<Longrightarrow> length (put_entry blk k bs i) = 1024"
  by (simp add: put_entry_def set_entry_inode_def set_entry_filename_def)

lemma entry_inode_put:
  assumes "length blk = 1024" "k < 31" "j < 31" "length bs \<le> 32"
  shows "entry_inode (put_entry blk k bs i) j = (if j = k then i else entry_inode blk j)"
proof -
  have "\<not> (33 * k \<le> 33 * j + 32 \<and> 33 * j + 32 < 33 * k + length bs)" using assms(4) by (cases "k \<le> j") auto
  with assms show ?thesis
    by (auto simp: put_entry_def set_entry_inode_def set_entry_filename_def entry_inode_def nth_buf_write)
qed

lemma entry_bytes_put_other:
  assumes "length blk = 1024" "k < 31" "j < 31" "length bs \<le> 32" "j \<noteq> k"
  shows "take 32 (drop (33 * j) (put_entry blk k bs i)) = take 32 (drop (33 * j) blk)"
proof -
  have "j < k \<or> k < j" using assms(5) by arith
  then show ?thesis using assms(1-4)
    unfolding put_entry_def set_entry_inode_def set_entry_filename_def
    by (elim disjE) (simp_all add: buf_write_disjoint)
qed

lemma entry_name_put_other:
  assumes "length blk = 1024" "k < 31" "j < 31" "length bs \<le> 32" "j \<noteq> k" "length (entry_name blk j) < 32"
  shows "entry_name (put_entry blk k bs i) j = entry_name blk j"
  using assms entry_bytes_put_other [OF assms(1-5), of i] by (intro entry_name_eqI) simp_all

lemma entry_name_put_same:
  assumes "length blk = 1024" "k < 31" "0 \<notin> set s" "length s + length u < 32"
  shows "entry_name (put_entry blk k (s @ 0 # u) i) k = s"
proof -
  let ?b = "set_entry_filename blk k (s @ 0 # u)"
  have len: "length ?b = 1024" using assms by (simp add: set_entry_filename_def)
  have d: "drop (33 * k) ?b = s @ 0 # u @ drop (33 * k + length (s @ 0 # u)) blk"
    using assms by (simp add: set_entry_filename_def buf_write_def)
  then have n: "entry_name ?b k = s" by (simp add: entry_name_def entry_filename_def cstr_at_append assms(3))
  have "take 32 (drop (33 * k) (put_entry blk k (s @ 0 # u) i)) = take 32 (drop (33 * k) ?b)"
    using len assms(2) unfolding put_entry_def set_entry_inode_def by (simp add: buf_write_disjoint)
  with entry_name_eqI [of ?b k "put_entry blk k (s @ 0 # u) i"] n len assms show ?thesis
    by (simp add: put_entry_def set_entry_inode_def)
qed

section \<open>The mounted file system\<close>

text \<open>What \<^verbatim>\<open>fs_format\<close> and \<^verbatim>\<open>fs_mount\<close> return when the image opens, \<open>h\<close> its descriptor.\<close>

definition the_fs :: "int \<Rightarrow> F19FS_t" where
  "the_fs h = \<lparr>BlockStore_whole = Some (whole_store h), BlockStore_inode = Some inode_store,
               BlockStore_fd = Some fd_store\<rparr>"

lemma the_fs_simps [simp]:
  "BlockStore_whole (the_fs h) = Some (whole_store h)" "BlockStore_inode (the_fs h) = Some inode_store"
  "BlockStore_fd (the_fs h) = Some fd_store"
  by (simp_all add: the_fs_def)

lemma length_zero_block [simp]: "length zero_block = 1024"
  by (simp add: zero_block_def)

lemma read_block_the_fs [simp]:
  "length buf = 1024 \<Longrightarrow> i \<le> 65528 \<Longrightarrow> read_block (the_fs h) i buf m = (1024, get_block m i)"
  by (simp add: read_block_def)

lemma read_block_fails: "65528 < i \<Longrightarrow> read_block (the_fs h) i buf m = (0, buf)"
  by (simp add: read_block_def block_store_read_def)

lemma length_read_block: "length buf = 1024 \<Longrightarrow> length (snd (read_block (the_fs h) i buf m)) = 1024"
  by (cases "i \<le> 65528") (simp_all add: read_block_fails)

lemma write_block_the_fs [simp]: "i \<le> 65528 \<Longrightarrow> write_block (the_fs h) i bs m = (1024, put_block i bs m)"
  by (simp add: write_block_def)

section \<open>Directories as name tables\<close>

definition is_dir :: "mem \<Rightarrow> nat \<Rightarrow> bool" where
  "is_dir m i \<longleftrightarrow> fileType (get_inode m i) = ch_d"

definition dir_used :: "mem \<Rightarrow> nat \<Rightarrow> nat \<Rightarrow> bool" where
  "dir_used m i j \<longleftrightarrow> j < 31 \<and> bit (vacantFile (get_inode m i)) j"

definition dir_block :: "mem \<Rightarrow> nat \<Rightarrow> byte list" where
  "dir_block m i = get_block m (direct0 (get_inode m i))"

definition lookup_in :: "uint32_t \<Rightarrow> byte list \<Rightarrow> cstring \<Rightarrow> nat option" where
  "lookup_in v blk name = map_option (\<lambda>j. unat (entry_inode blk j))
     (find (\<lambda>j. bit v j \<and> entry_name blk j = name) [0..<31])"

lemma lookup_in_0 [simp]: "lookup_in 0 blk n = None"
  by (simp add: lookup_in_def find_None_iff)

definition lookup :: "mem \<Rightarrow> nat \<Rightarrow> cstring \<Rightarrow> nat option" where
  "lookup m i name = lookup_in (vacantFile (get_inode m i)) (dir_block m i) name"

text \<open>The specification of path resolution: each name but the last one leads to a directory.\<close>

fun resolve :: "mem \<Rightarrow> nat \<Rightarrow> cstring list \<Rightarrow> nat option" where
  "resolve m i [] = Some i"
| "resolve m i (name # rest) =
     (if is_dir m i then (case lookup m i name of None \<Rightarrow> None | Some k \<Rightarrow> resolve m k rest) else None)"

text \<open>A directory is well formed when its block can be read, no two used entries have the same name
  and every name is terminated.\<close>

definition dir_ok :: "mem \<Rightarrow> nat \<Rightarrow> bool" where
  "dir_ok m i \<longleftrightarrow> direct0 (get_inode m i) \<le> 65528 \<and>
     (\<forall>j k. dir_used m i j \<and> dir_used m i k \<and> entry_name (dir_block m i) j = entry_name (dir_block m i) k \<longrightarrow> j = k) \<and>
     (\<forall>j. dir_used m i j \<longrightarrow> length (entry_name (dir_block m i) j) < 32)"

lemma dir_used_less: "dir_used m i j \<Longrightarrow> j < 31"
  by (simp add: dir_used_def)

lemma length_dir_block [simp]: "length (dir_block m i) = 1024"
  by (simp add: dir_block_def)

lemma find_cong_on: "(\<And>x. x \<in> set xs \<Longrightarrow> P x = Q x) \<Longrightarrow> find P xs = find Q xs"
  by (induction xs) auto

lemma find_entry_lookup:
  "0 \<notin> set s \<Longrightarrow> map_option (\<lambda>j. unat (entry_inode blk j)) (find_entry v blk s) = lookup_in v blk s"
  unfolding find_entry_def lookup_in_def
  by (rule arg_cong [where f = "map_option _"], rule find_cong_on) (auto simp: vacant_test_bit same_name_iff)

lemma lookup_inode_bound: "lookup m i name = Some k \<Longrightarrow> k < 256"
  using unsigned_less [of "entry_inode (dir_block m i) _", where 'a = nat]
  by (auto simp: lookup_def lookup_in_def)

lemma read_dir_the_fs:
  "i < 256 \<Longrightarrow> dir_ok m i \<Longrightarrow> read_dir (the_fs h) i m = Some (get_inode m i, dir_block m i)"
  by (simp add: read_dir_def dir_ok_def dir_block_def)

lemma checkFileExist_lookup:
  assumes "i < 256" and "dir_ok m i" and "0 \<notin> set s"
  shows "checkFileExist (the_fs h) i s m \<longleftrightarrow> lookup m i s \<noteq> None"
  unfolding lookup_def find_entry_lookup [OF assms(3), symmetric]
  using assms by (simp add: checkFileExist_def read_dir_the_fs split: option.splits)

lemma getFileInodeID_lookup:
  assumes "i < 256" and "dir_ok m i" and "0 \<notin> set s"
  shows "getFileInodeID (the_fs h) i s m = (case lookup m i s of None \<Rightarrow> 0 | Some k \<Rightarrow> k)"
  unfolding lookup_def find_entry_lookup [OF assms(3), symmetric]
  using assms by (simp add: getFileInodeID_def read_dir_the_fs split: option.splits)

text \<open>A fold in which at most one element matters is a search.\<close>

lemma fold_at_most_one:
  assumes "distinct xs" and "\<And>x y. x \<in> set xs \<Longrightarrow> y \<in> set xs \<Longrightarrow> P x \<Longrightarrow> P y \<Longrightarrow> x = y"
  shows "fold (\<lambda>x s. if P x then f x s else s) xs s = (case find P xs of None \<Rightarrow> s | Some x \<Rightarrow> f x s)"
  using assms
proof (induction xs arbitrary: s)
  case (Cons x xs)
  show ?case
  proof (cases "P x")
    case True
    then have "\<forall>y \<in> set xs. \<not> P y" using Cons.prems by auto
    then have "fold (\<lambda>x s. if P x then f x s else s) xs s' = s'" for s' by (induction xs) auto
    with True show ?thesis by simp
  next
    case False
    with Cons show ?thesis by simp
  qed
qed simp

lemma walk_entries_lookup:
  assumes ok: "dir_ok m d" and s: "0 \<notin> set name"
  shows "walk_entries (get_inode m d) (dir_block m d) name (i, indicator) =
    (case lookup m d name of None \<Rightarrow> (i, indicator) | Some k \<Rightarrow> (k, indicator + 1))"
proof -
  let ?P = "\<lambda>j. bit (vacantFile (get_inode m d)) j \<and> entry_name (dir_block m d) j = name"
  have "walk_entries (get_inode m d) (dir_block m d) name (i, indicator) =
      fold (\<lambda>j st. if ?P j then (unat (entry_inode (dir_block m d) j), snd st + 1) else st) [0..<31] (i, indicator)"
    unfolding walk_entries_def vacant_shift_test_bit strcmp_name_iff [OF s]
    by (rule fold_cong) (auto split: prod.splits)
  also have "\<dots> = (case find ?P [0..<31] of None \<Rightarrow> (i, indicator)
      | Some j \<Rightarrow> (unat (entry_inode (dir_block m d) j), indicator + 1))"
    by (subst fold_at_most_one) (use ok in \<open>auto simp: dir_ok_def dir_used_def split: option.splits\<close>)
  finally show ?thesis by (simp add: lookup_def lookup_in_def split: option.splits)
qed

definition walk_good :: "walk_state \<Rightarrow> bool" where
  "walk_good w \<longleftrightarrow> walk_inode_ID w < 256 \<and> inode_wf (walk_parent_inode w) \<and> length (walk_parent_data w) = 1024"

definition dirs_ok :: "mem \<Rightarrow> bool" where
  "dirs_ok m \<longleftrightarrow> (\<forall>i<256. is_dir m i \<longrightarrow> dir_ok m i)"

lemma walk_step_spec:
  assumes "walk_good w" and "dirs_ok m" and "0 \<notin> set name"
  shows "walk_good (walk_step (the_fs h) m name w) \<and>
    (walk_inode_ID (walk_step (the_fs h) m name w), walk_indicator (walk_step (the_fs h) m name w)) =
      (if is_dir m (walk_inode_ID w)
       then (case lookup m (walk_inode_ID w) name of
               None \<Rightarrow> (walk_inode_ID w, walk_indicator w) | Some k \<Rightarrow> (k, walk_indicator w + 1))
       else (walk_inode_ID w, walk_indicator w))"
proof -
  have id: "walk_inode_ID w < 256" "inode_wf (walk_parent_inode w)" "length (walk_parent_data w) = 1024"
    using assms(1) by (auto simp: walk_good_def)
  show ?thesis
  proof (cases "is_dir m (walk_inode_ID w)")
    case True
    then have ok: "dir_ok m (walk_inode_ID w)" using assms(2) id by (simp add: dirs_ok_def)
    then have rd: "direct0 (get_inode m (walk_inode_ID w)) \<le> 65528" by (simp add: dir_ok_def)
    from True id rd walk_entries_lookup [OF ok assms(3), of "walk_inode_ID w" "walk_indicator w"] show ?thesis
      by (auto simp: walk_step_def Let_def walk_good_def is_dir_def dir_block_def lookup_inode_bound
          split: option.splits)
  next
    case False
    with id show ?thesis by (simp add: walk_step_def Let_def walk_good_def is_dir_def)
  qed
qed

text \<open>The walk keeps going after a name it does not find; the count of matches tells whether it
  ever failed.\<close>

lemma walk_resolve_from:
  fixes h :: int
  assumes "walk_good w" and "dirs_ok m" and "\<forall>name \<in> set names. 0 \<notin> set name"
  defines "w' \<equiv> fold (walk_step (the_fs h) m) names w"
  shows "walk_good w' \<and> walk_indicator w' \<le> walk_indicator w + length names \<and>
    (case resolve m (walk_inode_ID w) names of
       None \<Rightarrow> walk_indicator w' < walk_indicator w + length names
     | Some k \<Rightarrow> walk_indicator w' = walk_indicator w + length names \<and> walk_inode_ID w' = k)"
  using assms(1,3) unfolding w'_def
proof (induction names arbitrary: w)
  case (Cons name names)
  let ?v = "walk_step (the_fs h) m name w"
  note st = walk_step_spec [OF Cons.prems(1) assms(2), of name h]
  have good: "walk_good ?v" using st Cons.prems by simp
  note IH = Cons.IH [OF good]
  show ?case
  proof (cases "is_dir m (walk_inode_ID w) \<and> lookup m (walk_inode_ID w) name \<noteq> None")
    case True
    then obtain k where k: "lookup m (walk_inode_ID w) name = Some k" by auto
    with True st Cons.prems have "walk_inode_ID ?v = k" "walk_indicator ?v = walk_indicator w + 1" by auto
    with True k IH Cons.prems show ?thesis by (auto split: option.splits)
  next
    case False
    with st Cons.prems have "walk_indicator ?v = walk_indicator w" by (auto split: option.splits)
    moreover have "resolve m (walk_inode_ID w) (name # names) = None" using False by auto
    ultimately show ?thesis using IH Cons.prems by (auto split: option.splits)
  qed
qed simp

lemma walk_good_start: "walk_good walk_start"
  by (simp add: walk_good_def walk_start_def)

lemma walk_resolve:
  assumes "dirs_ok m" and "\<forall>name \<in> set names. 0 \<notin> set name"
  shows "walk_indicator (walk (the_fs h) m names) = length names \<longleftrightarrow> resolve m 0 names \<noteq> None"
    and "resolve m 0 names = Some k \<Longrightarrow> walk_inode_ID (walk (the_fs h) m names) = k"
    and "walk_good (walk (the_fs h) m names)"
  using walk_resolve_from [OF walk_good_start assms, of h]
  by (auto simp: walk_def walk_start_def split: option.splits)

section \<open>\<^verbatim>\<open>getParentDirInodeID\<close> resolves a path of directories\<close>

definition ids_ok :: "mem \<Rightarrow> bool" where
  "ids_ok m \<longleftrightarrow> (\<forall>i<256. is_dir m i \<longrightarrow> inodeNumber (get_inode m i) = of_nat i)"

lemma ids_ok_number: "ids_ok m \<Longrightarrow> k < 256 \<Longrightarrow> is_dir m k \<Longrightarrow> unat (inodeNumber (get_inode m k)) = k"
  by (simp add: ids_ok_def unat_of_nat)

lemma parent_entries_lookup:
  assumes ok: "dir_ok m d" and ids: "ids_ok m" and s: "0 \<notin> set name"
  shows "parent_entries (the_fs h) m (get_inode m d) (dir_block m d) name i =
    (case lookup m d name of None \<Rightarrow> (i, False) | Some k \<Rightarrow> if is_dir m k then (k, True) else (i, False))"
proof -
  let ?P = "\<lambda>j. bit (vacantFile (get_inode m d)) j \<and> entry_name (dir_block m d) j = name"
  let ?k = "\<lambda>j. unat (entry_inode (dir_block m d) j)"
  have k: "?k j < 256" for j using unsigned_less [of "entry_inode (dir_block m d) j", where 'a = nat] by simp
  have num: "is_dir m (?k j) \<Longrightarrow> unat (inodeNumber (get_inode m (?k j))) = ?k j" for j
    using ids k [of j] by (intro ids_ok_number)
  have "parent_entries (the_fs h) m (get_inode m d) (dir_block m d) name i =
      fold (\<lambda>j st. if ?P j then (if is_dir m (?k j) then (?k j, True) else st) else st) [0..<31] (i, False)"
    unfolding parent_entries_def
    by (rule fold_cong)
      (auto simp: fun_eq_iff vacant_test_bit same_name_iff [OF s] k is_dir_def num [unfolded is_dir_def])
  also have "\<dots> = (case find ?P [0..<31] of None \<Rightarrow> (i, False)
      | Some j \<Rightarrow> if is_dir m (?k j) then (?k j, True) else (i, False))"
    by (subst fold_at_most_one) (use ok in \<open>auto simp: dir_ok_def dir_used_def split: option.splits\<close>)
  finally show ?thesis by (simp add: lookup_def lookup_in_def split: option.splits)
qed

lemma parent_walk_resolve:
  assumes "dirs_ok m" and "ids_ok m" and "\<forall>name \<in> set names. 0 \<notin> set name" and "i < 256" and "is_dir m i"
  shows "parent_walk (the_fs h) m names i =
    (case resolve m i names of None \<Rightarrow> SIZE_MAX | Some k \<Rightarrow> if is_dir m k then k else SIZE_MAX)"
  using assms(3-5)
proof (induction names arbitrary: i)
  case (Cons name names)
  have ok: "dir_ok m i" using assms(1) Cons.prems by (simp add: dirs_ok_def)
  then have rd: "direct0 (get_inode m i) \<le> 65528" by (simp add: dir_ok_def)
  have step: "parent_walk (the_fs h) m (name # names) i =
      (case lookup m i name of None \<Rightarrow> SIZE_MAX
       | Some k \<Rightarrow> if is_dir m k then parent_walk (the_fs h) m names k else SIZE_MAX)"
    using Cons.prems rd parent_entries_lookup [OF ok assms(2), of name h i]
    by (simp add: Let_def is_dir_def dir_block_def split: option.splits)
  show ?case
  proof (cases "lookup m i name")
    case None
    with step Cons.prems show ?thesis by simp
  next
    case (Some k)
    then have k: "k < 256" by (rule lookup_inode_bound)
    show ?thesis
    proof (cases "is_dir m k")
      case True
      with Some step Cons k show ?thesis by simp
    next
      case False
      then have "resolve m k names = None \<or> resolve m k names = Some k" by (cases names) auto
      with False Some step Cons.prems show ?thesis by auto
    qed
  qed
qed simp

lemma getParentDirInodeID_resolve:
  assumes "dirs_ok m" and "ids_ok m" and "is_dir m 0" and "0 \<notin> set path"
  shows "getParentDirInodeID (the_fs h) path m =
    (case resolve m 0 (strtok_all slash path) of None \<Rightarrow> SIZE_MAX | Some k \<Rightarrow> if is_dir m k then k else SIZE_MAX)"
proof -
  have "\<forall>name \<in> set (strtok_all slash path). 0 \<notin> set name"
    using assms(4) tokens_subset [of _ slash path] by blast
  with assms show ?thesis by (simp add: getParentDirInodeID_def parent_walk_resolve)
qed

section \<open>The descriptor table and the image do not overlap\<close>

lemma get_inode_fd [mem_simps]:
  "get_inode (bitmap_set fd_bm f m) i = get_inode m i" "get_inode (bitmap_reset fd_bm f m) i = get_inode m i"
  "get_inode (put_fd f d m) i = get_inode m i"
  by (simp_all add: get_inode_def put_fd_def bitmap_set_elsewhere bitmap_reset_elsewhere mread_mwrite_disjoint
      mem_disjoint_def)

lemma image_fd [mem_simps]:
  "bitmap_set fd_bm f m Image = m Image" "bitmap_reset fd_bm f m Image = m Image" "put_fd f d m Image = m Image"
  by (simp_all add: put_fd_def bitmap_set_def bitmap_reset_def bitmap_byte_def Let_def mwrite_def)

lemma fd_test_put_fd [bm_simps]: "bitmap_test fd_bm i (put_fd f d m) = bitmap_test fd_bm i m"
  by (simp add: put_fd_def bitmap_test_mwrite)

lemma get_fd_bits [mem_simps]:
  "get_fd (bitmap_set fd_bm f m) i = get_fd m i" "get_fd (bitmap_reset fd_bm f m) i = get_fd m i"
  by (simp_all add: get_fd_def bitmap_set_elsewhere bitmap_reset_elsewhere)

section \<open>The invariant\<close>

definition dir_blocks_ok :: "mem \<Rightarrow> bool" where
  "dir_blocks_ok m \<longleftrightarrow> (\<forall>i<256. is_dir m i \<and> vacantFile (get_inode m i) \<noteq> 0 \<longrightarrow>
     17 \<le> direct0 (get_inode m i) \<and> direct0 (get_inode m i) < 65528 \<and>
     bitmap_test whole_bm (direct0 (get_inode m i)) m \<and>
     (\<forall>k<256. is_dir m k \<and> vacantFile (get_inode m k) \<noteq> 0 \<and>
        direct0 (get_inode m k) = direct0 (get_inode m i) \<longrightarrow> k = i))"

definition fs_inv :: "mem \<Rightarrow> bool" where
  "fs_inv m \<longleftrightarrow> is_dir m 0 \<and> dirs_ok m \<and> ids_ok m \<and> dir_blocks_ok m \<and>
     (\<forall>b<17. bitmap_test whole_bm b m) \<and> (\<forall>i<256. is_dir m i \<longrightarrow> bitmap_test inode_bm i m)"

text \<open>Entries are filled from the front: what \<^verbatim>\<open>fs_create\<close> assumes when it takes "entry 0 is
  vacant" for "the directory is empty".\<close>

definition dense :: "mem \<Rightarrow> bool" where
  "dense m \<longleftrightarrow> (\<forall>i<256. is_dir m i \<longrightarrow> vacantFile (get_inode m i) = 0 \<or> dir_used m i 0)"

lemma resolve_bound: "i < 256 \<Longrightarrow> resolve m i names = Some k \<Longrightarrow> k < 256"
  by (induction names arbitrary: i) (auto split: if_splits option.splits dest: lookup_inode_bound)

lemma resolve_append:
  "resolve m i (xs @ ys) = (case resolve m i xs of None \<Rightarrow> None | Some k \<Rightarrow> resolve m k ys)"
  by (induction xs arbitrary: i) (auto split: option.splits)

lemma resolve_mono:
  assumes "\<And>d. d < 256 \<Longrightarrow> is_dir m d \<Longrightarrow> is_dir m' d"
    and "\<And>d n k. d < 256 \<Longrightarrow> is_dir m d \<Longrightarrow> lookup m d n = Some k \<Longrightarrow> lookup m' d n = Some k"
  shows "i < 256 \<Longrightarrow> resolve m i names = Some x \<Longrightarrow> resolve m' i names = Some x"
proof (induction names arbitrary: i)
  case (Cons name names)
  then obtain k where k: "is_dir m i" "lookup m i name = Some k" "resolve m k names = Some x"
    by (auto split: if_splits option.splits)
  with assms Cons.prems have "is_dir m' i" "lookup m' i name = Some k" by auto
  moreover have "resolve m' k names = Some x" using Cons.IH k lookup_inode_bound by blast
  ultimately show ?case by simp
qed simp

section \<open>Steps that leave the directories alone\<close>

text \<open>
  What is enough for a step from \<open>m\<close> to \<open>m'\<close> to keep the invariant and every name: the inodes of the
  directories, the blocks of those with entries, and the bits that mark them as used.
\<close>

definition same_dirs :: "mem \<Rightarrow> mem \<Rightarrow> bool" where
  "same_dirs m m' \<longleftrightarrow> (\<forall>i<256. is_dir m' i = is_dir m i) \<and> (\<forall>b<17. bitmap_test whole_bm b m \<longrightarrow> bitmap_test whole_bm b m') \<and>
     (\<forall>i<256. is_dir m i \<longrightarrow> get_inode m' i = get_inode m i \<and> (bitmap_test inode_bm i m \<longrightarrow> bitmap_test inode_bm i m') \<and>
        (vacantFile (get_inode m i) \<noteq> 0 \<longrightarrow> dir_block m' i = dir_block m i \<and>
           (bitmap_test whole_bm (direct0 (get_inode m i)) m \<longrightarrow> bitmap_test whole_bm (direct0 (get_inode m i)) m')))"

lemma same_dirsD:
  assumes "same_dirs m m'" and "i < 256"
  shows "is_dir m' i = is_dir m i" and "is_dir m i \<Longrightarrow> get_inode m' i = get_inode m i"
    and "is_dir m i \<Longrightarrow> vacantFile (get_inode m i) \<noteq> 0 \<Longrightarrow> dir_block m' i = dir_block m i"
    and "is_dir m i \<Longrightarrow> lookup m' i n = lookup m i n" and "is_dir m i \<Longrightarrow> dir_used m' i j = dir_used m i j"
proof -
  show d: "is_dir m' i = is_dir m i" "is_dir m i \<Longrightarrow> get_inode m' i = get_inode m i"
    "is_dir m i \<Longrightarrow> vacantFile (get_inode m i) \<noteq> 0 \<Longrightarrow> dir_block m' i = dir_block m i"
    using assms by (auto simp: same_dirs_def)
  show "is_dir m i \<Longrightarrow> lookup m' i n = lookup m i n"
    using d(2,3) by (cases "vacantFile (get_inode m i) = 0") (simp_all add: lookup_def)
  show "is_dir m i \<Longrightarrow> dir_used m' i j = dir_used m i j" using d(2) by (simp add: dir_used_def)
qed

lemma same_dirs_resolve:
  assumes "same_dirs m m'"
  shows "i < 256 \<Longrightarrow> resolve m' i names = resolve m i names"
proof (induction names arbitrary: i)
  case (Cons name names)
  then show ?case using same_dirsD(1,4) [OF assms Cons.prems] by (auto split: option.split dest: lookup_inode_bound)
qed simp

lemma same_dirs_inv:
  assumes inv: "fs_inv m" and same: "same_dirs m m'"
  shows "fs_inv m'"
proof -
  note d = same_dirsD [OF same]
  have bits: "bitmap_test inode_bm i m'" if "i < 256" "is_dir m i" for i
    using inv same that by (auto simp: fs_inv_def same_dirs_def)
  have wbit: "bitmap_test whole_bm (direct0 (get_inode m i)) m'"
    if "i < 256" "is_dir m i" "vacantFile (get_inode m i) \<noteq> 0" for i
    using inv same that by (auto simp: fs_inv_def same_dirs_def dir_blocks_ok_def)
  have "dir_ok m' i" if i: "i < 256" "is_dir m i" for i
  proof -
    have "dir_ok m i" using inv i by (auto simp: fs_inv_def dirs_ok_def)
    then show ?thesis using d(2,3) [OF i]
      by (cases "vacantFile (get_inode m i) = 0") (simp_all add: dir_ok_def dir_used_def)
  qed
  moreover have "ids_ok m'" using inv d(1,2) by (simp add: fs_inv_def ids_ok_def)
  moreover have "dir_blocks_ok m'"
    unfolding dir_blocks_ok_def
  proof (intro allI impI; elim conjE)
    fix i assume i: "i < 256" "is_dir m' i" "vacantFile (get_inode m' i) \<noteq> 0"
    have k: "is_dir m k \<and> get_inode m' k = get_inode m k" if "k < 256" "is_dir m' k" for k
      using d(1,2) [OF that(1)] that(2) by simp
    have "dir_blocks_ok m" using inv by (simp add: fs_inv_def)
    note b = this [unfolded dir_blocks_ok_def, rule_format, of i]
    have "e = i" if "e < 256" "is_dir m' e" "vacantFile (get_inode m' e) \<noteq> 0"
      "direct0 (get_inode m' e) = direct0 (get_inode m' i)" for e
      using b i k [OF i(1,2)] k [OF that(1,2)] that by auto
    with b k [OF i(1,2)] i wbit [OF i(1)] show "17 \<le> direct0 (get_inode m' i) \<and> direct0 (get_inode m' i) < 65528 \<and>
        bitmap_test whole_bm (direct0 (get_inode m' i)) m' \<and>
        (\<forall>k<256. is_dir m' k \<and> vacantFile (get_inode m' k) \<noteq> 0 \<and>
          direct0 (get_inode m' k) = direct0 (get_inode m' i) \<longrightarrow> k = i)"
      by auto
  qed
  moreover have "\<forall>b<17. bitmap_test whole_bm b m'" using inv same by (simp add: fs_inv_def same_dirs_def)
  ultimately show ?thesis using inv d(1) bits by (simp add: fs_inv_def dirs_ok_def)
qed

lemma same_dirs_dense: "dense m \<Longrightarrow> same_dirs m m' \<Longrightarrow> dense m'"
  using same_dirsD(1,2,5) unfolding dense_def by metis

lemma same_dirs_image: "m' Image = m Image \<Longrightarrow> same_dirs m m'"
  by (simp add: same_dirs_def is_dir_def dir_block_def get_inode_def get_block_def mread_def bitmap_test_bit
      byte_at_def bitmap_byte_def whole_bm_def inode_bm_def)
text \<open>The same when one directory \<open>p\<close> changes its entries, and others may disappear.\<close>

lemma dir_changed_inv:
  assumes inv: "fs_inv m" and root: "is_dir m' 0" and low: "\<And>b. b < 17 \<Longrightarrow> bitmap_test whole_bm b m \<Longrightarrow> bitmap_test whole_bm b m'"
    and dirs: "\<And>d. d < 256 \<Longrightarrow> is_dir m' d \<Longrightarrow> is_dir m d \<and> (bitmap_test inode_bm d m \<longrightarrow> bitmap_test inode_bm d m')"
    and others: "\<And>d. d < 256 \<Longrightarrow> is_dir m' d \<Longrightarrow> d \<noteq> p \<Longrightarrow> get_inode m' d = get_inode m d \<and>
      (vacantFile (get_inode m d) \<noteq> 0 \<longrightarrow> dir_block m' d = dir_block m d)"
    and bits: "\<And>d. d < 256 \<Longrightarrow> is_dir m d \<Longrightarrow> vacantFile (get_inode m d) \<noteq> 0 \<Longrightarrow>
      bitmap_test whole_bm (direct0 (get_inode m d)) m \<Longrightarrow> bitmap_test whole_bm (direct0 (get_inode m d)) m'"
    and p: "dir_ok m' p" "inodeNumber (get_inode m' p) = inodeNumber (get_inode m p)"
      "direct0 (get_inode m' p) = direct0 (get_inode m p)" "vacantFile (get_inode m p) \<noteq> 0"
  shows "fs_inv m'"
proof -
  have "dir_ok m' d" if d: "d < 256" "is_dir m' d" for d
  proof (cases "d = p")
    case False
    have "dir_ok m d" using inv dirs [OF d] d by (auto simp: fs_inv_def dirs_ok_def)
    with others [OF d False] show ?thesis
      by (cases "vacantFile (get_inode m d) = 0") (simp_all add: dir_ok_def dir_used_def)
  qed (simp add: p(1))
  then have 1: "dirs_ok m'" by (simp add: dirs_ok_def)
  have 2: "ids_ok m'"
    unfolding ids_ok_def
  proof (intro allI impI)
    fix d assume d: "d < 256" "is_dir m' d"
    have "inodeNumber (get_inode m d) = of_nat d" using inv d dirs [OF d] by (simp add: fs_inv_def ids_ok_def)
    then show "inodeNumber (get_inode m' d) = of_nat d" using others [OF d] p(2) by (cases "d = p") simp_all
  qed
  have old: "is_dir m d \<and> vacantFile (get_inode m d) \<noteq> 0 \<and> direct0 (get_inode m' d) = direct0 (get_inode m d)"
    if "d < 256" "is_dir m' d" "vacantFile (get_inode m' d) \<noteq> 0" for d
    using that dirs [OF that(1,2)] others [OF that(1,2)] p(3,4) by (cases "d = p") auto
  have 3: "dir_blocks_ok m'"
    unfolding dir_blocks_ok_def
  proof (intro allI impI conjI; elim conjE)
    fix d assume d: "d < 256" "is_dir m' d" "vacantFile (get_inode m' d) \<noteq> 0"
    then show "17 \<le> direct0 (get_inode m' d)" "direct0 (get_inode m' d) < 65528"
      "bitmap_test whole_bm (direct0 (get_inode m' d)) m'"
      using old [OF d] bits [OF d(1)] inv by (auto simp: fs_inv_def dir_blocks_ok_def)
    fix e assume e: "e < 256" "is_dir m' e" "vacantFile (get_inode m' e) \<noteq> 0"
      "direct0 (get_inode m' e) = direct0 (get_inode m' d)"
    then show "e = d" using old [OF d] old [OF e(1-3)] d(1) inv unfolding fs_inv_def dir_blocks_ok_def by metis
  qed
  show ?thesis using 1 2 3 root low dirs inv unfolding fs_inv_def by blast
qed

end
