(* ===== verification/FS_Format.thy ===== *)
theory FS_Format
  imports FS_Dir
begin

text \<open>
  \<^verbatim>\<open>fs_format\<close>, \<^verbatim>\<open>fs_mount\<close> and \<^verbatim>\<open>fs_unmount\<close>. The lemmas compute the image that formatting
  leaves: 17 blocks in use, the root directory as the only inode, no descriptor; it satisfies the
  invariant of the directories.
\<close>

unbundle bit_operations_syntax

section \<open>Formatting, mounting, unmounting\<close>

text \<open>
  \<^verbatim>\<open>fs_format\<close> does not check that the image could be created: it goes on with a null pointer,
  which is undefined behaviour, here the outer \<open>None\<close>.
\<close>

definition fs_format :: "host \<Rightarrow> cstring option \<Rightarrow> mem \<Rightarrow> (F19FS_t option \<times> mem) option" where
  "fs_format h path m = (case path of
       None \<Rightarrow> Some (None, m)
     | Some p \<Rightarrow>
         if length p \<noteq> 0 then
           (let (whole, m1) = block_store_create h path m in
            if whole = None then None
            else
              (let (bitmap_ID, m2) = block_store_allocate whole m1;
                   (inode_start_block, m3) = block_store_allocate whole m2;
                   m4 = fold (\<lambda>_ m. snd (block_store_allocate whole m)) [0..<15] m3;
                   inode = block_store_inode_create True
                             (padd (block_store_Data_location whole) (bitmap_ID * BLOCK_SIZE_BYTES))
                             (padd (block_store_Data_location whole) (inode_start_block * BLOCK_SIZE_BYTES));
                   m5 = snd (block_store_sub_allocate inode m4);
                   root_inode_ID = 0;
                   root_inode = zero_inode\<lparr>vacantFile := 0, fileType := ch_d,
                                  inodeNumber := of_nat root_inode_ID, linkCount := 1\<rparr>;
                   m6 = snd (write_inode inode root_inode_ID root_inode m5);
                   (fd, m7) = block_store_fd_create True m6
               in Some (Some \<lparr>BlockStore_whole = whole, BlockStore_inode = inode, BlockStore_fd = fd\<rparr>, m7)))
         else Some (None, m))"

definition fs_mount :: "host \<Rightarrow> cstring option \<Rightarrow> mem \<Rightarrow> F19FS_t option \<times> mem" where
  "fs_mount h path m = (case path of
       None \<Rightarrow> (None, m)
     | Some p \<Rightarrow>
         if length p \<noteq> 0 then
           (let (whole, m1) = block_store_open h path m;
                bitmap_ID = 0;
                inode_start_block = 1;
                inode = block_store_inode_create True
                          (padd (block_store_Data_location whole) (bitmap_ID * BLOCK_SIZE_BYTES))
                          (padd (block_store_Data_location whole) (inode_start_block * BLOCK_SIZE_BYTES));
                (fd, m2) = block_store_fd_create True m1
            in (Some \<lparr>BlockStore_whole = whole, BlockStore_inode = inode, BlockStore_fd = fd\<rparr>, m2))
         else (None, m))"

definition fs_unmount :: "F19FS_t option \<Rightarrow> int \<times> release_action list" where
  "fs_unmount fso = (case fso of
       Some fs \<Rightarrow>
         (0, block_store_inode_destroy (BlockStore_inode fs) @ block_store_destroy (BlockStore_whole fs) @
             block_store_fd_destroy (BlockStore_fd fs) @ [Free_fs])
     | None \<Rightarrow> (-1, []))"

section \<open>A formatted image\<close>

definition blank :: "nat \<Rightarrow> mem \<Rightarrow> bool" where
  "blank n m \<longleftrightarrow> (\<forall>a<67100672. m Image a = 0) \<and> (\<forall>j<65528. bitmap_test whole_bm j m \<longleftrightarrow> j < n)"

lemma least_free: "(\<forall>j<N. test j \<longleftrightarrow> j < n) \<Longrightarrow> x < N \<Longrightarrow> \<not> test x \<Longrightarrow> \<forall>j<x. test j \<Longrightarrow> n < N \<Longrightarrow> x = (n::nat)"
  by (metis linorder_neqE_nat nat_neq_iff order.strict_trans)

lemma blank_allocate:
  assumes "blank n m" and n: "n < 65528"
  shows "block_store_allocate (Some (whole_store fd)) m = (n, bitmap_set whole_bm n m)"
    and "blank (Suc n) (bitmap_set whole_bm n m)"
proof -
  have bits: "\<forall>j<65528. bitmap_test whole_bm j m \<longleftrightarrow> j < n" using assms by (simp add: blank_def)
  show "block_store_allocate (Some (whole_store fd)) m = (n, bitmap_set whole_bm n m)"
  proof (cases rule: allocate_whole_cases [of fd m])
    case full
    with bits n show ?thesis by (metis less_irrefl)
  next
    case (found i)
    then have "i = n" using least_free [OF bits] n by blast
    with found show ?thesis by simp
  qed
  have "bitmap_set whole_bm n m Image a = m Image a" if "a < 67100672" for a
    using that by (simp add: bitmap_set_def Let_def bitmap_byte_def mwrite_def)
  with assms show "blank (Suc n) (bitmap_set whole_bm n m)"
    by (auto simp: blank_def bitmap_test_set less_Suc_eq)
qed

lemma blank_allocate_many:
  "blank n m \<Longrightarrow> n + length xs \<le> 65528 \<Longrightarrow>
    blank (n + length xs) (fold (\<lambda>_ m. snd (block_store_allocate (Some (whole_store fd)) m)) xs m)"
proof (induction xs arbitrary: n m)
  case (Cons x xs)
  then show ?case using blank_allocate [of n m] Cons.IH [of "Suc n"] by simp
qed simp

definition host_ok :: "host \<Rightarrow> cstring \<Rightarrow> int \<Rightarrow> bool" where
  "host_ok h p fd \<longleftrightarrow> h_malloc h \<and> fd \<noteq> -1 \<and> h_open_creat h p = fd \<and>
     h_ftruncate h fd BLOCK_STORE_NUM_BYTES \<noteq> -1 \<and> h_mmap h fd"

lemma blank_created:
  assumes "host_ok h p fd"
  shows "\<exists>m'. block_store_create h (Some p) m = (Some (whole_store fd), m') \<and> blank 0 m'"
proof -
  let ?m = "m(Image := h_content h fd)"
  let ?m' = "mwrite (c_memset ?m (Image, 0) 0 67108864) (Image, 67108863) [0xff]"
  have "bitmap_overlay 65528 (Image, 67100672) True = Some whole_bm"
    by (simp add: bitmap_overlay_struct whole_bm_def)
  then have "block_store_create h (Some p) m = (Some (whole_store fd), ?m')"
    using assms by (simp add: host_ok_def block_store_create_def block_store_init_def create_file_def Let_def
        whole_store_def)
  moreover have "blank 0 ?m'"
    unfolding blank_def
  proof (intro conjI allI impI)
    fix a :: nat assume "a < 67100672"
    then show "?m' Image a = 0" by (simp add: mwrite_def c_memset_def)
  next
    fix j :: nat assume "j < 65528"
    then have "j div 8 < 8191" by (simp add: less_mult_imp_div_less)
    then have "byte_at ?m' (bitmap_byte whole_bm (j div 8)) = 0"
      by (simp add: byte_at_def bitmap_byte_def mwrite_def c_memset_def)
    then show "bitmap_test whole_bm j ?m' = (j < 0)" by (simp add: bitmap_test_bit)
  qed
  ultimately show ?thesis by blast
qed

lemma decode_zero: "decode_inode (replicate 64 0) = zero_inode"
proof -
  have "encode_inode zero_inode = replicate 64 0"
    by (simp add: encode_inode_def zero_inode_def le_def ptrs_bytes_def upt_rec numeral_eq_Suc)
  then show ?thesis using decode_encode_inode [of zero_inode] by simp
qed

definition root_inode :: inode_t where
  "root_inode = zero_inode\<lparr>vacantFile := 0, fileType := ch_d, inodeNumber := 0, linkCount := 1\<rparr>"

definition fresh_fs :: "mem \<Rightarrow> bool" where
  "fresh_fs m \<longleftrightarrow> get_inode m 0 = root_inode \<and> (\<forall>i<256. i \<noteq> 0 \<longrightarrow> get_inode m i = zero_inode) \<and>
     (\<forall>j<65528. bitmap_test whole_bm j m \<longleftrightarrow> j < 17) \<and> (\<forall>i<256. bitmap_test inode_bm i m \<longleftrightarrow> i = 0) \<and>
     (\<forall>f<256. \<not> bitmap_test fd_bm f m)"

lemma inode_wf_root [simp]: "inode_wf root_inode"
  by (simp add: root_inode_def inode_wf_def zero_inode_def)

lemma fs_format_fresh:
  assumes "host_ok h p fd" and "p \<noteq> []"
  shows "\<exists>m'. fs_format h (Some p) m = Some (Some (the_fs fd), m') \<and> fresh_fs m'"
proof -
  obtain m1 where m1: "block_store_create h (Some p) m = (Some (whole_store fd), m1)" "blank 0 m1"
    using blank_created [OF assms(1)] by blast
  let ?al = "\<lambda>m. snd (block_store_allocate (Some (whole_store fd)) m)"
  note a1 = blank_allocate [OF m1(2), simplified]
  note a2 = blank_allocate [OF a1(2), simplified]
  define m3 where "m3 = bitmap_set whole_bm (Suc 0) (bitmap_set whole_bm 0 m1)"
  define m4 where "m4 = fold (\<lambda>_ m. ?al m) [0..<15] m3"
  have b4: "blank 17 m4"
    using blank_allocate_many [of 2 m3 "[0..<15]" fd] a2 by (simp add: m4_def m3_def numeral_2_eq_2)
  have z: "m4 Image a = 0" if "a < 67100672" for a using b4 that by (simp add: blank_def)
  have ino4: "get_inode m4 i = zero_inode" if "i < 256" for i
  proof -
    have "mread m4 (Image, 1024 + i * 64) 64 = replicate 64 0"
      by (rule nth_equalityI) (use that z in auto)
    then show ?thesis by (simp add: get_inode_def decode_zero)
  qed
  have t4: "\<not> bitmap_test inode_bm j m4" if "j < 256" for j
  proof -
    have "j div 8 < 32" using that by (simp add: less_mult_imp_div_less)
    then have "byte_at m4 (bitmap_byte inode_bm (j div 8)) = 0" using z by (simp add: byte_at_def bitmap_byte_def)
    then show ?thesis by (simp add: bitmap_test_bit)
  qed
  have "bitmap_ffz (Some inode_bm) m4 = 0"
  proof -
    have "bitmap_ffz (Some inode_bm) m4 \<noteq> SIZE_MAX" using ino.ffz_full [of m4 0] t4 [of 0] by auto
    from ino.ffz_found [OF this] t4 show ?thesis by (metis gr0I order_less_trans)
  qed
  then have al: "block_store_sub_allocate (Some inode_store) m4 = (0, bitmap_set inode_bm 0 m4)"
    by (simp add: block_store_sub_allocate_def Let_def)
  define m6 where "m6 = put_inode 0 root_inode (bitmap_set inode_bm 0 m4)"
  define m7 where "m7 = mwrite (c_memset m6 (FdData, 0) 0 1536) (FdBits, 0) (replicate 32 0)"
  have "fs_format h (Some p) m = Some (Some (the_fs fd), m7)"
    using assms(2) a1 a2
    by (simp add: fs_format_def Let_def m1 block_store_Data_location_def m3_def [symmetric] m4_def [symmetric]
        inode_store_created al root_inode_def [symmetric] m6_def [symmetric] fd_store_created m7_def [symmetric]
        the_fs_def)
  moreover have "fresh_fs m7"
  proof -
    have img: "m7 Image = m6 Image" by (simp add: m7_def mwrite_def c_memset_def)
    then have same: "get_inode m7 i = get_inode m6 i" "bitmap_test whole_bm j m7 = bitmap_test whole_bm j m6"
      "bitmap_test inode_bm j m7 = bitmap_test inode_bm j m6" for i j
      by (simp_all add: get_inode_def mread_def bitmap_test_bit byte_at_def bitmap_byte_def)
    have ino6: "get_inode m6 i = (if i = 0 then root_inode else zero_inode)" if "i < 256" for i
      using that ino4 by (simp add: m6_def get_put_inode get_inode_alloc)
    have w6: "bitmap_test whole_bm j m6 \<longleftrightarrow> j < 17" if "j < 65528" for j
      using that b4 by (simp add: m6_def whole_test_put_inode bitmap_test_set_other blank_def)
    have i6: "bitmap_test inode_bm i m6 \<longleftrightarrow> i = 0" if "i < 256" for i
      using that t4 by (simp add: m6_def inode_test_put_inode bitmap_test_set)
    have f7: "\<not> bitmap_test fd_bm f m7" if "f < 256" for f
      using bitmap_test_zeroed [of f 256 FLAG_NONE "(FdBits, 0)"] that by (simp add: m7_def fd_bm_def)
    show ?thesis using ino6 w6 i6 f7 by (simp add: fresh_fs_def same)
  qed
  ultimately show ?thesis by blast
qed

lemma fresh_fs_inv:
  assumes "fresh_fs m"
  shows "fs_inv m" and "dense m"
proof -
  have d: "is_dir m i \<longleftrightarrow> i = 0" if "i < 256" for i
    using assms that by (cases "i = 0") (auto simp: is_dir_def fresh_fs_def root_inode_def zero_inode_def)
  have r: "get_inode m 0 = root_inode" using assms by (simp add: fresh_fs_def)
  have s: "vacantFile root_inode = 0" "inodeNumber root_inode = 0" "directPointer root_inode ! 0 = 0"
    by (simp_all add: root_inode_def zero_inode_def)
  have "dirs_ok m" using d by (simp add: dirs_ok_def dir_ok_def dir_used_def r s)
  moreover have "ids_ok m" using d by (simp add: ids_ok_def r s)
  moreover have "dir_blocks_ok m" using d r s unfolding dir_blocks_ok_def by metis
  ultimately show "fs_inv m" using d assms by (auto simp: fs_inv_def fresh_fs_def)
  show "dense m" using d by (simp add: dense_def r s)
qed

section \<open>An example\<close>

definition example_host :: host where
  "example_host = \<lparr>h_malloc = True, h_open_creat = (\<lambda>_. 3), h_open_rdwr = (\<lambda>_. 3), h_ftruncate = (\<lambda>_ _. 0),
     h_fstat = (\<lambda>_. (0, BLOCK_STORE_NUM_BYTES)), h_mmap = (\<lambda>_. True), h_content = (\<lambda>_ _. 0)\<rparr>"

definition formatted :: mem where
  "formatted = snd (the (fs_format example_host (Some (str ''disk'')) (\<lambda>_ _. 0)))"

lemma example_host_ok: "host_ok example_host p 3"
  by (simp add: host_ok_def example_host_def)

lemma str_disk: "str ''disk'' \<noteq> []"
  by (simp add: str_def)

lemma fresh_formatted: "fresh_fs formatted"
  using fs_format_fresh [OF example_host_ok str_disk, of "\<lambda>_ _. 0"] by (auto simp: formatted_def)

lemmas formatted_inv = fresh_fs_inv [OF fresh_formatted]

lemma formatted_simps:
  "get_inode formatted 0 = root_inode" "is_dir formatted 0" "lookup formatted 0 n = None"
  "\<not> dir_used formatted 0 j" "f < 256 \<Longrightarrow> \<not> bitmap_test fd_bm f formatted"
  "i < 256 \<Longrightarrow> bitmap_test inode_bm i formatted \<longleftrightarrow> i = 0"
  "b < 65528 \<Longrightarrow> bitmap_test whole_bm b formatted \<longleftrightarrow> b < 17"
  using fresh_formatted
  by (simp_all add: fresh_fs_def root_inode_def is_dir_def lookup_def dir_used_def)

section \<open>Properties\<close>

text \<open>C21: when the operating system lets the image be created, \<^verbatim>\<open>fs_format\<close> returns the mounted file
  system whose first 17 blocks are in use (the inode bit map and the inode table) and no other,
  whose only inode is the root directory, empty, and that has no descriptor open.\<close>

theorem fs_format_result:
  assumes "host_ok h p fd" and "p \<noteq> []"
  shows "\<exists>m'. fs_format h (Some p) m = Some (Some (the_fs fd), m') \<and> fs_inv m' \<and> dense m' \<and>
    get_inode m' 0 = root_inode \<and> (\<forall>n. lookup m' 0 n = None) \<and>
    block_store_get_used_blocks (BlockStore_whole (the_fs fd)) m' = 17 \<and>
    block_store_get_used_blocks (BlockStore_inode (the_fs fd)) m' = 1 \<and>
    block_store_get_used_blocks (BlockStore_fd (the_fs fd)) m' = 0"
proof -
  obtain m' where m': "fs_format h (Some p) m = Some (Some (the_fs fd), m')" "fresh_fs m'"
    using fs_format_fresh [OF assms] by blast
  have "{j. j < 65528 \<and> bitmap_test whole_bm j m'} = {..<17}" "{j. j < 256 \<and> bitmap_test inode_bm j m'} = {0}"
    "{j. j < 256 \<and> bitmap_test fd_bm j m'} = {}"
    using m'(2) by (auto simp: fresh_fs_def)
  then have "bitmap_total_set (Some whole_bm) m' = 17" "bitmap_total_set (Some inode_bm) m' = 1"
    "bitmap_total_set (Some fd_bm) m' = 0"
    by (simp_all add: whole.total_card ino.total_card fds.total_card)
  moreover have "\<forall>n. lookup m' 0 n = None" using m'(2) by (simp add: fresh_fs_def lookup_def root_inode_def)
  ultimately show ?thesis
    using m' fresh_fs_inv [OF m'(2)] by (simp add: block_store_get_used_blocks_def fresh_fs_def)
qed

theorem fs_format_result_witness:
  "\<exists>m'. fs_format example_host (Some (str ''disk'')) (\<lambda>_ _. 1) = Some (Some (the_fs 3), m') \<and> fs_inv m' \<and>
    block_store_get_used_blocks (BlockStore_whole (the_fs 3)) m' = 17"
  using fs_format_result [OF example_host_ok str_disk, of "\<lambda>_ _. 1"] by blast

text \<open>Mounting attaches the file system to the image as it is on disk, with an empty descriptor
  table; when the image cannot be opened, \<^verbatim>\<open>fs_mount\<close> still returns an object, whose block store
  is \<^verbatim>\<open>NULL\<close>.\<close>

theorem fs_mount_result:
  assumes "h_malloc h" and "p \<noteq> []"
  shows "(check_file h (Some p) = fd \<and> fd \<noteq> -1 \<and> h_mmap h fd \<longrightarrow>
      (\<exists>m'. fs_mount h (Some p) m = (Some (the_fs fd), m') \<and> m' Image = h_content h fd \<and>
        (\<forall>f<256. \<not> bitmap_test fd_bm f m'))) \<and>
    (check_file h (Some p) = -1 \<longrightarrow>
      (\<exists>fs. fst (fs_mount h (Some p) m) = Some fs \<and> BlockStore_whole fs = None))"
proof (intro conjI impI)
  assume ok: "check_file h (Some p) = fd \<and> fd \<noteq> -1 \<and> h_mmap h fd"
  let ?m1 = "m(Image := h_content h fd)"
  let ?m2 = "mwrite (c_memset ?m1 (FdData, 0) 0 1536) (FdBits, 0) (replicate 32 0)"
  have "block_store_open h (Some p) m = (Some (whole_store fd), ?m1)"
    using assms ok by (simp add: block_store_open_def block_store_init_def Let_def bitmap_overlay_struct
        whole_store_def whole_bm_def)
  then have "fs_mount h (Some p) m = (Some (the_fs fd), ?m2)"
    using assms by (simp add: fs_mount_def Let_def block_store_Data_location_def inode_store_created
        fd_store_created the_fs_def)
  moreover have "?m2 Image = h_content h fd" by (simp add: mwrite_def c_memset_def)
  moreover have "\<not> bitmap_test fd_bm f ?m2" if "f < 256" for f
    using bitmap_test_zeroed [of f 256 FLAG_NONE "(FdBits, 0)"] that by (simp add: fd_bm_def)
  ultimately show "\<exists>m'. fs_mount h (Some p) m = (Some (the_fs fd), m') \<and> m' Image = h_content h fd \<and>
        (\<forall>f<256. \<not> bitmap_test fd_bm f m')" by blast
next
  assume "check_file h (Some p) = -1"
  then have "block_store_open h (Some p) m = (None, m)"
    by (simp add: block_store_open_def block_store_init_def Let_def)
  then show "\<exists>fs. fst (fs_mount h (Some p) m) = Some fs \<and> BlockStore_whole fs = None"
    using assms by (simp add: fs_mount_def Let_def fd_store_created)
qed

theorem fs_mount_result_witness:
  "\<exists>m'. fs_mount example_host (Some (str ''disk'')) (\<lambda>_ _. 1) = (Some (the_fs 3), m') \<and>
    (\<forall>f<256. \<not> bitmap_test fd_bm f m')"
  using fs_mount_result [of example_host "str ''disk''" 3 "\<lambda>_ _. 1"] str_disk
  by (auto simp: example_host_def check_file_def)

end
