(* ===== verification/FS_Create.thy ===== *)
theory FS_Create
  imports FS_Format
begin

text \<open>
  Creating files and directories: \<^verbatim>\<open>fs_create\<close> and the alternative \<^verbatim>\<open>fs_create2\<close> (which only
  \<^verbatim>\<open>fs_move\<close> calls). Each takes the file system, its arguments and the memory, and returns its
  result and the memory afterwards. The lemmas compute the memory a successful creation leaves
  and show that it is the insertion of one name into the tables of the directories; the
  properties also state the two defects of \<^verbatim>\<open>fs_create\<close>.
\<close>

unbundle bit_operations_syntax

section \<open>\<^verbatim>\<open>fs_create2\<close>\<close>

text \<open>
  \<open>garbage\<close> is what the uninitialised local \<^verbatim>\<open>inode_t fileInode\<close> happens to hold: the code leaves
  some of its fields unset and writes all of them to the table.
\<close>

definition fs_create2 ::
    "inode_t \<Rightarrow> F19FS_t option \<Rightarrow> cstring option \<Rightarrow> file_t \<Rightarrow> mem \<Rightarrow> int \<times> mem" where
  "fs_create2 garbage fso patho type m =
     (if fso = None \<or> patho = None \<or> length (the patho) = 0 \<or> \<not> (type = FS_REGULAR \<or> type = FS_DIRECTORY)
      then (-1, m)
      else (let fs = the fso; path = the patho in
        if length path \<le> 1 then (-2, m)
        else if block_store_get_free_blocks (BlockStore_inode fs) m = 0 then (-3, m)
        else if \<not> isValidPath (Some path) then (-4, m)
        else (let dirPath = c_dirname path; fileName = c_basename path in
          if length fileName \<ge> FS_FNAME_MAX then (-5, m)
          else (let parentDirInodeID = getParentDirInodeID fs dirPath m in
            if parentDirInodeID = SIZE_MAX then (-6, m)
            else if checkFileExist fs parentDirInodeID fileName m then (-7, m)
            else (case read_dir fs parentDirInodeID m of
                None \<Rightarrow> (-8, m)
              | Some (parentDirInode0, parentDir) \<Rightarrow>
                  if vacant_total_set (vacantFile parentDirInode0) = NUM_OF_ENTRIES then (-9, m)
                  else
                    (let next_entry = vacant_ffz (vacantFile parentDirInode0);
                         parentDirInode = parentDirInode0\<lparr>vacantFile :=
                           vacant_set (vacantFile parentDirInode0) next_entry\<rparr>;
                         (fileInodeID, m1) = block_store_allocate (BlockStore_inode fs) m;
                         fileInode1 = garbage\<lparr>linkCount := 1, inodeNumber := of_nat fileInodeID\<rparr>;
                         (no_block, fileInode2, m2) =
                           (if type = FS_DIRECTORY then
                              (let owner_root = fileInode1\<lparr>vacantFile := 0,
                                     owner := buf_write (owner fileInode1) 0 (c_strncpy (str ''root'') 4),
                                     fileType := ch_d\<rparr>;
                                   (first_free_blocks, ma) = block_store_allocate (BlockStore_whole fs) m1
                               in if first_free_blocks = SIZE_MAX then (True, owner_root, ma)
                                  else (False,
                                        owner_root\<lparr>directPointer :=
                                           (directPointer owner_root)[0 := of_nat first_free_blocks],
                                           fileSize := 1024\<rparr>,
                                        snd (write_block fs first_free_blocks init_db ma)))
                            else (False, fileInode1, m1))
                     in if no_block then (-10, m2)
                        else
                          (let fileInode3 =
                                 (if type = FS_REGULAR
                                  then fileInode2\<lparr>fileSize := 0, fileType := ch_r,
                                         directPointer := replicate 6 0, indirectPointer := 0,
                                         doubleIndirectPointer := 0\<rparr>
                                  else fileInode2);
                               (w1, m3) = write_inode (BlockStore_inode fs) fileInodeID fileInode3 m2
                           in if w1 \<noteq> 64 then (-11, m3)
                              else
                                (let (w2, m4) = write_inode (BlockStore_inode fs) parentDirInodeID parentDirInode m3
                                 in if w2 \<noteq> 64 then (-12, m4)
                                    else
                                      (let named = set_entry_filename parentDir next_entry (c_strcpy_bytes fileName);
                                           entered = set_entry_inode named next_entry (of_nat fileInodeID);
                                           (w3, m5) = write_block fs (direct0 parentDirInode) entered m4
                                       in if w3 \<noteq> BLOCK_SIZE_BYTES then (-13, m5) else (0, m5))))))))))"

section \<open>\<^verbatim>\<open>fs_create\<close>\<close>

text \<open>The common beginning of \<^verbatim>\<open>fs_create\<close> and \<^verbatim>\<open>fs_open\<close>: copy the path into 65535 bytes, split it and
  check every name; \<open>None\<close> where they return -1 (or where a copy overruns its buffer, which the two
  functions test first).\<close>

definition checked_tokens :: "cstring \<Rightarrow> (cstring list \<times> nat) option" where
  "checked_tokens path =
     (if \<not> path_safe 65535 path then None
      else case the (str_split path slash) of
        None \<Rightarrow> None
      | Some (tokens, cnt) \<Rightarrow>
          if list_all (\<lambda>n. isValidFileName (Some (tokens ! n))) [0..<cnt] then Some (tokens, cnt) else None)"

text \<open>The loop that looks for an entry of the same name, reading the block again at every used
  entry.\<close>

definition name_taken :: "F19FS_t \<Rightarrow> mem \<Rightarrow> inode_t \<Rightarrow> byte list \<Rightarrow> cstring \<Rightarrow> bool \<times> byte list" where
  "name_taken fs m parent_inode parent_data name =
     fold (\<lambda>k (taken, data).
         if taken then (taken, data)
         else if vacant_shift_test (vacantFile parent_inode) k then
           (let data' = snd (read_block fs (direct0 parent_inode) data m)
            in (c_strcmp (entry_filename data' k) name = 0, data'))
         else (False, data))
       [0..<NUM_OF_ENTRIES] (False, parent_data)"

definition new_inode :: "file_t \<Rightarrow> nat \<Rightarrow> inode_t" where
  "new_inode type child_inode_ID =
     zero_inode\<lparr>vacantFile := 0,
       fileType := (if type = FS_REGULAR then ch_r else if type = FS_DIRECTORY then ch_d else 0),
       inodeNumber := of_nat child_inode_ID, fileSize := 0, linkCount := 1\<rparr>"

text \<open>From the point where the entry is known to be free: the parent's block, the new inode, the
  entry.\<close>

definition create_entry ::
    "F19FS_t \<Rightarrow> nat \<Rightarrow> inode_t \<Rightarrow> byte list \<Rightarrow> nat \<Rightarrow> cstring \<Rightarrow> file_t \<Rightarrow> mem \<Rightarrow> int \<times> mem" where
  "create_entry fs parent_inode_ID parent_inode parent_data k name type m =
     (let (child_inode_ID, m1) = block_store_allocate (BlockStore_inode fs) m in
      if child_inode_ID = SIZE_MAX then (-1, m1)
      else
        (let parent_inode' = parent_inode\<lparr>vacantFile := vacantFile parent_inode OR push_bit k 1\<rparr>;
             m2 = snd (write_inode (BlockStore_inode fs) parent_inode_ID parent_inode' m1);
             data1 = snd (read_block fs (direct0 parent_inode') parent_data m2);
             data2 = set_entry_filename data1 k (c_strcpy_bytes name);
             data3 = set_entry_inode data2 k (of_nat child_inode_ID);
             m3 = snd (write_block fs (direct0 parent_inode') data3 m2);
             m4 = snd (write_inode (BlockStore_inode fs) child_inode_ID (new_inode type child_inode_ID) m3)
         in (0, m4)))"

text \<open>The parent's data block: a new one when the entry is the first of the block, \<open>None\<close> when there
  is none left.\<close>

definition parent_block :: "F19FS_t \<Rightarrow> inode_t \<Rightarrow> nat \<Rightarrow> mem \<Rightarrow> inode_t option \<times> mem" where
  "parent_block fs parent_inode k m =
     (if k = 0 then
        (let (parent_data_ID, m1) = block_store_allocate (BlockStore_whole fs) m in
         if parent_data_ID < BLOCK_STORE_AVAIL_BLOCKS
         then (Some (parent_inode\<lparr>directPointer :=
                 (directPointer parent_inode)[0 := of_nat parent_data_ID]\<rparr>), m1)
         else (None, m1))
      else (Some parent_inode, m))"

text \<open>\<open>None\<close>: the path overruns a buffer.\<close>

definition fs_create :: "F19FS_t option \<Rightarrow> cstring option \<Rightarrow> file_t \<Rightarrow> mem \<Rightarrow> (int \<times> mem) option" where
  "fs_create fso patho type m =
     (if fso \<noteq> None \<and> patho \<noteq> None \<and> length (the patho) \<noteq> 0 \<and> (type = FS_REGULAR \<or> type = FS_DIRECTORY)
      then
        (let fs = the fso in
         if \<not> path_safe 65535 (the patho) then None
         else case checked_tokens (the patho) of
           None \<Rightarrow> Some (-1, m)
         | Some (tokens, cnt) \<Rightarrow>
             (let w = walk fs m (take (cnt - 1) tokens);
                  parent_inode_ID = walk_inode_ID w;
                  parent_inode = snd (read_inode (BlockStore_inode fs) parent_inode_ID (walk_parent_inode w) m)
              in
              if walk_indicator w = cnt - 1 \<and> fileType parent_inode = ch_d then
                (let (taken, parent_data) =
                       name_taken fs m parent_inode (walk_parent_data w) (tokens ! (cnt - 1))
                 in
                 if taken then Some (-1, m)
                 else
                   (let k = vacant_loop (vacantFile parent_inode) 0 in
                    case parent_block fs parent_inode k m of
                      (None, m1) \<Rightarrow> Some (-1, m1)
                    | (Some parent_inode1, m1) \<Rightarrow>
                        if k < NUM_OF_ENTRIES
                        then Some (create_entry fs parent_inode_ID parent_inode1 parent_data k (tokens ! (cnt - 1)) type m1)
                        else Some (-1, m1)))
              else Some (-1, m)))
      else Some (-1, m))"

lemma checked_tokens_Some:
  assumes "checked_tokens path = Some (tokens, cnt)"
  shows "tokens = strtok_all slash path" and "length tokens = cnt" and "0 < cnt"
    and "\<forall>t \<in> set tokens. isValidFileName (Some t)"
proof -
  have sp: "str_split path slash = Some (Some (tokens, cnt))"
    and valid: "\<forall>n<cnt. isValidFileName (Some (tokens ! n))"
    using assms by (auto simp: checked_tokens_def path_safe_def list_all_iff split: option.splits if_splits)
  from sp show len: "length tokens = cnt" and "0 < cnt" using str_split_length by blast+
  from valid len show v: "\<forall>t \<in> set tokens. isValidFileName (Some t)" by (metis in_set_conv_nth)
  have eq: "tokens = strtok_all slash path @ replicate (cnt - length (strtok_all slash path)) []"
    using sp by (auto simp: str_split_def Let_def split: if_splits)
  have "cnt - length (strtok_all slash path) = 0"
  proof (rule ccontr)
    assume "cnt - length (strtok_all slash path) \<noteq> 0"
    then have "[] \<in> set tokens" by (subst eq) simp
    with v show False by (auto simp: isValidFileName_def)
  qed
  with eq show "tokens = strtok_all slash path" by simp
qed

lemma checked_tokens_safe: "checked_tokens path = Some tc \<Longrightarrow> path_safe 65535 path \<and> path \<noteq> []"
  by (auto simp: checked_tokens_def str_split_def split: if_splits)

text \<open>On a short path no copy can overrun its buffer; this is what the examples are evaluated with.\<close>

definition short_tokens :: "cstring \<Rightarrow> (cstring list \<times> nat) option" where
  "short_tokens path =
     (let cnt = length (filter (\<lambda>c. c = slash) path); ts = strtok_all slash path;
          tokens = ts @ replicate (cnt - length ts) []
      in if path = [] \<or> hd path \<noteq> slash then None
         else if list_all (\<lambda>n. isValidFileName (Some (tokens ! n))) [0..<cnt] then Some (tokens, cnt) else None)"

lemma short_path: "length path < 200 \<Longrightarrow> path_safe 65535 path"
  using path_safe_200 [of path] by (simp add: path_safe_def)

lemma checked_tokens_short: "length path < 200 \<Longrightarrow> checked_tokens path = short_tokens path"
  using short_path [of path]
  by (auto simp: checked_tokens_def short_tokens_def path_safe_def str_split_def Let_def split: if_splits)

lemma checked_tokens_str: "length s < 200 \<Longrightarrow> checked_tokens (str s) = short_tokens (str s) \<and> path_safe 65535 (str s)"
  using checked_tokens_short short_path by (simp add: str_def)

lemma valid_name_length: "isValidFileName (Some t) \<Longrightarrow> t \<noteq> [] \<and> length t < 32"
  by (auto simp: isValidFileName_def split: if_splits)

lemma checked_tokens_no_nul:
  "checked_tokens path = Some (tokens, cnt) \<Longrightarrow> 0 \<notin> set path \<Longrightarrow> \<forall>t \<in> set tokens. 0 \<notin> set t"
  using checked_tokens_Some(1) tokens_subset by blast

lemma find_unique: "k \<in> set xs \<Longrightarrow> (\<And>x. x \<in> set xs \<Longrightarrow> P x \<longleftrightarrow> x = k) \<Longrightarrow> find P xs = Some k"
  by (induction xs) auto

lemma used_lookup: "dir_ok m p \<Longrightarrow> dir_used m p j \<Longrightarrow>
    lookup m p (entry_name (dir_block m p) j) = Some (unat (entry_inode (dir_block m p) j))"
  unfolding lookup_def lookup_in_def
  by (subst find_unique [of j]) (auto simp: dir_used_def dir_ok_def)

lemma lookup_used:
  "lookup m p n = Some k \<Longrightarrow> \<exists>j. dir_used m p j \<and> entry_name (dir_block m p) j = n"
  by (auto simp: lookup_def lookup_in_def find_Some_iff dir_used_def)

lemma lookup_in_put:
  assumes blk: "length blk = 1024" and k: "k < 31" "\<not> bit v k" and name: "0 \<notin> set name" "length name + length u < 32"
    and names: "\<forall>j<31. bit v j \<longrightarrow> length (entry_name blk j) < 32" and fresh: "lookup_in v blk name = None"
  shows "lookup_in (v OR push_bit k 1) (put_entry blk k (name @ 0 # u) i) n =
    (if n = name then Some (unat i) else lookup_in v blk n)"
proof -
  let ?blk = "put_entry blk k (name @ 0 # u) i"
  define w where "w = v OR push_bit k 1"
  have len: "length (name @ 0 # u) \<le> 32" using name by simp
  have same: "entry_name ?blk k = name" using entry_name_put_same [OF blk k(1) name, of i] .
  have other: "j < 31 \<Longrightarrow> bit v j \<Longrightarrow> entry_name ?blk j = entry_name blk j" for j
    using entry_name_put_other [OF blk k(1) _ len, of j i] names k(2) by metis
  have bits: "bit w j \<longleftrightarrow> j = k \<or> bit v j" if "j < 31" for j unfolding w_def using that bit_or_push by simp
  have nofresh: "j < 31 \<Longrightarrow> bit v j \<Longrightarrow> entry_name blk j \<noteq> name" for j
    using fresh by (auto simp: lookup_in_def find_None_iff)
  have "lookup_in w ?blk n = (if n = name then Some (unat i) else lookup_in v blk n)"
  proof (cases "n = name")
    case True
    have "find (\<lambda>j. bit w j \<and> entry_name ?blk j = n) [0..<31] = Some k"
      using k(1) True same other nofresh by (intro find_unique) (auto simp: bits)
    then show ?thesis using True k len by (simp add: lookup_in_def entry_inode_put blk)
  next
    case False
    have "find (\<lambda>j. bit w j \<and> entry_name ?blk j = n) [0..<31] = find (\<lambda>j. bit v j \<and> entry_name blk j = n) [0..<31]"
      using False same other k(2) by (intro find_cong_on) (auto simp: bits)
    moreover have "entry_inode ?blk j = entry_inode blk j"
      if "find (\<lambda>j. bit v j \<and> entry_name blk j = n) [0..<31] = Some j" for j
      using that k blk len by (auto simp: find_Some_iff entry_inode_put)
    ultimately show ?thesis using False by (auto simp: lookup_in_def split: option.splits intro!: option.map_cong0)
  qed
  then show ?thesis by (simp only: w_def)
qed

lemma name_taken_fold:
  fixes h :: int and m :: mem
  assumes rd: "direct0 ino \<le> 65528" and name: "0 \<notin> set name" and "length data = 1024"
  defines "f \<equiv> (\<lambda>k (taken, data).
         if taken then (taken, data)
         else if vacant_shift_test (vacantFile ino) k then
           (let data' = snd (read_block (the_fs h) (direct0 ino) data m)
            in (c_strcmp (entry_filename data' k) name = 0, data'))
         else (False, data))"
  shows "length (snd (fold f xs (taken, data))) = 1024 \<and> (fst (fold f xs (taken, data)) \<longleftrightarrow>
    taken \<or> (\<exists>k \<in> set xs. bit (vacantFile ino) k \<and> entry_name (get_block m (direct0 ino)) k = name))"
  using assms(3)
proof (induction xs arbitrary: taken data)
  case (Cons x xs)
  obtain t d where f: "f x (taken, data) = (t, d)" by (cases "f x (taken, data)")
  with Cons.prems rd have "length d = 1024 \<and> (t \<longleftrightarrow> taken \<or> bit (vacantFile ino) x \<and>
      entry_name (get_block m (direct0 ino)) x = name)"
    by (auto simp: f_def Let_def vacant_shift_test_bit cstr_at_id [OF name] entry_name_def split: if_splits)
  with Cons.IH [of d t] f show ?case by auto
qed simp

lemma name_taken_lookup:
  assumes "dir_ok m p" and "0 \<notin> set name" and "length data = 1024"
  shows "fst (name_taken (the_fs h) m (get_inode m p) data name) \<longleftrightarrow> lookup m p name \<noteq> None"
    and "length (snd (name_taken (the_fs h) m (get_inode m p) data name)) = 1024"
  using name_taken_fold [of "get_inode m p" name data h m "[0..<31]" False] assms
  by (auto simp: name_taken_def dir_ok_def lookup_def lookup_in_def dir_block_def find_None_iff)

section \<open>The effect of \<^verbatim>\<open>create_entry\<close>\<close>

definition created ::
    "nat \<Rightarrow> inode_t \<Rightarrow> nat \<Rightarrow> cstring \<Rightarrow> file_t \<Rightarrow> nat \<Rightarrow> mem \<Rightarrow> mem" where
  "created p pino k name type q m =
     (let pino' = pino\<lparr>vacantFile := vacantFile pino OR push_bit k 1\<rparr>;
          m2 = put_inode p pino' (bitmap_set inode_bm q m);
          m3 = put_block (direct0 pino) (put_entry (get_block m2 (direct0 pino)) k (name @ [0]) (of_nat q)) m2
      in put_inode q (new_inode type q) m3)"

lemma inode_wf_new [simp]: "inode_wf (new_inode type q)"
  by (simp add: new_inode_def inode_wf_def zero_inode_def)

lemma inode_wf_vacant [simp]: "inode_wf (ino\<lparr>vacantFile := v\<rparr>) = inode_wf ino"
  by (simp add: inode_wf_def)

lemma create_entry_created:
  assumes "p < 256" and "inode_wf pino" and "direct0 pino < 65528" and "length data = 1024"
    and "bitmap_ffz (Some inode_bm) m \<noteq> SIZE_MAX"
  shows "create_entry (the_fs h) p pino data k name type m =
    (0, created p pino k name type (bitmap_ffz (Some inode_bm) m) m)"
proof -
  have "bitmap_ffz (Some inode_bm) m < 256" using ino.ffz_found [OF assms(5)] by simp
  with assms show ?thesis
    by (simp add: create_entry_def allocate_inode created_def Let_def put_entry_def c_strcpy_bytes_def)
qed

lemma new_inode_simps [simp]:
  "vacantFile (new_inode type q) = 0" "inodeNumber (new_inode type q) = of_nat q"
  "fileType (new_inode FS_REGULAR q) = ch_r" "fileType (new_inode FS_DIRECTORY q) = ch_d"
  "fileSize (new_inode type q) = 0" "linkCount (new_inode type q) = 1"
  "directPointer (new_inode type q) = replicate 6 0" "indirectPointer (new_inode type q) = 0"
  "doubleIndirectPointer (new_inode type q) = 0"
  by (simp_all add: new_inode_def zero_inode_def)

lemma created_frame:
  fixes m :: mem and type :: file_t
  assumes p: "p < 256" "inode_wf pino" and q: "q < 256" "q \<noteq> p" and b: "17 \<le> direct0 pino" "direct0 pino < 65528"
    and k: "k < 31" "length name < 32"
  defines "m' \<equiv> created p pino k name type q m"
  shows "get_inode m' q = new_inode type q"
    and "get_inode m' p = pino\<lparr>vacantFile := vacantFile pino OR push_bit k 1\<rparr>"
    and "i < 256 \<Longrightarrow> i \<noteq> p \<Longrightarrow> i \<noteq> q \<Longrightarrow> get_inode m' i = get_inode m i"
    and "get_block m' (direct0 pino) = put_entry (get_block m (direct0 pino)) k (name @ [0]) (of_nat q)"
    and "17 \<le> j \<Longrightarrow> j < 65528 \<Longrightarrow> j \<noteq> direct0 pino \<Longrightarrow> get_block m' j = get_block m j"
    and "j < 65528 \<Longrightarrow> bitmap_test whole_bm j m' \<longleftrightarrow> bitmap_test whole_bm j m"
    and "j < 256 \<Longrightarrow> bitmap_test inode_bm j m' \<longleftrightarrow> j = q \<or> bitmap_test inode_bm j m"
proof -
  have blk: "get_block (bitmap_set inode_bm q m) j = get_block m j" if "1 \<le> j" for j
    unfolding get_block_def by (rule bitmap_set_elsewhere) (use q that in auto)
  have ptest: "bitmap_test inode_bm j (put_inode i ino m) = bitmap_test inode_bm j m" if "j < 256" for i ino m j
    by (rule inode_test_put_inode [OF that])
  note s = m'_def created_def Let_def get_put_inode get_inode_put_block get_inode_alloc get_block_put_inode get_put_block
  show "get_inode m' q = new_inode type q" by (simp add: s)
  show "get_inode m' p = pino\<lparr>vacantFile := vacantFile pino OR push_bit k 1\<rparr>" using p q b by (simp add: s)
  show "i < 256 \<Longrightarrow> i \<noteq> p \<Longrightarrow> i \<noteq> q \<Longrightarrow> get_inode m' i = get_inode m i" using p q b by (simp add: s)
  show "get_block m' (direct0 pino) = put_entry (get_block m (direct0 pino)) k (name @ [0]) (of_nat q)"
    using p q b k by (simp add: s blk)
  show "17 \<le> j \<Longrightarrow> j < 65528 \<Longrightarrow> j \<noteq> direct0 pino \<Longrightarrow> get_block m' j = get_block m j"
    using p q b k by (simp add: s blk)
  show "j < 65528 \<Longrightarrow> bitmap_test whole_bm j m' \<longleftrightarrow> bitmap_test whole_bm j m"
    using p q b k by (simp add: m'_def created_def Let_def whole_test_put_inode whole_test_put_block
        bitmap_test_set_other)
  show "j < 256 \<Longrightarrow> bitmap_test inode_bm j m' \<longleftrightarrow> j = q \<or> bitmap_test inode_bm j m"
    using p q b k by (simp add: m'_def created_def Let_def ptest inode_test_put_block bitmap_test_set)
qed

text \<open>What the parent's inode looks like when the entry is about to be made: its own, unless the
  directory was empty and has just been given a block.\<close>

definition parent_ready :: "mem \<Rightarrow> nat \<Rightarrow> inode_t \<Rightarrow> bool" where
  "parent_ready m p pino \<longleftrightarrow> p < 256 \<and> is_dir m p \<and> inode_wf pino \<and> fileType pino = ch_d \<and>
     inodeNumber pino = inodeNumber (get_inode m p) \<and> vacantFile pino = vacantFile (get_inode m p) \<and>
     (vacantFile pino \<noteq> 0 \<longrightarrow> pino = get_inode m p) \<and>
     17 \<le> direct0 pino \<and> direct0 pino < 65528 \<and> bitmap_test whole_bm (direct0 pino) m \<and>
     (\<forall>d<256. d \<noteq> p \<and> is_dir m d \<and> vacantFile (get_inode m d) \<noteq> 0 \<longrightarrow> direct0 (get_inode m d) \<noteq> direct0 pino)"

lemma direct0_vacant [simp]: "directPointer (ino\<lparr>vacantFile := v\<rparr>) = directPointer ino"
  by simp

lemma created_tables:
  fixes m :: mem and type :: file_t
  assumes inv: "fs_inv m" and ready: "parent_ready m p pino" and k: "k < 31" "\<not> bit (vacantFile pino) k"
    and q: "q < 256" "\<not> bitmap_test inode_bm q m"
    and name: "0 \<notin> set name" "length name < 32" "lookup m p name = None"
  defines "m' \<equiv> created p pino k name type q m"
  shows "d < 256 \<Longrightarrow> d \<noteq> q \<Longrightarrow> is_dir m' d \<longleftrightarrow> is_dir m d"
    and "d < 256 \<Longrightarrow> is_dir m d \<Longrightarrow> lookup m' d n = (if d = p \<and> n = name then Some q else lookup m d n)"
    and "lookup m' q n = None" and "fs_inv m'"
proof -
  have p: "p < 256" "is_dir m p" "inode_wf pino" "fileType pino = ch_d" "17 \<le> direct0 pino" "direct0 pino < 65528"
    using ready by (auto simp: parent_ready_def)
  have num: "inodeNumber pino = inodeNumber (get_inode m p)" and v: "vacantFile pino = vacantFile (get_inode m p)"
    using ready by (auto simp: parent_ready_def)
  have dirq: "\<not> is_dir m q" using inv q by (auto simp: fs_inv_def)
  then have qp: "q \<noteq> p" using p by auto
  note fr = created_frame [OF p(1,3) q(1) qp p(5,6) k(1) name(2), where type = type and m = m, folded m'_def]
  have dp: "is_dir m' p" using p fr(2) by (simp add: is_dir_def)
  show dirs: "d < 256 \<Longrightarrow> d \<noteq> q \<Longrightarrow> is_dir m' d \<longleftrightarrow> is_dir m d" for d
    using dp p(2) fr(3) [of d] by (cases "d = p") (simp_all add: is_dir_def)
  show lq: "lookup m' q n = None" for n by (simp add: lookup_def fr(1))
  have ino_d: "get_inode m' d = get_inode m d" if "d < 256" "is_dir m d" "d \<noteq> p" for d
    using fr(3) [of d] that dirq by auto
  have blk_d: "dir_block m' d = dir_block m d"
    if d: "d < 256" "is_dir m d" "d \<noteq> p" "vacantFile (get_inode m d) \<noteq> 0" for d
  proof -
    have "17 \<le> direct0 (get_inode m d)" "direct0 (get_inode m d) < 65528"
      using inv d by (auto simp: fs_inv_def dir_blocks_ok_def)
    moreover have "direct0 (get_inode m d) \<noteq> direct0 pino" using ready d by (auto simp: parent_ready_def)
    ultimately show ?thesis using d by (simp add: dir_block_def ino_d fr(5))
  qed
  have blk_p: "dir_block m' p = put_entry (get_block m (direct0 pino)) k (name @ [0]) (of_nat q)"
    by (simp add: dir_block_def fr(2,4))
  have old: "vacantFile pino \<noteq> 0 \<Longrightarrow> get_block m (direct0 pino) = dir_block m p"
    using ready by (auto simp: parent_ready_def dir_block_def)
  have okp: "dir_ok m p" using inv p by (auto simp: fs_inv_def dirs_ok_def)
  have lk: "lookup m p n = lookup_in (vacantFile pino) (get_block m (direct0 pino)) n" for n
    using v old by (cases "vacantFile pino = 0") (simp_all add: lookup_def)
  have names: "\<forall>j<31. bit (vacantFile pino) j \<longrightarrow> length (entry_name (get_block m (direct0 pino)) j) < 32"
    using okp v old by (cases "vacantFile pino = 0") (auto simp: dir_ok_def dir_used_def)
  have uq: "unat (of_nat q :: uint8_t) = q" using q(1) by (simp add: unat_of_nat)
  have lp: "lookup m' p n = (if n = name then Some q else lookup m p n)" for n
    unfolding lookup_def [of m'] blk_p fr(2) using name k names
    by (simp add: lookup_in_put lk uq del: push_bit_of_1)
  show "d < 256 \<Longrightarrow> is_dir m d \<Longrightarrow> lookup m' d n = (if d = p \<and> n = name then Some q else lookup m d n)"
  proof -
    assume d: "d < 256" "is_dir m d"
    show ?thesis
    proof (cases "d = p")
      case False
      with d ino_d blk_d show ?thesis
        by (cases "vacantFile (get_inode m d) = 0") (simp_all add: lookup_def)
    qed (simp add: lp)
  qed
  have used_p: "dir_used m' p j \<longleftrightarrow> j < 31 \<and> (j = k \<or> bit (vacantFile pino) j)" for j
    using bit_or_push [of j "vacantFile pino" k] by (auto simp: dir_used_def fr(2))
  have n_new: "entry_name (dir_block m' p) k = name"
    unfolding blk_p using entry_name_put_same [OF _ k(1) name(1), of _ "[]"] name(2) by simp
  have n_old: "entry_name (dir_block m' p) j = entry_name (dir_block m p) j"
    if "j < 31" "bit (vacantFile pino) j" for j
  proof -
    have "vacantFile pino \<noteq> 0" "j \<noteq> k" using that k by auto
    then show ?thesis unfolding blk_p using that k(1) name(2) names old
      by (simp add: entry_name_put_other)
  qed
  have n_fresh: "j < 31 \<Longrightarrow> bit (vacantFile pino) j \<Longrightarrow> entry_name (dir_block m p) j \<noteq> name" for j
    using name(3) v by (auto simp: lookup_def lookup_in_def find_None_iff)
  have "dir_ok m' p"
    unfolding dir_ok_def
  proof (intro conjI allI impI)
    show "direct0 (get_inode m' p) \<le> 65528" using p by (simp add: fr(2))
    fix j assume "dir_used m' p j"
    then show "length (entry_name (dir_block m' p) j) < 32"
      using used_p n_new n_old name(2) okp v by (auto simp: dir_ok_def dir_used_def)
  next
    fix i j assume "dir_used m' p i \<and> dir_used m' p j \<and> entry_name (dir_block m' p) i = entry_name (dir_block m' p) j"
    then show "i = j" using used_p n_new n_old n_fresh okp v by (auto simp: dir_ok_def dir_used_def) metis+
  qed
  moreover have "dir_ok m' d" if d: "d < 256" "is_dir m d" "d \<noteq> p" for d
  proof -
    have "dir_ok m d" using inv d by (auto simp: fs_inv_def dirs_ok_def)
    then show ?thesis using ino_d [OF d] blk_d [OF d]
      by (cases "vacantFile (get_inode m d) = 0") (simp_all add: dir_ok_def dir_used_def)
  qed
  moreover have "dir_ok m' q" by (simp add: dir_ok_def dir_used_def fr(1))
  ultimately have "dirs_ok m'" using dirs unfolding dirs_ok_def by metis
  moreover have "ids_ok m'"
    unfolding ids_ok_def
  proof (intro allI impI)
    fix d assume d: "d < 256" "is_dir m' d"
    consider "d = q" | "d = p" | "d \<noteq> q" "d \<noteq> p" by blast
    then show "inodeNumber (get_inode m' d) = of_nat d"
      using d fr(1,2) num inv p dirs [OF d(1)] ino_d [OF d(1)] by cases (auto simp: fs_inv_def ids_ok_def)
  qed
  moreover have "dir_blocks_ok m'"
  proof -
    have vq: "vacantFile (get_inode m' q) = 0" by (simp add: fr(1))
    have old_d: "17 \<le> direct0 (get_inode m d) \<and> direct0 (get_inode m d) < 65528 \<and>
        bitmap_test whole_bm (direct0 (get_inode m d)) m \<and> direct0 (get_inode m d) \<noteq> direct0 pino"
      if "d < 256" "is_dir m d" "d \<noteq> p" "vacantFile (get_inode m d) \<noteq> 0" for d
      using inv ready that by (auto simp: fs_inv_def dir_blocks_ok_def parent_ready_def)
    have inj: "d = e" if "d < 256" "is_dir m d" "d \<noteq> p" "vacantFile (get_inode m d) \<noteq> 0" "e < 256" "is_dir m e" "e \<noteq> p"
        "vacantFile (get_inode m e) \<noteq> 0" "direct0 (get_inode m e) = direct0 (get_inode m d)" for d e
      using inv that unfolding fs_inv_def dir_blocks_ok_def by metis
    have ptr_p: "direct0 (get_inode m' p) = direct0 pino" by (simp add: fr(2))
    have wp: "bitmap_test whole_bm (direct0 pino) m" using ready by (auto simp: parent_ready_def)
    have key: "is_dir m d \<and> d \<noteq> q \<and> (d \<noteq> p \<longrightarrow> get_inode m' d = get_inode m d)"
      if "d < 256" "is_dir m' d" "vacantFile (get_inode m' d) \<noteq> 0" for d
      using that vq dirs [of d] ino_d [of d] by metis
    show ?thesis
      unfolding dir_blocks_ok_def
    proof (intro allI impI conjI; elim conjE)
      fix d assume d: "d < 256" "is_dir m' d" "vacantFile (get_inode m' d) \<noteq> 0"
      note kd = key [OF d]
      show "17 \<le> direct0 (get_inode m' d)" "direct0 (get_inode m' d) < 65528"
        "bitmap_test whole_bm (direct0 (get_inode m' d)) m'"
        using kd d old_d [of d] ptr_p p wp fr(6) by (cases "d = p"; simp)+
      fix e assume e: "e < 256" "is_dir m' e" "vacantFile (get_inode m' e) \<noteq> 0"
        "direct0 (get_inode m' e) = direct0 (get_inode m' d)"
      note ke = key [OF e(1-3)]
      show "e = d"
        using kd ke d e old_d [of d] old_d [of e] ptr_p inj [of d e] by (cases "d = p"; cases "e = p") simp_all
    qed
  qed
  moreover have "is_dir m' 0" using dirs [of 0] inv q dirq by (cases "q = 0") (auto simp: fs_inv_def)
  moreover have "\<forall>b<17. bitmap_test whole_bm b m'" using inv fr(6) by (auto simp: fs_inv_def)
  moreover have "\<forall>i<256. is_dir m' i \<longrightarrow> bitmap_test inode_bm i m'"
    using inv fr(7) dirs by (auto simp: fs_inv_def)
  ultimately show "fs_inv m'" by (simp add: fs_inv_def)
qed

lemma fs_inv_alloc_block:
  assumes "fs_inv m"
  shows "fs_inv (bitmap_set whole_bm b m)" and "i < 256 \<Longrightarrow> is_dir (bitmap_set whole_bm b m) i = is_dir m i"
    and "fs_inv m \<Longrightarrow> i < 256 \<Longrightarrow> is_dir m i \<Longrightarrow> lookup (bitmap_set whole_bm b m) i n = lookup m i n"
proof -
  let ?m = "bitmap_set whole_bm b m"
  show d: "i < 256 \<Longrightarrow> is_dir ?m i = is_dir m i" for i by (simp add: is_dir_def get_inode_alloc)
  have blk: "dir_block ?m i = dir_block m i"
    if "i < 256" "is_dir m i" "vacantFile (get_inode m i) \<noteq> 0" for i
    using assms that by (simp add: dir_block_def get_inode_alloc get_block_alloc fs_inv_def dir_blocks_ok_def)
  show lk: "fs_inv m \<Longrightarrow> i < 256 \<Longrightarrow> is_dir m i \<Longrightarrow> lookup ?m i n = lookup m i n" for i n
    using blk [of i] by (cases "vacantFile (get_inode m i) = 0") (simp_all add: lookup_def get_inode_alloc)
  have "dir_ok ?m i" if "i < 256" "is_dir m i" for i
  proof -
    have "dir_ok m i" using assms that by (auto simp: fs_inv_def dirs_ok_def)
    then show ?thesis using that blk [of i]
      by (cases "vacantFile (get_inode m i) = 0") (simp_all add: dir_ok_def dir_used_def get_inode_alloc)
  qed
  then have "dirs_ok ?m" using d by (auto simp: dirs_ok_def)
  moreover have "dir_blocks_ok ?m"
    using assms d unfolding fs_inv_def dir_blocks_ok_def by (simp add: get_inode_alloc bitmap_test_set)
  moreover have "ids_ok ?m" using assms d unfolding fs_inv_def ids_ok_def by (simp add: get_inode_alloc)
  moreover have "bitmap_test inode_bm i ?m = bitmap_test inode_bm i m" if "i < 256" for i
    using that by (intro bitmap_test_set_other) simp
  ultimately show "fs_inv ?m" using assms d unfolding fs_inv_def by (simp add: bitmap_test_set)
qed

lemma ffz_whole_free:
  assumes "\<exists>b<65528. \<not> bitmap_test whole_bm b m" and "\<forall>b<17. bitmap_test whole_bm b m"
  shows "bitmap_ffz (Some whole_bm) m < 65528" "\<not> bitmap_test whole_bm (bitmap_ffz (Some whole_bm) m) m"
    "17 \<le> bitmap_ffz (Some whole_bm) m"
proof -
  have "bitmap_ffz (Some whole_bm) m \<noteq> SIZE_MAX" using assms(1) whole.ffz_full by auto
  from whole.ffz_found [OF this] assms(2) show "bitmap_ffz (Some whole_bm) m < 65528"
    "\<not> bitmap_test whole_bm (bitmap_ffz (Some whole_bm) m) m" "17 \<le> bitmap_ffz (Some whole_bm) m"
    by (auto simp: not_less [symmetric])
qed

lemma ffz_inode_free:
  assumes "\<exists>i<256. \<not> bitmap_test inode_bm i m"
  shows "bitmap_ffz (Some inode_bm) m \<noteq> SIZE_MAX" "bitmap_ffz (Some inode_bm) m < 256"
    "\<not> bitmap_test inode_bm (bitmap_ffz (Some inode_bm) m) m"
proof -
  show ne: "bitmap_ffz (Some inode_bm) m \<noteq> SIZE_MAX" using assms ino.ffz_full by auto
  from ino.ffz_found [OF this] show "bitmap_ffz (Some inode_bm) m < 256"
    "\<not> bitmap_test inode_bm (bitmap_ffz (Some inode_bm) m) m" by auto
qed

text \<open>The state in which the entry is made: with a fresh block when entry 0 is vacant.\<close>

definition create_base :: "nat \<Rightarrow> mem \<Rightarrow> mem" where
  "create_base p m = (if vacant_loop (vacantFile (get_inode m p)) 0 = 0
                      then bitmap_set whole_bm (bitmap_ffz (Some whole_bm) m) m else m)"

definition create_parent :: "nat \<Rightarrow> mem \<Rightarrow> inode_t" where
  "create_parent p m = (let pino = get_inode m p in
     if vacant_loop (vacantFile pino) 0 = 0
     then pino\<lparr>directPointer := (directPointer pino)[0 := of_nat (bitmap_ffz (Some whole_bm) m)]\<rparr> else pino)"

lemma directPointer_length [simp]: "length (directPointer (get_inode m i)) = 6"
  using inode_wf_get [of m i] by (simp add: inode_wf_def del: inode_wf_get)

lemma create_parent_simps [simp]:
  "inode_wf (create_parent p m)" "vacantFile (create_parent p m) = vacantFile (get_inode m p)"
  "fileType (create_parent p m) = fileType (get_inode m p)"
  "inodeNumber (create_parent p m) = inodeNumber (get_inode m p)"
  using inode_wf_get [of m p]
  by (simp_all add: create_parent_def Let_def inode_wf_def del: inode_wf_get)

definition block_available :: "nat \<Rightarrow> mem \<Rightarrow> bool" where
  "block_available p m \<longleftrightarrow> (vacant_loop (vacantFile (get_inode m p)) 0 = 0 \<longrightarrow> (\<exists>b<65528. \<not> bitmap_test whole_bm b m))"

lemma create_parent_direct0:
  assumes "fs_inv m" and "p < 256" and "is_dir m p" and "block_available p m"
  shows "17 \<le> direct0 (create_parent p m)" "direct0 (create_parent p m) < 65528"
proof -
  have *: "17 \<le> direct0 (create_parent p m) \<and> direct0 (create_parent p m) < 65528"
  proof (cases "vacant_loop (vacantFile (get_inode m p)) 0 = 0")
    case True
    with assms ffz_whole_free [of m] show ?thesis
      by (auto simp: create_parent_def Let_def block_available_def fs_inv_def unat_of_nat)
  next
    case False
    then have "vacantFile (get_inode m p) \<noteq> 0"
      using vacant_loop_spec [of 0 "vacantFile (get_inode m p)"] by (metis bit_0_eq bot_apply bot_nat_0.not_eq_extremum less_imp_le_nat order_refl bot_bool_def)
    with False assms show ?thesis by (auto simp: create_parent_def Let_def fs_inv_def dir_blocks_ok_def)
  qed
  then show "17 \<le> direct0 (create_parent p m)" "direct0 (create_parent p m) < 65528" by auto
qed

lemma create_ready:
  assumes inv: "fs_inv m" and p: "p < 256" "is_dir m p" and dense: "dense m" and av: "block_available p m"
  shows "parent_ready (create_base p m) p (create_parent p m)"
proof (cases "vacant_loop (vacantFile (get_inode m p)) 0 = 0")
  case True
  then have "\<not> bit (vacantFile (get_inode m p)) 0" using vacant_loop_spec [of 0 "vacantFile (get_inode m p)"] by auto
  with dense p have v: "vacantFile (get_inode m p) = 0" by (auto simp: dense_def dir_used_def)
  let ?b = "bitmap_ffz (Some whole_bm) m"
  have b: "?b < 65528" "\<not> bitmap_test whole_bm ?b m" "17 \<le> ?b"
    using ffz_whole_free [of m] av inv True by (auto simp: block_available_def fs_inv_def)
  have d0: "direct0 (create_parent p m) = ?b" using True b by (simp add: create_parent_def Let_def unat_of_nat)
  have base: "create_base p m = bitmap_set whole_bm ?b m" using True by (simp add: create_base_def)
  have ino: "get_inode (bitmap_set whole_bm ?b m) d = get_inode m d" if "d < 256" for d
    using that by (rule get_inode_alloc)
  have dir: "is_dir (bitmap_set whole_bm ?b m) d = is_dir m d" if "d < 256" for d
    using that by (rule fs_inv_alloc_block(2) [OF inv])
  have "\<forall>d<256. d \<noteq> p \<and> is_dir (bitmap_set whole_bm ?b m) d \<and>
      vacantFile (get_inode (bitmap_set whole_bm ?b m) d) \<noteq> 0 \<longrightarrow>
      direct0 (get_inode (bitmap_set whole_bm ?b m) d) \<noteq> ?b"
  proof (intro allI impI; elim conjE)
    fix d assume "d < 256" "is_dir (bitmap_set whole_bm ?b m) d"
      "vacantFile (get_inode (bitmap_set whole_bm ?b m) d) \<noteq> 0"
    then have d: "d < 256" "is_dir m d" "vacantFile (get_inode m d) \<noteq> 0" by (simp_all add: dir ino)
    then have "bitmap_test whole_bm (direct0 (get_inode m d)) m"
      using inv by (simp add: fs_inv_def dir_blocks_ok_def)
    with b(2) d show "direct0 (get_inode (bitmap_set whole_bm ?b m) d) \<noteq> ?b" by (metis ino)
  qed
  then show ?thesis
    unfolding parent_ready_def base d0
  proof (intro conjI)
    show "fileType (create_parent p m) = ch_d" using p(2) by (simp add: is_dir_def)
    show "bitmap_test whole_bm ?b (bitmap_set whole_bm ?b m)" by (simp add: bitmap_test_set)
    show "is_dir (bitmap_set whole_bm ?b m) p" using p dir by simp
  qed (simp_all add: p(1) v b ino)
next
  case False
  then have "bit (vacantFile (get_inode m p)) 0" using vacant_loop_spec [of 0 "vacantFile (get_inode m p)"] by auto
  then have v: "vacantFile (get_inode m p) \<noteq> 0" by auto
  with False inv p show ?thesis
    by (auto simp: parent_ready_def create_base_def create_parent_def Let_def fs_inv_def dir_blocks_ok_def is_dir_def)
qed

lemma vacant_loop_room:
  assumes "\<exists>j<31. \<not> dir_used m p j"
  defines "k \<equiv> vacant_loop (vacantFile (get_inode m p)) 0"
  shows "k < 31" "\<not> bit (vacantFile (get_inode m p)) k"
proof -
  have l: "k \<le> 31" "\<forall>j<k. bit (vacantFile (get_inode m p)) j" "k < 31 \<longrightarrow> \<not> bit (vacantFile (get_inode m p)) k"
    using vacant_loop_spec [of 0 "vacantFile (get_inode m p)"] by (simp_all add: k_def)
  obtain j where "j < 31" "\<not> bit (vacantFile (get_inode m p)) j" using assms(1) by (auto simp: dir_used_def)
  then have "k \<noteq> 31" using l(2) by auto
  then show "k < 31" "\<not> bit (vacantFile (get_inode m p)) k" using l by simp_all
qed

text \<open>The call, as far as the file system is consistent: it makes the entry in that state.\<close>

lemma fs_create_enters:
  assumes inv: "fs_inv m" and ct: "checked_tokens path = Some (tokens, cnt)" and nul: "0 \<notin> set path"
    and ty: "type = FS_REGULAR \<or> type = FS_DIRECTORY"
    and p: "resolve m 0 (butlast tokens) = Some p" "is_dir m p" and fresh: "lookup m p (last tokens) = None"
    and room: "\<exists>j<31. \<not> dir_used m p j" and av: "block_available p m"
  shows "\<exists>data. length data = 1024 \<and> fs_create (Some (the_fs h)) (Some path) type m =
    Some (create_entry (the_fs h) p (create_parent p m) data (vacant_loop (vacantFile (get_inode m p)) 0) (last tokens)
      type (create_base p m))"
proof -
  note t = checked_tokens_Some [OF ct]
  have ne: "tokens \<noteq> []" using t by auto
  have bl: "take (cnt - 1) tokens = butlast tokens" "tokens ! (cnt - 1) = last tokens" "length (butlast tokens) = cnt - 1"
    using t ne by (simp_all add: butlast_conv_take last_conv_nth)
  have nn: "\<forall>n \<in> set (butlast tokens). 0 \<notin> set n" "0 \<notin> set (last tokens)"
    using checked_tokens_no_nul [OF ct nul] ne by (auto dest: in_set_butlastD)
  have dok: "dirs_ok m" using inv by (simp add: fs_inv_def)
  note w = walk_resolve [OF dok nn(1), where h = h]
  let ?w = "walk (the_fs h) m (butlast tokens)"
  have pw: "walk_inode_ID ?w = p" "walk_indicator ?w = cnt - 1" "inode_wf (walk_parent_inode ?w)"
      "length (walk_parent_data ?w) = 1024"
    using w p(1) bl by (auto simp: walk_good_def)
  have p256: "p < 256" using resolve_bound [OF _ p(1)] by simp
  have pok: "dir_ok m p" using dok p256 p(2) by (simp add: dirs_ok_def)
  obtain data where nt: "name_taken (the_fs h) m (get_inode m p) (walk_parent_data ?w) (last tokens) = (False, data)"
      "length data = 1024"
    using name_taken_lookup [OF pok nn(2) pw(4), where h = h] fresh by (metis prod.exhaust_sel)
  let ?k = "vacant_loop (vacantFile (get_inode m p)) 0"
  note k = vacant_loop_room(1) [OF room]
  have step: "parent_block (the_fs h) (get_inode m p) ?k m = (Some (create_parent p m), create_base p m)"
  proof (cases "?k = 0")
    case True
    with av inv ffz_whole_free [of m] have "bitmap_ffz (Some whole_bm) m < 65528"
      by (auto simp: block_available_def fs_inv_def)
    with True show ?thesis by (simp add: parent_block_def allocate_whole create_parent_def create_base_def Let_def)
  qed (simp add: parent_block_def create_parent_def create_base_def)
  have rd: "read_inode (Some inode_store) p (walk_parent_inode ?w) m = (64, get_inode m p)"
    using pw p256 by simp
  have path: "path \<noteq> []" "\<not> \<not> path_safe 65535 path" using checked_tokens_safe [OF ct] by simp_all
  have guard: "Some (the_fs h) \<noteq> None \<and> Some path \<noteq> None \<and> length (the (Some path)) \<noteq> 0 \<and>
      (type = FS_REGULAR \<or> type = FS_DIRECTORY)" using ty path(1) by simp
  have here: "walk_indicator ?w = cnt - 1 \<and> fileType (get_inode m p) = ch_d" using pw p(2) by (simp add: is_dir_def)
  have "fs_create (Some (the_fs h)) (Some path) type m =
      Some (create_entry (the_fs h) p (create_parent p m) data ?k (last tokens) type (create_base p m))"
    unfolding fs_create_def option.sel Let_def if_not_P [OF path(2)] ct option.case prod.case bl pw the_fs_simps rd snd_conv
    unfolding nt prod.case if_False step option.case prod.case if_P [OF k]
    using ty path(1) here by simp
  with nt(2) show ?thesis by blast
qed

lemma fs_create_unfold:
  assumes inv: "fs_inv m" and ct: "checked_tokens path = Some (tokens, cnt)" and nul: "0 \<notin> set path"
    and ty: "type = FS_REGULAR \<or> type = FS_DIRECTORY"
    and p: "resolve m 0 (butlast tokens) = Some p" "is_dir m p" and fresh: "lookup m p (last tokens) = None"
    and room: "\<exists>j<31. \<not> dir_used m p j" and free: "\<exists>i<256. \<not> bitmap_test inode_bm i m"
    and av: "block_available p m"
  shows "fs_create (Some (the_fs h)) (Some path) type m =
    Some (0, created p (create_parent p m) (vacant_loop (vacantFile (get_inode m p)) 0) (last tokens) type
          (bitmap_ffz (Some inode_bm) (create_base p m)) (create_base p m))"
proof -
  obtain data where data: "length data = 1024" "fs_create (Some (the_fs h)) (Some path) type m =
      Some (create_entry (the_fs h) p (create_parent p m) data (vacant_loop (vacantFile (get_inode m p)) 0) (last tokens)
        type (create_base p m))"
    using fs_create_enters [OF inv ct nul ty p fresh room av, where h = h] by blast
  have p256: "p < 256" using resolve_bound [OF _ p(1)] by simp
  have fr: "\<exists>i<256. \<not> bitmap_test inode_bm i (create_base p m)"
    using free by (auto simp: create_base_def bitmap_test_set_other)
  show ?thesis
    unfolding data(2) using p256 create_parent_direct0 [OF inv p256 p(2) av] data(1) ffz_inode_free [OF fr]
    by (intro arg_cong [where f = Some] create_entry_created) simp_all
qed

lemma create_base_inv:
  assumes "fs_inv m"
  shows "fs_inv (create_base p m)" and "i < 256 \<Longrightarrow> get_inode (create_base p m) i = get_inode m i"
    and "i < 256 \<Longrightarrow> is_dir (create_base p m) i = is_dir m i"
    and "i < 256 \<Longrightarrow> is_dir m i \<Longrightarrow> lookup (create_base p m) i n = lookup m i n"
    and "i < 256 \<Longrightarrow> bitmap_test inode_bm i (create_base p m) = bitmap_test inode_bm i m"
  using fs_inv_alloc_block [OF assms] assms
  by (simp_all add: create_base_def get_inode_alloc bitmap_test_set_other)

text \<open>A successful creation, in terms of the name tables.\<close>

definition create_effect :: "mem \<Rightarrow> nat \<Rightarrow> cstring \<Rightarrow> file_t \<Rightarrow> nat \<Rightarrow> mem \<Rightarrow> bool" where
  "create_effect m p name type q m' \<longleftrightarrow> fs_inv m' \<and> dense m' \<and> q < 256 \<and> \<not> bitmap_test inode_bm q m \<and>
     get_inode m' q = new_inode type q \<and>
     (\<forall>i<256. bitmap_test inode_bm i m' \<longleftrightarrow> i = q \<or> bitmap_test inode_bm i m) \<and>
     (\<forall>d<256. d \<noteq> q \<longrightarrow> (is_dir m' d \<longleftrightarrow> is_dir m d)) \<and>
     (\<forall>d<256. is_dir m d \<longrightarrow> (\<forall>n. lookup m' d n = (if d = p \<and> n = name then Some q else lookup m d n))) \<and>
     (\<forall>n. lookup m' q n = None) \<and> (\<forall>ob. ob \<noteq> Image \<longrightarrow> m' ob = m ob)"

lemma created_objects:
  "ob \<noteq> Image \<Longrightarrow> created p pino k name type q (create_base p m) ob = m ob"
  by (simp add: created_def create_base_def Let_def put_inode_def put_block_def bitmap_set_def bitmap_byte_def
      mwrite_def)

lemma create_effect_created:
  assumes inv: "fs_inv m" and dense: "dense m" and p: "p < 256" "is_dir m p"
    and name: "0 \<notin> set name" "length name < 32" and fresh: "lookup m p name = None"
    and room: "\<exists>j<31. \<not> dir_used m p j" and free: "\<exists>i<256. \<not> bitmap_test inode_bm i m"
    and av: "block_available p m"
  defines "m1 \<equiv> create_base p m" and "k \<equiv> vacant_loop (vacantFile (get_inode m p)) 0"
  defines "q \<equiv> bitmap_ffz (Some inode_bm) m1"
  shows "create_effect m p name type q (created p (create_parent p m) k name type q m1)"
proof -
  note base = create_base_inv [OF inv, where p = p, folded m1_def]
  let ?pino = "create_parent p m"
  let ?m' = "created p ?pino k name type q m1"
  have k: "k < 31" "\<not> bit (vacantFile ?pino) k"
    unfolding create_parent_simps k_def by (rule vacant_loop_room [OF room])+
  have q: "q < 256" "\<not> bitmap_test inode_bm q m1"
    using ffz_inode_free [of m1] free base(5) by (auto simp: q_def)
  have ready: "parent_ready m1 p ?pino" unfolding m1_def using create_ready [OF inv p dense av] .
  have fresh1: "lookup m1 p name = None" using fresh base(4) p by simp
  note tab = created_tables [OF base(1) ready k q name fresh1, where type = type]
  have qd: "\<not> is_dir m q" using inv q base(5) by (auto simp: fs_inv_def)
  then have qp: "q \<noteq> p" using p by auto
  note fr = created_frame [OF p(1) _ q(1) qp _ _ k(1) name(2), of ?pino, OF _ create_parent_direct0 [OF inv p av],
      where m = m1 and type = type]
  have wf: "inode_wf ?pino" by simp
  have "dense ?m'"
    unfolding dense_def
  proof (intro allI impI)
    fix i assume i: "i < 256" "is_dir ?m' i"
    consider "i = q" | "i = p" "i \<noteq> q" | "i \<noteq> p" "i \<noteq> q" by blast
    then show "vacantFile (get_inode ?m' i) = 0 \<or> dir_used ?m' i 0"
    proof cases
      case 1
      then show ?thesis using fr(1) [OF wf] by simp
    next
      case 2
      have "k = 0 \<or> bit (vacantFile ?pino) 0"
        using vacant_loop_spec [of 0 "vacantFile (get_inode m p)"] by (auto simp: k_def)
      then have "bit (vacantFile ?pino OR push_bit k 1) 0" using bit_or_push [of 0 "vacantFile ?pino" k] by auto
      then show ?thesis using 2 fr(2) [OF wf] by (simp add: dir_used_def)
    next
      case 3
      then have "is_dir m i" using i tab(1) base(3) by blast
      then show ?thesis using 3 i fr(3) [OF wf, of i] base(2) [of i] dense by (simp add: dense_def dir_used_def)
    qed
  qed
  moreover have "\<forall>d<256. is_dir m d \<longrightarrow> (\<forall>n. lookup ?m' d n = (if d = p \<and> n = name then Some q else lookup m d n))"
    using tab(2) base(3,4) by simp
  ultimately show ?thesis
    unfolding create_effect_def
    using tab(1,3,4) fr(1,7) [OF wf] q base(3,5) created_objects unfolding m1_def by blast
qed

lemma valid_last:
  assumes "checked_tokens path = Some (tokens, cnt)" and "0 \<notin> set path"
  shows "tokens \<noteq> []" "0 \<notin> set (last tokens)" "length (last tokens) < 32"
proof -
  show ne: "tokens \<noteq> []" using checked_tokens_Some [OF assms(1)] by auto
  then have "last tokens \<in> set tokens" by simp
  then show "0 \<notin> set (last tokens)" "length (last tokens) < 32"
    using checked_tokens_no_nul [OF assms] checked_tokens_Some(4) [OF assms(1)] valid_name_length by blast+
qed

definition create_possible :: "mem \<Rightarrow> cstring list \<Rightarrow> nat \<Rightarrow> bool" where
  "create_possible m tokens p \<longleftrightarrow> resolve m 0 (butlast tokens) = Some p \<and> is_dir m p \<and>
     lookup m p (last tokens) = None \<and> (\<exists>j<31. \<not> dir_used m p j) \<and> (\<exists>i<256. \<not> bitmap_test inode_bm i m) \<and>
     block_available p m"

lemma fs_create_effect:
  assumes inv: "fs_inv m" and dense: "dense m" and ct: "checked_tokens path = Some (tokens, cnt)" and nul: "0 \<notin> set path"
    and ty: "type = FS_REGULAR \<or> type = FS_DIRECTORY" and poss: "create_possible m tokens p"
  shows "\<exists>q m'. fs_create (Some (the_fs h)) (Some path) type m = Some (0, m') \<and> create_effect m p (last tokens) type q m'"
proof -
  have p: "resolve m 0 (butlast tokens) = Some p" "is_dir m p" "lookup m p (last tokens) = None"
    "\<exists>j<31. \<not> dir_used m p j" "\<exists>i<256. \<not> bitmap_test inode_bm i m" "block_available p m"
    using poss by (simp_all add: create_possible_def)
  have p256: "p < 256" using resolve_bound [OF _ p(1)] by simp
  show ?thesis
    using fs_create_unfold [OF inv ct nul ty p, where h = h]
      create_effect_created [OF inv dense p256 p(2) valid_last(2,3) [OF ct nul] p(3-6), where type = type]
    by blast
qed

text \<open>What a creation does to the blocks: at most one is taken, for the parent directory, and only
  that one changes.\<close>

definition create_blocks :: "mem \<Rightarrow> nat \<Rightarrow> nat \<Rightarrow> mem \<Rightarrow> bool" where
  "create_blocks m p q m' \<longleftrightarrow> (let b = direct0 (get_inode m' p) in
     17 \<le> b \<and> b < 65528 \<and>
     (if vacantFile (get_inode m p) = 0 then \<not> bitmap_test whole_bm b m else b = direct0 (get_inode m p)) \<and>
     (\<forall>j<65528. bitmap_test whole_bm j m' \<longleftrightarrow> bitmap_test whole_bm j m \<or> j = b) \<and>
     (\<forall>j<65528. 17 \<le> j \<and> j \<noteq> b \<longrightarrow> get_block m' j = get_block m j) \<and>
     (\<forall>i<256. i \<noteq> p \<and> i \<noteq> q \<longrightarrow> get_inode m' i = get_inode m i) \<and> vacantFile (get_inode m' p) \<noteq> 0)"

lemma create_blocks_created:
  assumes inv: "fs_inv m" and dense: "dense m" and p: "p < 256" "is_dir m p"
    and name: "length name < 32" and room: "\<exists>j<31. \<not> dir_used m p j" and free: "\<exists>i<256. \<not> bitmap_test inode_bm i m"
    and av: "block_available p m"
  defines "m1 \<equiv> create_base p m" and "k \<equiv> vacant_loop (vacantFile (get_inode m p)) 0"
  defines "q \<equiv> bitmap_ffz (Some inode_bm) m1"
  shows "create_blocks m p q (created p (create_parent p m) k name type q m1)"
proof -
  note base = create_base_inv [OF inv, where p = p, folded m1_def]
  let ?pino = "create_parent p m"
  let ?m' = "created p ?pino k name type q m1"
  have k: "k < 31" "\<not> bit (vacantFile (get_inode m p)) k" unfolding k_def by (rule vacant_loop_room [OF room])+
  have q: "q < 256" "\<not> bitmap_test inode_bm q m1" using ffz_inode_free [of m1] free base(5) by (auto simp: q_def)
  have "\<not> is_dir m q" using inv q base(5) by (auto simp: fs_inv_def)
  then have qp: "q \<noteq> p" using p by auto
  note d0 = create_parent_direct0 [OF inv p av]
  note fr = created_frame [OF p(1) create_parent_simps(1) q(1) qp d0 k(1) name, where m = m1 and type = type]
  let ?b = "direct0 ?pino"
  have b: "direct0 (get_inode ?m' p) = ?b" by (simp add: fr(2))
  have m1: "(if vacantFile (get_inode m p) = 0 then \<not> bitmap_test whole_bm ?b m else ?b = direct0 (get_inode m p)) \<and>
      (\<forall>j<65528. bitmap_test whole_bm j m1 \<longleftrightarrow> bitmap_test whole_bm j m \<or> j = ?b) \<and>
      (\<forall>j<65528. get_block m1 j = get_block m j)"
  proof (cases "k = 0")
    case True
    then have v: "vacantFile (get_inode m p) = 0" using k(2) dense p by (auto simp: dense_def dir_used_def)
    have "\<exists>b<65528. \<not> bitmap_test whole_bm b m" "\<forall>b<17. bitmap_test whole_bm b m"
      using av inv True by (simp_all add: block_available_def k_def fs_inv_def)
    note b = ffz_whole_free [OF this]
    have pb: "?b = bitmap_ffz (Some whole_bm) m"
      using True b(1) by (simp add: create_parent_def Let_def unat_of_nat k_def)
    have "m1 = bitmap_set whole_bm ?b m" using True unfolding pb by (simp add: m1_def create_base_def k_def)
    then show ?thesis using v b(2) unfolding pb by (auto simp: bitmap_test_set get_block_alloc)
  next
    case False
    then have "bit (vacantFile (get_inode m p)) 0"
      using vacant_loop_spec [of 0 "vacantFile (get_inode m p)"] by (auto simp: k_def)
    then have v: "vacantFile (get_inode m p) \<noteq> 0" by auto
    have pp: "?b = direct0 (get_inode m p)" using False by (simp add: create_parent_def Let_def k_def)
    have "bitmap_test whole_bm ?b m" using inv p v pp by (auto simp: fs_inv_def dir_blocks_ok_def)
    then show ?thesis using False v pp by (auto simp: create_base_def m1_def k_def)
  qed
  have v': "vacantFile (get_inode ?m' p) \<noteq> 0"
  proof -
    have "bit (vacantFile (get_inode ?m' p)) k" using k(1) bit_or_push [of k "vacantFile ?pino" k] by (simp add: fr(2))
    then show ?thesis by auto
  qed
  show ?thesis
    unfolding create_blocks_def Let_def b
  proof (intro conjI)
    show "\<forall>j<65528. bitmap_test whole_bm j ?m' \<longleftrightarrow> bitmap_test whole_bm j m \<or> j = ?b" using m1 fr(6) by blast
    show "\<forall>j<65528. 17 \<le> j \<and> j \<noteq> ?b \<longrightarrow> get_block ?m' j = get_block m j" using m1 fr(5) by metis
    show "\<forall>i<256. i \<noteq> p \<and> i \<noteq> q \<longrightarrow> get_inode ?m' i = get_inode m i" using fr(3) base(2) by metis
  qed (use d0 m1 v' in blast)+
qed

lemma fs_create_effect_blocks:
  assumes inv: "fs_inv m" and dense: "dense m" and ct: "checked_tokens path = Some (tokens, cnt)" and nul: "0 \<notin> set path"
    and ty: "type = FS_REGULAR \<or> type = FS_DIRECTORY" and poss: "create_possible m tokens p"
  shows "\<exists>q m'. fs_create (Some (the_fs h)) (Some path) type m = Some (0, m') \<and> create_effect m p (last tokens) type q m' \<and>
    create_blocks m p q m'"
proof -
  have p: "resolve m 0 (butlast tokens) = Some p" "is_dir m p" "lookup m p (last tokens) = None"
    "\<exists>j<31. \<not> dir_used m p j" "\<exists>i<256. \<not> bitmap_test inode_bm i m" "block_available p m"
    using poss by (simp_all add: create_possible_def)
  have p256: "p < 256" using resolve_bound [OF _ p(1)] by simp
  show ?thesis
    using fs_create_unfold [OF inv ct nul ty p, where h = h]
      create_effect_created [OF inv dense p256 p(2) valid_last(2,3) [OF ct nul] p(3-6), where type = type]
      create_blocks_created [OF inv dense p256 p(2) valid_last(3) [OF ct nul] p(4-6), where type = type]
    by blast
qed
lemma create_effect_resolve:
  assumes inv: "fs_inv m" and eff: "create_effect m p name type q m'"
    and p: "p < 256" "is_dir m p" and fresh: "lookup m p name = None"
  shows "i < 256 \<Longrightarrow> resolve m i ts = Some x \<Longrightarrow> resolve m' i ts = Some x"
    and "resolve m 0 ts = Some p \<Longrightarrow> resolve m' 0 (ts @ [name]) = Some q"
proof -
  have qd: "\<not> is_dir m q" using eff inv by (auto simp: create_effect_def fs_inv_def)
  have dirs: "is_dir m' d" if "d < 256" "is_dir m d" for d using eff that qd by (auto simp: create_effect_def)
  have lk: "lookup m' d n = (if d = p \<and> n = name then Some q else lookup m d n)" if "d < 256" "is_dir m d" for d n
    using eff that by (auto simp: create_effect_def)
  show mono: "i < 256 \<Longrightarrow> resolve m i ts = Some x \<Longrightarrow> resolve m' i ts = Some x" for i ts x
    using fresh by (intro resolve_mono [of m m']) (auto simp: dirs lk)
  show "resolve m 0 ts = Some p \<Longrightarrow> resolve m' 0 (ts @ [name]) = Some q"
    using mono [of 0 ts p] dirs [OF p] lk [OF p, of name] by (simp add: resolve_append)
qed

section \<open>\<^verbatim>\<open>fs_create\<close> refuses\<close>

lemma fs_create_refuses:
  assumes inv: "fs_inv m" and nul: "0 \<notin> set path"
    and why: "path_safe 65535 path \<and> checked_tokens path = None \<or>
      (\<exists>tokens cnt. checked_tokens path = Some (tokens, cnt) \<and>
        (case resolve m 0 (butlast tokens) of
           None \<Rightarrow> True
         | Some p \<Rightarrow> \<not> is_dir m p \<or> lookup m p (last tokens) \<noteq> None \<or> (\<forall>j<31. dir_used m p j)))"
  shows "fs_create (Some (the_fs h)) (Some path) type m = Some (-1, m)"
proof (cases "path \<noteq> [] \<and> (type = FS_REGULAR \<or> type = FS_DIRECTORY) \<and> checked_tokens path \<noteq> None")
  case False
  then consider "path = []" | "\<not> (type = FS_REGULAR \<or> type = FS_DIRECTORY)" | "checked_tokens path = None" "path_safe 65535 path"
    using why by blast
  then show ?thesis by cases (simp_all add: fs_create_def)
next
  case True
  then obtain tokens cnt where ct: "checked_tokens path = Some (tokens, cnt)" by auto
  note safe = checked_tokens_safe [OF ct] and t = checked_tokens_Some [OF ct]
  have ne: "tokens \<noteq> []" using t by auto
  have bl: "take (cnt - 1) tokens = butlast tokens" "tokens ! (cnt - 1) = last tokens" "length (butlast tokens) = cnt - 1"
    using t ne by (simp_all add: butlast_conv_take last_conv_nth)
  have nn: "\<forall>n \<in> set (butlast tokens). 0 \<notin> set n" "0 \<notin> set (last tokens)"
    using checked_tokens_no_nul [OF ct nul] ne by (auto dest: in_set_butlastD)
  have dok: "dirs_ok m" using inv by (simp add: fs_inv_def)
  note w = walk_resolve [OF dok nn(1), where h = h]
  let ?w = "walk (the_fs h) m (butlast tokens)"
  show ?thesis
  proof (cases "resolve m 0 (butlast tokens)")
    case None
    then have "walk_indicator ?w \<noteq> cnt - 1" using w(1) bl(3) by auto
    then show ?thesis unfolding fs_create_def using True by (simp add: safe ct bl Let_def del: One_nat_def)
  next
    case (Some p)
    then have pw: "walk_indicator ?w = cnt - 1" "walk_inode_ID ?w = p" using w(1,2) bl(3) by auto
    have p: "p < 256" using resolve_bound [OF _ Some] by simp
    have good: "inode_wf (walk_parent_inode ?w)" "length (walk_parent_data ?w) = 1024"
      using w(3) by (auto simp: walk_good_def)
    have rd: "read_inode (Some inode_store) p (walk_parent_inode ?w) m = (64, get_inode m p)" using good p by simp
    have reason: "\<not> is_dir m p \<or> lookup m p (last tokens) \<noteq> None \<or> (\<forall>j<31. dir_used m p j)"
      using why ct Some by auto
    show ?thesis
    proof (cases "is_dir m p")
      case False
      then show ?thesis unfolding fs_create_def using True
        by (simp add: safe ct bl Let_def pw rd is_dir_def del: One_nat_def read_inode_store)
    next
      case dir: True
      then have pok: "dir_ok m p" using dok p by (simp add: dirs_ok_def)
      obtain taken data where nt: "name_taken (the_fs h) m (get_inode m p) (walk_parent_data ?w) (last tokens) = (taken, data)"
        "taken \<longleftrightarrow> lookup m p (last tokens) \<noteq> None"
        using name_taken_lookup [OF pok nn(2) good(2), where h = h] by (metis prod.exhaust_sel)
      have full: "vacant_loop (vacantFile (get_inode m p)) 0 = 31" if "\<forall>j<31. dir_used m p j"
        using vacant_loop_spec [of 0 "vacantFile (get_inode m p)"] that
        by (metis dir_used_def le_neq_implies_less zero_le)
      from reason dir nt(2) consider "taken" | "\<not> taken" "\<forall>j<31. dir_used m p j" by blast
      then show ?thesis
      proof cases
        case 1
        then show ?thesis unfolding fs_create_def using True
          by (simp add: safe ct bl Let_def pw rd nt(1) del: One_nat_def read_inode_store)
      next
        case 2
        then show ?thesis unfolding fs_create_def using True
          by (simp add: safe ct bl Let_def pw rd nt(1) full parent_block_def del: One_nat_def read_inode_store)
      qed
    qed
  qed
qed

section \<open>An example\<close>

lemma example_tokens:
  "checked_tokens (str ''/a'') = Some ([str ''a''], 1)" "0 \<notin> set (str ''/a'')" "0 \<notin> set (str ''a'')"
  "checked_tokens (str ''/b'') = Some ([str ''b''], 1)" "0 \<notin> set (str ''/b'')"
  "checked_tokens (str ''/a!'') = None" "0 \<notin> set (str ''/a!'')"
  by (simp_all add: checked_tokens_str) code_simp+

lemma formatted_create_possible: "create_possible formatted [name] 0"
proof -
  have "\<exists>i<256. \<not> bitmap_test inode_bm i formatted" using formatted_simps(6) [of 1] by (intro exI [of _ 1]) simp
  moreover have "\<exists>b<65528. \<not> bitmap_test whole_bm b formatted"
    using formatted_simps(7) [of 17] by (intro exI [of _ 17]) simp
  ultimately show ?thesis
    using formatted_simps(2-4) by (simp add: create_possible_def block_available_def)
      (intro exI [of _ 0], simp)
qed

text \<open>A directory whose first entry has been removed and whose second is in use.\<close>

definition holed :: mem where
  "holed = put_inode 0 (root_inode\<lparr>vacantFile := 2, directPointer := [17, 0, 0, 0, 0, 0]\<rparr>)
     (bitmap_set whole_bm 17 (put_block 17 (put_entry zero_block 1 (str ''b'' @ [0]) 5) formatted))"

lemma inode_wf_holed: "inode_wf (root_inode\<lparr>vacantFile := 2, directPointer := [17, 0, 0, 0, 0, 0]\<rparr>)"
  using inode_wf_root by (simp add: inode_wf_def)

lemma holed_simps:
  "get_inode holed 0 = root_inode\<lparr>vacantFile := 2, directPointer := [17, 0, 0, 0, 0, 0]\<rparr>"
  "i < 256 \<Longrightarrow> i \<noteq> 0 \<Longrightarrow> get_inode holed i = zero_inode"
  "b < 65528 \<Longrightarrow> bitmap_test whole_bm b holed \<longleftrightarrow> b \<le> 17"
  "i < 256 \<Longrightarrow> bitmap_test inode_bm i holed \<longleftrightarrow> i = 0"
  "get_block holed 17 = put_entry zero_block 1 (str ''b'' @ [0]) 5"
proof -
  have len: "length (put_entry zero_block 1 (str ''b'' @ [0]) 5) = 1024" by (simp add: str_def)
  show "get_inode holed 0 = root_inode\<lparr>vacantFile := 2, directPointer := [17, 0, 0, 0, 0, 0]\<rparr>"
    by (simp add: holed_def get_put_inode inode_wf_holed)
  show "i < 256 \<Longrightarrow> i \<noteq> 0 \<Longrightarrow> get_inode holed i = zero_inode"
    using fresh_formatted
    by (simp add: holed_def get_put_inode inode_wf_holed get_inode_alloc get_inode_put_block fresh_fs_def)
  show "b < 65528 \<Longrightarrow> bitmap_test whole_bm b holed \<longleftrightarrow> b \<le> 17"
    by (auto simp: holed_def whole_test_put_inode inode_wf_holed bitmap_test_set whole_test_put_block formatted_simps)
  show "i < 256 \<Longrightarrow> bitmap_test inode_bm i holed \<longleftrightarrow> i = 0"
    by (simp add: holed_def inode_test_put_inode bitmap_test_set_other inode_test_put_block formatted_simps)
  show "get_block holed 17 = put_entry zero_block 1 (str ''b'' @ [0]) 5"
    using len by (simp add: holed_def get_block_put_inode inode_wf_holed get_block_alloc get_put_block)
qed

lemma bit_two: "bit (2 :: uint32_t) j \<longleftrightarrow> j = 1"
proof -
  have "(2 :: uint32_t) = push_bit 1 1" by simp
  then show ?thesis by (simp only: bit_push_bit_iff bit_1_iff) auto
qed

lemma holed_inv: "fs_inv holed" and holed_dir: "is_dir holed 0" "lookup holed 0 (str ''a'') = None"
proof -
  have d: "is_dir holed i \<longleftrightarrow> i = 0" if "i < 256" for i
    using that by (cases "i = 0") (simp_all add: is_dir_def holed_simps root_inode_def zero_inode_def)
  then show "is_dir holed 0" by simp
  have blk: "dir_block holed 0 = put_entry zero_block 1 (str ''b'' @ [0]) 5"
    by (simp add: dir_block_def holed_simps)
  have used: "dir_used holed 0 j \<longleftrightarrow> j = 1" for j using bit_two [of j] by (auto simp: dir_used_def holed_simps)
  have b: "0 \<notin> set (str ''b'')" "length (str ''b'') < 32" by code_simp+
  then have nm: "entry_name (dir_block holed 0) 1 = str ''b''"
    unfolding blk using entry_name_put_same [of zero_block 1 "str ''b''" "[]" 5] by simp
  have "dir_ok holed 0" using nm b used by (simp add: dir_ok_def holed_simps)
  then have "dirs_ok holed" using d by (simp add: dirs_ok_def)
  moreover have "ids_ok holed" using d by (simp add: ids_ok_def holed_simps root_inode_def zero_inode_def)
  moreover have "dir_blocks_ok holed" using d unfolding dir_blocks_ok_def by (auto simp: holed_simps)
  ultimately show "fs_inv holed" using d unfolding fs_inv_def by (simp add: holed_simps)
  have "str ''b'' \<noteq> str ''a''" by code_simp
  then have "find (\<lambda>j. bit (2::uint32_t) j \<and> entry_name (dir_block holed 0) j = str ''a'') [0..<31] = None"
    using nm bit_two by (auto simp: find_None_iff)
  then show "lookup holed 0 (str ''a'') = None"
    by (simp add: lookup_def lookup_in_def holed_simps)
qed

text \<open>A root directory whose only entry has been removed: it still has its block.\<close>

definition emptied :: mem where
  "emptied = put_inode 0 (root_inode\<lparr>directPointer := [17, 0, 0, 0, 0, 0]\<rparr>) (bitmap_set whole_bm 17 formatted)"

lemma emptied_simps:
  "get_inode emptied 0 = root_inode\<lparr>directPointer := [17, 0, 0, 0, 0, 0]\<rparr>"
  "b < 65528 \<Longrightarrow> bitmap_test whole_bm b emptied \<longleftrightarrow> b \<le> 17"
  "i < 256 \<Longrightarrow> bitmap_test inode_bm i emptied \<longleftrightarrow> i = 0" "vacantFile (get_inode emptied 0) = 0"
  "i < 256 \<Longrightarrow> is_dir emptied i \<longleftrightarrow> i = 0"
proof -
  have wf: "inode_wf (root_inode\<lparr>directPointer := [17, 0, 0, 0, 0, 0]\<rparr>)" using inode_wf_root by (simp add: inode_wf_def)
  show r: "get_inode emptied 0 = root_inode\<lparr>directPointer := [17, 0, 0, 0, 0, 0]\<rparr>"
    by (simp add: emptied_def get_put_inode wf)
  show "b < 65528 \<Longrightarrow> bitmap_test whole_bm b emptied \<longleftrightarrow> b \<le> 17"
    by (auto simp: emptied_def whole_test_put_inode wf bitmap_test_set formatted_simps)
  show "i < 256 \<Longrightarrow> bitmap_test inode_bm i emptied \<longleftrightarrow> i = 0"
    by (simp add: emptied_def inode_test_put_inode bitmap_test_set_other formatted_simps)
  show "vacantFile (get_inode emptied 0) = 0" by (simp add: r root_inode_def zero_inode_def)
  have "get_inode emptied i = zero_inode" if "i < 256" "i \<noteq> 0"
    using fresh_formatted that by (simp add: emptied_def get_put_inode wf get_inode_alloc fresh_fs_def)
  then show "i < 256 \<Longrightarrow> is_dir emptied i \<longleftrightarrow> i = 0"
    using r by (cases "i = 0") (simp_all add: is_dir_def root_inode_def zero_inode_def)
qed

lemma emptied_inv: "fs_inv emptied" "dense emptied" and emptied_possible: "create_possible emptied [name] 0"
proof -
  have n: "inodeNumber (get_inode emptied 0) = 0" "direct0 (get_inode emptied 0) = 17"
    by (simp_all add: emptied_simps root_inode_def zero_inode_def)
  have u: "\<not> dir_used emptied 0 j" for j by (simp add: dir_used_def emptied_simps(4))
  have "dirs_ok emptied" using u n by (simp add: dirs_ok_def dir_ok_def emptied_simps(5))
  moreover have "ids_ok emptied" using n by (simp add: ids_ok_def emptied_simps(5))
  moreover have "dir_blocks_ok emptied" using emptied_simps(4,5) unfolding dir_blocks_ok_def by metis
  ultimately show "fs_inv emptied" unfolding fs_inv_def by (simp add: emptied_simps(2,3,5))
  show "dense emptied" using emptied_simps(4,5) unfolding dense_def by metis
  have "\<exists>i<256. \<not> bitmap_test inode_bm i emptied" by (intro exI [of _ 1]) (simp add: emptied_simps)
  moreover have "\<exists>b<65528. \<not> bitmap_test whole_bm b emptied" by (intro exI [of _ 18]) (simp add: emptied_simps)
  moreover have "\<exists>j<31. \<not> dir_used emptied 0 j" using u by (intro exI [of _ 0]) simp
  moreover have "lookup emptied 0 name = None" by (simp add: lookup_def lookup_in_def emptied_simps(4) find_None_iff)
  ultimately show "create_possible emptied [name] 0"
    by (simp add: create_possible_def emptied_simps(5) block_available_def)
qed

text \<open>A formatted image in which all inodes are taken.\<close>

definition inodes_full :: mem where
  "inodes_full = mwrite formatted (Image, 0) (replicate 32 0xff)"

lemma inodes_full_simps:
  "get_inode inodes_full i = get_inode formatted i"
  "b < 65528 \<Longrightarrow> bitmap_test whole_bm b inodes_full \<longleftrightarrow> b < 17"
  "i < 256 \<Longrightarrow> bitmap_test inode_bm i inodes_full"
proof -
  show "get_inode inodes_full i = get_inode formatted i"
    by (simp add: inodes_full_def get_inode_def mread_mwrite_disjoint mem_disjoint_def)
  show "b < 65528 \<Longrightarrow> bitmap_test whole_bm b inodes_full \<longleftrightarrow> b < 17"
    by (simp add: inodes_full_def bitmap_test_mwrite formatted_simps)
  assume "i < 256"
  then have "i div 8 < 32" by (simp add: less_mult_imp_div_less)
  moreover have "bit (0xff :: byte) (i mod 8)" using less_8 [of "i mod 8"] by auto
  ultimately show "bitmap_test inode_bm i inodes_full"
    by (simp add: inodes_full_def bitmap_test_bit byte_at_def bitmap_byte_def mwrite_def)
qed

lemma inodes_full_inv: "fs_inv inodes_full"
proof -
  have d: "is_dir inodes_full i \<longleftrightarrow> i = 0" if "i < 256" for i
    using that fresh_formatted
    by (cases "i = 0") (simp_all add: is_dir_def inodes_full_simps fresh_fs_def root_inode_def zero_inode_def)
  have r: "get_inode inodes_full 0 = root_inode" "vacantFile root_inode = 0" "inodeNumber root_inode = 0"
    "directPointer root_inode ! 0 = 0"
    by (simp_all add: inodes_full_simps formatted_simps) (simp_all add: root_inode_def zero_inode_def)
  have "dirs_ok inodes_full" using d by (simp add: dirs_ok_def dir_ok_def dir_used_def r)
  moreover have "ids_ok inodes_full" using d by (simp add: ids_ok_def r)
  moreover have "dir_blocks_ok inodes_full" using d r unfolding dir_blocks_ok_def by metis
  ultimately show ?thesis using d by (simp add: fs_inv_def inodes_full_simps)
qed

section \<open>Properties\<close>

text \<open>C11: on a consistent file system, creating a file or directory under a valid absolute path
  succeeds whenever its parent resolves to a directory that has a vacant entry and no entry of
  that name, and an inode and (for the first entry) a block are free. It takes an inode that was
  free, initialises it, makes the new name lead to it and changes no other name of any directory;
  the invariant is preserved.\<close>

theorem fs_create_makes_entry:
  assumes "fs_inv m" and "dense m" and "checked_tokens path = Some (tokens, cnt)" and "0 \<notin> set path"
    and "type = FS_REGULAR \<or> type = FS_DIRECTORY" and "create_possible m tokens p"
  shows "\<exists>q m'. fs_create (Some (the_fs h)) (Some path) type m = Some (0, m') \<and> fs_inv m' \<and> dense m' \<and>
    q < 256 \<and> \<not> bitmap_test inode_bm q m \<and> get_inode m' q = new_inode type q \<and>
    (\<forall>i<256. bitmap_test inode_bm i m' \<longleftrightarrow> i = q \<or> bitmap_test inode_bm i m) \<and>
    (\<forall>d<256. is_dir m d \<longrightarrow>
      (\<forall>n. lookup m' d n = (if d = p \<and> n = last tokens then Some q else lookup m d n))) \<and>
    (\<forall>n. lookup m' q n = None)"
  using fs_create_effect [OF assms, of h] unfolding create_effect_def by blast

theorem fs_create_makes_entry_witness:
  "\<exists>q m'. fs_create (Some (the_fs 3)) (Some (str ''/a'')) FS_DIRECTORY formatted = Some (0, m') \<and>
    lookup m' 0 (str ''a'') = Some q \<and> fs_inv m'"
proof -
  obtain q m' where "fs_create (Some (the_fs 3)) (Some (str ''/a'')) FS_DIRECTORY formatted = Some (0, m')" "fs_inv m'"
    "\<forall>d<256. is_dir formatted d \<longrightarrow> (\<forall>n. lookup m' d n =
      (if d = 0 \<and> n = last [str ''a''] then Some q else lookup formatted d n))"
    using fs_create_makes_entry [OF formatted_inv example_tokens(1,2) disjI2 [OF refl] formatted_create_possible,
        where h = 3] by blast
  then show ?thesis using formatted_simps(2) by auto
qed

text \<open>C12: after a successful creation the new path resolves to the new inode, and every path that
  resolved before still resolves to the same inode.\<close>

theorem fs_create_resolves:
  assumes "fs_inv m" and "dense m" and "checked_tokens path = Some (tokens, cnt)" and "0 \<notin> set path"
    and "type = FS_REGULAR \<or> type = FS_DIRECTORY" and "create_possible m tokens p"
  shows "\<exists>q m'. fs_create (Some (the_fs h)) (Some path) type m = Some (0, m') \<and> \<not> bitmap_test inode_bm q m \<and>
    resolve m' 0 tokens = Some q \<and> (\<forall>ts i. resolve m 0 ts = Some i \<longrightarrow> resolve m' 0 ts = Some i)"
proof -
  obtain q m' where e: "fs_create (Some (the_fs h)) (Some path) type m = Some (0, m')"
      "create_effect m p (last tokens) type q m'"
    using fs_create_effect [OF assms, of h] by blast
  have p: "resolve m 0 (butlast tokens) = Some p" "is_dir m p" "lookup m p (last tokens) = None"
    using assms(6) by (simp_all add: create_possible_def)
  have p256: "p < 256" using resolve_bound [OF _ p(1)] by simp
  note r = create_effect_resolve [OF assms(1) e(2) p256 p(2,3)]
  have "tokens \<noteq> []" using valid_last(1) [OF assms(3,4)] .
  then have "resolve m' 0 tokens = Some q" using r(2) [OF p(1)] by simp
  moreover have "\<not> bitmap_test inode_bm q m" using e(2) by (simp add: create_effect_def)
  ultimately show ?thesis using e(1) r(1) by (metis zero_less_numeral)
qed

theorem fs_create_resolves_witness:
  "\<exists>q m'. fs_create (Some (the_fs 3)) (Some (str ''/a'')) FS_REGULAR formatted = Some (0, m') \<and>
    resolve m' 0 [str ''a''] = Some q"
  using fs_create_resolves [OF formatted_inv example_tokens(1,2) disjI1 [OF refl] formatted_create_possible,
      where h = 3] by blast

text \<open>C28: an invalid path or name (within the buffers that the path is copied to), a parent that does
  not resolve to a directory, a name already in use and a full parent directory are refused with -1,
  and nothing is changed.\<close>

theorem fs_create_refused:
  assumes "fs_inv m" and "0 \<notin> set path"
    and "path_safe 65535 path \<and> checked_tokens path = None \<or>
      (\<exists>tokens cnt. checked_tokens path = Some (tokens, cnt) \<and>
        (case resolve m 0 (butlast tokens) of
           None \<Rightarrow> True
         | Some p \<Rightarrow> \<not> is_dir m p \<or> lookup m p (last tokens) \<noteq> None \<or> (\<forall>j<31. dir_used m p j)))"
  shows "fs_create (Some (the_fs h)) (Some path) type m = Some (-1, m)"
  using assms by (rule fs_create_refuses)

text \<open>A second creation of a file, a creation below a regular file, a creation below a name that does not
  exist, and an invalid name.\<close>

theorem fs_create_refused_witness:
  "\<exists>m. fs_create (Some (the_fs 3)) (Some (str ''/a'')) FS_REGULAR formatted = Some (0, m) \<and>
    fs_create (Some (the_fs 3)) (Some (str ''/a'')) FS_DIRECTORY m = Some (-1, m) \<and>
    fs_create (Some (the_fs 3)) (Some (str ''/a/b'')) FS_REGULAR m = Some (-1, m) \<and>
    fs_create (Some (the_fs 3)) (Some (str ''/a/b'')) FS_REGULAR formatted = Some (-1, formatted) \<and>
    fs_create (Some (the_fs 3)) (Some (str ''/a!'')) FS_REGULAR m = Some (-1, m)"
proof -
  have ab: "checked_tokens (str ''/a/b'') = Some ([str ''a'', str ''b''], 2)" "0 \<notin> set (str ''/a/b'')"
    by (simp_all add: checked_tokens_str) code_simp+
  obtain q m where c: "fs_create (Some (the_fs 3)) (Some (str ''/a'')) FS_REGULAR formatted = Some (0, m)"
      "create_effect formatted 0 (str ''a'') FS_REGULAR q m"
    using fs_create_effect [OF formatted_inv example_tokens(1,2) disjI1 [OF refl] formatted_create_possible, of 3] by auto
  have inv: "fs_inv m" and reg: "\<not> is_dir m q" and l: "lookup m 0 (str ''a'') = Some q"
    using c(2) formatted_simps(2) by (auto simp: create_effect_def is_dir_def)
  have dirs: "is_dir m 0" "\<not> is_dir m q" using inv reg by (simp_all add: fs_inv_def)
  have "fs_create (Some (the_fs 3)) (Some (str ''/a'')) FS_DIRECTORY m = Some (-1, m)"
    by (rule fs_create_refused [OF inv example_tokens(2)]) (use l example_tokens(1) in simp)
  moreover have "fs_create (Some (the_fs 3)) (Some (str ''/a/b'')) FS_REGULAR m = Some (-1, m)"
    by (rule fs_create_refused [OF inv ab(2)]) (use ab(1) l dirs in simp)
  moreover have "fs_create (Some (the_fs 3)) (Some (str ''/a/b'')) FS_REGULAR formatted = Some (-1, formatted)"
    by (rule fs_create_refused [OF formatted_inv(1) ab(2)]) (use ab(1) formatted_simps(2,3) in simp)
  moreover have "fs_create (Some (the_fs 3)) (Some (str ''/a!'')) FS_REGULAR m = Some (-1, m)"
    by (rule fs_create_refused [OF inv example_tokens(7)]) (use example_tokens(6) in \<open>simp add: checked_tokens_str\<close>)
  ultimately show ?thesis using c(1) by blast
qed

text \<open>C38: \<^verbatim>\<open>fs_create\<close> takes a vacant first entry for an empty directory. When entry 0 is vacant
  (after a removal) and others are in use, it gives the parent a new block: the old block stays
  allocated but is no longer referenced, and the entries still marked as used are now read from
  whatever the new block held.\<close>

theorem fs_create_loses_entries:
  assumes "fs_inv m" and "checked_tokens path = Some (tokens, cnt)" and "0 \<notin> set path"
    and "type = FS_REGULAR \<or> type = FS_DIRECTORY" and "create_possible m tokens p"
    and "\<not> dir_used m p 0" and "dir_used m p j"
  shows "\<exists>b m'. fs_create (Some (the_fs h)) (Some path) type m = Some (0, m') \<and>
    direct0 (get_inode m' p) = b \<and> \<not> bitmap_test whole_bm b m \<and> b \<noteq> direct0 (get_inode m p) \<and>
    bitmap_test whole_bm (direct0 (get_inode m p)) m' \<and>
    dir_used m' p j \<and> entry_inode (dir_block m' p) j = entry_inode (get_block m b) j"
proof -
  have p: "resolve m 0 (butlast tokens) = Some p" "is_dir m p" "lookup m p (last tokens) = None"
    "\<exists>j<31. \<not> dir_used m p j" "\<exists>i<256. \<not> bitmap_test inode_bm i m" "block_available p m"
    using assms(5) by (simp_all add: create_possible_def)
  have p256: "p < 256" using resolve_bound [OF _ p(1)] by simp
  have j: "j < 31" "bit (vacantFile (get_inode m p)) j" "j \<noteq> 0" using assms(6,7) by (auto simp: dir_used_def intro: gr0I)
  have v0: "vacant_loop (vacantFile (get_inode m p)) 0 = 0"
    using vacant_loop_spec [of 0 "vacantFile (get_inode m p)"] assms(6) by (auto simp: dir_used_def)
  let ?b = "bitmap_ffz (Some whole_bm) m"
  have b: "?b < 65528" "\<not> bitmap_test whole_bm ?b m" "17 \<le> ?b"
    using ffz_whole_free [of m] p(6) v0 assms(1) by (auto simp: block_available_def fs_inv_def)
  have base: "create_base p m = bitmap_set whole_bm ?b m" using v0 by (simp add: create_base_def)
  have pd: "direct0 (create_parent p m) = ?b" using v0 b by (simp add: create_parent_def Let_def unat_of_nat)
  have old: "direct0 (get_inode m p) < 65528" "bitmap_test whole_bm (direct0 (get_inode m p)) m"
    using assms(1) p256 p(2) j(2) by (auto simp: fs_inv_def dir_blocks_ok_def)
  have free: "\<exists>i<256. \<not> bitmap_test inode_bm i (create_base p m)"
    using p(5) by (auto simp: base bitmap_test_set_other)
  let ?q = "bitmap_ffz (Some inode_bm) (create_base p m)"
  have q: "?q < 256" "\<not> bitmap_test inode_bm ?q (create_base p m)"
    using ffz_inode_free [of "create_base p m"] free by blast+
  have "?q \<noteq> p" using q assms(1) p256 p(2) by (auto simp: fs_inv_def base bitmap_test_set_other)
  note fr = created_frame [OF p256 create_parent_simps(1) [of p m] q(1) this, where m = "create_base p m" and type = type and k = 0
      and name = "last tokens", unfolded pd, OF b(3,1) _ valid_last(3) [OF assms(2,3)], simplified]
  define m' where "m' = created p (create_parent p m) 0 (last tokens) type ?q (create_base p m)"
  have run: "fs_create (Some (the_fs h)) (Some path) type m = Some (0, m')"
    using fs_create_unfold [OF assms(1-4) p, of h] v0 by (simp add: m'_def)
  have "dir_used m' p j" using j fr(2) by (simp add: m'_def dir_used_def bit_simps)
  moreover have "direct0 (get_inode m' p) = ?b" using fr(2) pd by (simp add: m'_def)
  moreover have "entry_inode (dir_block m' p) j = entry_inode (get_block m ?b) j"
    using fr(2,4) pd b j valid_last(3) [OF assms(2,3)]
    by (simp add: m'_def dir_block_def base get_block_alloc entry_inode_put)
  moreover have "bitmap_test whole_bm (direct0 (get_inode m p)) m'"
    using fr(6) old by (simp add: m'_def base bitmap_test_set)
  moreover have "?b \<noteq> direct0 (get_inode m p)" using b old by auto
  ultimately show ?thesis using run b by blast
qed

theorem fs_create_loses_entries_witness:
  "\<exists>b m'. fs_create (Some (the_fs 3)) (Some (str ''/a'')) FS_REGULAR holed = Some (0, m') \<and>
    direct0 (get_inode m' 0) = b \<and> b \<noteq> 17 \<and> dir_used m' 0 1"
proof -
  have u: "\<not> dir_used holed 0 0" "dir_used holed 0 1" using bit_two by (simp_all add: dir_used_def holed_simps)
  have "\<exists>i<256. \<not> bitmap_test inode_bm i holed" by (intro exI [of _ 1]) (simp add: holed_simps)
  moreover have "\<exists>b<65528. \<not> bitmap_test whole_bm b holed" by (intro exI [of _ 18]) (simp add: holed_simps)
  moreover have "\<exists>j<31. \<not> dir_used holed 0 j" using u(1) by (intro exI [of _ 0]) simp
  ultimately have "create_possible holed [str ''a''] 0"
    using holed_dir by (simp add: create_possible_def block_available_def)
  from fs_create_loses_entries [OF holed_inv example_tokens(1,2) disjI1 [OF refl] this u, of 3] show ?thesis
    by (auto simp: holed_simps)
qed

text \<open>When the last name of a directory has been removed, its data block stays with it, but the next
  \<^verbatim>\<open>fs_create\<close> takes a new block all the same: the old one stays allocated and nothing points to it
  any more, so that every removal of the last name of a directory costs a block.\<close>

theorem fs_create_orphans_block:
  assumes "fs_inv m" and "dense m" and "checked_tokens path = Some (tokens, cnt)" and "0 \<notin> set path"
    and "type = FS_REGULAR \<or> type = FS_DIRECTORY" and "create_possible m tokens p"
    and "vacantFile (get_inode m p) = 0" and "old = direct0 (get_inode m p)" and "old < 65528" and "bitmap_test whole_bm old m"
  shows "\<exists>m'. fs_create (Some (the_fs h)) (Some path) type m = Some (0, m') \<and> direct0 (get_inode m' p) \<noteq> old \<and>
    bitmap_test whole_bm old m' \<and>
    block_store_get_used_blocks (BlockStore_whole (the_fs h)) m' =
      Suc (block_store_get_used_blocks (BlockStore_whole (the_fs h)) m)"
proof -
  obtain q m' where c: "fs_create (Some (the_fs h)) (Some path) type m = Some (0, m')" "create_blocks m p q m'"
    using fs_create_effect_blocks [OF assms(1-6), of h] by blast
  define b where "b = direct0 (get_inode m' p)"
  have b: "b < 65528" "\<not> bitmap_test whole_bm b m"
    "\<And>j. j < 65528 \<Longrightarrow> bitmap_test whole_bm j m' \<longleftrightarrow> bitmap_test whole_bm j m \<or> j = b"
    using c(2) assms(7) by (simp_all add: create_blocks_def Let_def b_def)
  have "{j. j < 65528 \<and> bitmap_test whole_bm j m'} = insert b {j. j < 65528 \<and> bitmap_test whole_bm j m}"
    using b by auto
  then have "bitmap_total_set (Some whole_bm) m' = Suc (bitmap_total_set (Some whole_bm) m)"
    using b(2) by (simp add: whole.total_card)
  moreover have "b \<noteq> old" using b(2) assms(10) by auto
  ultimately show ?thesis
    using c(1) b(3) [OF assms(9)] assms(10) by (simp add: b_def block_store_get_used_blocks_def)
qed

theorem fs_create_orphans_block_witness:
  "\<exists>m'. fs_create (Some (the_fs 3)) (Some (str ''/a'')) FS_REGULAR emptied = Some (0, m') \<and>
    direct0 (get_inode m' 0) \<noteq> 17 \<and> bitmap_test whole_bm 17 m'"
proof -
  have d: "direct0 (get_inode emptied 0) = 17" by (simp add: emptied_simps)
  have "bitmap_test whole_bm 17 emptied" by (simp add: emptied_simps)
  with fs_create_orphans_block [OF emptied_inv example_tokens(1,2) disjI1 [OF refl] emptied_possible emptied_simps(4) d [symmetric],
      of 3] show ?thesis by auto
qed

text \<open>When the inodes are used up, creating the first entry of a directory fails with -1 but
  leaks the data block it had already allocated for the parent: the block stays in use although
  no inode refers to it.\<close>

theorem fs_create_leaks_block:
  assumes "fs_inv m" and "checked_tokens path = Some (tokens, cnt)" and "0 \<notin> set path"
    and "type = FS_REGULAR \<or> type = FS_DIRECTORY" and "resolve m 0 (butlast tokens) = Some p" and "is_dir m p"
    and "vacantFile (get_inode m p) = 0" and "\<forall>i<256. bitmap_test inode_bm i m"
    and "\<exists>b<65528. \<not> bitmap_test whole_bm b m"
  shows "\<exists>b m'. fs_create (Some (the_fs h)) (Some path) type m = Some (-1, m') \<and> b < 65528 \<and>
    \<not> bitmap_test whole_bm b m \<and> bitmap_test whole_bm b m' \<and> (\<forall>i<256. get_inode m' i = get_inode m i) \<and>
    block_store_get_used_blocks (BlockStore_whole (the_fs h)) m' =
      Suc (block_store_get_used_blocks (BlockStore_whole (the_fs h)) m)"
proof -
  have v0: "vacant_loop (vacantFile (get_inode m p)) 0 = 0"
    using vacant_loop_spec [of 0 "vacantFile (get_inode m p)"] assms(7) by auto
  let ?b = "bitmap_ffz (Some whole_bm) m"
  have b: "?b < 65528" "\<not> bitmap_test whole_bm ?b m"
    using ffz_whole_free [OF assms(9)] assms(1) by (auto simp: fs_inv_def)
  have base: "create_base p m = bitmap_set whole_bm ?b m" using v0 by (simp add: create_base_def)
  have full: "bitmap_ffz (Some inode_bm) (create_base p m) = SIZE_MAX"
  proof (rule ccontr)
    assume "bitmap_ffz (Some inode_bm) (create_base p m) \<noteq> SIZE_MAX"
    from ino.ffz_found [OF this] assms(8) show False by (auto simp: base bitmap_test_set_other)
  qed
  have room: "\<exists>j<31. \<not> dir_used m p j" using assms(7) by (intro exI [of _ 0]) (simp add: dir_used_def)
  have av: "block_available p m" using assms(9) by (simp add: block_available_def)
  have fresh: "lookup m p (last tokens) = None" using assms(7) by (simp add: lookup_def)
  obtain data where "fs_create (Some (the_fs h)) (Some path) type m =
      Some (create_entry (the_fs h) p (create_parent p m) data (vacant_loop (vacantFile (get_inode m p)) 0) (last tokens)
        type (create_base p m))"
    using fs_create_enters [OF assms(1-6) fresh room av, where h = h] by blast
  then have "fs_create (Some (the_fs h)) (Some path) type m = Some (-1, bitmap_set whole_bm ?b m)"
    using full by (simp add: create_entry_def allocate_inode base)
  moreover have "bitmap_total_set (Some whole_bm) (bitmap_set whole_bm ?b m) = Suc (bitmap_total_set (Some whole_bm) m)"
    using b by (intro whole.total_set)
  ultimately show ?thesis
    using b by (intro exI [of _ ?b] exI [of _ "bitmap_set whole_bm ?b m"])
      (simp add: bitmap_test_set get_inode_alloc block_store_get_used_blocks_def)
qed

theorem fs_create_leaks_block_witness:
  "\<exists>b m'. fs_create (Some (the_fs 3)) (Some (str ''/a'')) FS_REGULAR inodes_full = Some (-1, m') \<and>
    \<not> bitmap_test whole_bm b inodes_full \<and> bitmap_test whole_bm b m'"
proof -
  have r: "resolve inodes_full 0 (butlast [str ''a'']) = Some 0" "is_dir inodes_full 0"
    "vacantFile (get_inode inodes_full 0) = 0" "\<forall>i<256. bitmap_test inode_bm i inodes_full"
    using inodes_full_inv by (simp_all add: fs_inv_def inodes_full_simps formatted_simps)
      (simp add: root_inode_def)
  have "\<exists>b<65528. \<not> bitmap_test whole_bm b inodes_full" by (intro exI [of _ 17]) (simp add: inodes_full_simps)
  from fs_create_leaks_block [OF inodes_full_inv example_tokens(1,2) disjI1 [OF refl] r this, of 3]
  show ?thesis by blast
qed

end
