(* ===== verification/Dyn_Array.thy ===== *)
theory Dyn_Array
  imports Prelude "HOL-Library.Multiset"
begin

text \<open>
  Model of \<^verbatim>\<open>src/dyn_array.c\<close>: a growable array of equal-sized objects. The buffer is a list of
  slots as long as the capacity; a slot that \<^verbatim>\<open>malloc\<close> or \<^verbatim>\<open>realloc\<close> left uninitialised is
  \<open>None\<close>. Sizes, positions and counts are 64-bit words, so that the range checks wrap as they
  do in C. An access outside the buffer is undefined behaviour: the functions that the public
  interface can drive there return an option, \<open>None\<close> being that case. Whether \<^verbatim>\<open>malloc\<close> and
  \<^verbatim>\<open>realloc\<close> succeed is an argument. The lemmas show that the shift primitives refine insertion
  into and removal from a list, and that capacity always suffices.
\<close>

unbundle bit_operations_syntax

section \<open>The struct and the shift modes\<close>

record 'a dyn_array_t =
  capacity :: uint64_t
  da_size :: uint64_t
  data_size :: uint64_t
  da_array :: "'a option list"
  destructor :: bool

definition DYN_MAX_CAPACITY :: uint64_t where
  "DYN_MAX_CAPACITY = push_bit 56 1"

datatype DYN_SHIFT_MODE = MODE_INSERT | MODE_EXTRACT | MODE_ERASE

fun mode_value :: "DYN_SHIFT_MODE \<Rightarrow> byte" where
  "mode_value MODE_INSERT = 0x01"
| "mode_value MODE_EXTRACT = 0x02"
| "mode_value MODE_ERASE = 0x06"

definition TYPE_REMOVE :: byte where
  "TYPE_REMOVE = 0x02"

definition MODE_IS_TYPE :: "DYN_SHIFT_MODE \<Rightarrow> byte \<Rightarrow> bool" where
  "MODE_IS_TYPE mode type \<longleftrightarrow> mode_value mode AND type \<noteq> 0"

section \<open>Growing and shifting\<close>

text \<open>
  The two doubling loops. In C the loop does not end when doubling overflows to zero first;
  \<open>None\<close> is that case.
\<close>

partial_function (option) grow :: "uint64_t \<Rightarrow> uint64_t \<Rightarrow> uint64_t option" where
  "grow needed cap = (if cap < needed then grow needed (push_bit 1 cap) else Some cap)"

definition dyn_request_size_increase ::
    "bool \<Rightarrow> 'a dyn_array_t option \<Rightarrow> uint64_t \<Rightarrow> (bool \<times> 'a dyn_array_t option) option" where
  "dyn_request_size_increase realloc_ok da increment = (case da of
       None \<Rightarrow> Some (False, None)
     | Some d \<Rightarrow>
         if da_size d + increment \<le> capacity d then Some (True, Some d)
         else
           (let needed_size = da_size d + increment in
            if needed_size \<le> DYN_MAX_CAPACITY then
              (case grow needed_size (push_bit 1 (capacity d)) of
                 None \<Rightarrow> None
               | Some new_capacity \<Rightarrow>
                   if realloc_ok then
                     Some (True, Some (d\<lparr>da_array := take (unat new_capacity) (da_array d) @
                                    replicate (unat new_capacity - length (da_array d)) None,
                                  capacity := new_capacity\<rparr>))
                   else Some (False, Some d))
            else Some (False, Some d)))"

text \<open>\<^verbatim>\<open>memmove\<close> and \<^verbatim>\<open>memcpy\<close> between slots of the buffer, at indices into it.\<close>

definition slots_move :: "'a option list \<Rightarrow> nat \<Rightarrow> nat \<Rightarrow> nat \<Rightarrow> 'a option list" where
  "slots_move arr dst src n = take dst arr @ take n (drop src arr) @ drop (dst + n) arr"

definition slots_copy :: "'a option list \<Rightarrow> nat \<Rightarrow> 'a list \<Rightarrow> 'a option list" where
  "slots_copy arr dst xs = take dst arr @ map Some xs @ drop (dst + length xs) arr"

definition dyn_shift_insert ::
    "bool \<Rightarrow> 'a dyn_array_t option \<Rightarrow> uint64_t \<Rightarrow> uint64_t \<Rightarrow> DYN_SHIFT_MODE \<Rightarrow> 'a list option
      \<Rightarrow> (bool \<times> 'a dyn_array_t option) option" where
  "dyn_shift_insert realloc_ok da position cnt mode data_src =
     (case (da, data_src) of
        (Some d, Some src) \<Rightarrow>
          if cnt \<noteq> 0 \<and> mode = MODE_INSERT \<and> position \<le> da_size d then
            (case dyn_request_size_increase realloc_ok (Some d) cnt of
               Some (True, Some d1) \<Rightarrow>
                 (let arr1 = (if position \<noteq> da_size d1
                              then slots_move (da_array d1) (unat (position + cnt)) (unat position)
                                     (unat (da_size d1 - position))
                              else da_array d1);
                      arr2 = slots_copy arr1 (unat position) (take (unat cnt) src)
                  in Some (True, Some (d1\<lparr>da_array := arr2, da_size := da_size d1 + cnt\<rparr>)))
             | Some (_, da1) \<Rightarrow> Some (False, da1)
             | None \<Rightarrow> None)
          else Some (False, da)
      | _ \<Rightarrow> Some (False, da))"

text \<open>
  The result of a removal: the flag, the array, what an extraction wrote to its destination, and
  the objects the destructor was called on, in order.
\<close>

record 'a removal =
  rm_ok :: bool
  rm_array :: "'a dyn_array_t option"
  rm_dst :: "'a option list"
  rm_destroyed :: "'a option list"

definition no_removal :: "'a dyn_array_t option \<Rightarrow> 'a removal" where
  "no_removal da = \<lparr>rm_ok = False, rm_array = da, rm_dst = [], rm_destroyed = []\<rparr>"

definition dyn_shift_remove ::
    "'a dyn_array_t option \<Rightarrow> uint64_t \<Rightarrow> uint64_t \<Rightarrow> DYN_SHIFT_MODE \<Rightarrow> bool \<Rightarrow> 'a removal option" where
  "dyn_shift_remove da position cnt mode has_dst =
     (case da of
        None \<Rightarrow> Some (no_removal None)
      | Some d \<Rightarrow>
          if cnt \<noteq> 0 \<and> da_size d \<noteq> 0 \<and> MODE_IS_TYPE mode TYPE_REMOVE \<and> position + cnt \<le> da_size d then
            (if length (da_array d) < unat position + unat cnt then None
             else if mode \<noteq> MODE_ERASE \<and> \<not> has_dst then Some (no_removal da)
             else
               (let gone = take (unat cnt) (drop (unat position) (da_array d));
                    arr = (if position + cnt < da_size d
                           then slots_move (da_array d) (unat position) (unat (position + cnt))
                                  (unat (da_size d - (position + cnt)))
                           else da_array d)
                in Some \<lparr>rm_ok = True,
                         rm_array = Some (d\<lparr>da_array := arr, da_size := da_size d - cnt\<rparr>),
                         rm_dst = (if mode = MODE_ERASE then [] else gone),
                         rm_destroyed = (if mode = MODE_ERASE \<and> destructor d then gone else [])\<rparr>))
          else Some (no_removal da))"

section \<open>Creation, import, destruction\<close>

definition dyn_array_create ::
    "bool \<Rightarrow> bool \<Rightarrow> uint64_t \<Rightarrow> uint64_t \<Rightarrow> bool \<Rightarrow> 'a dyn_array_t option option" where
  "dyn_array_create struct_ok buffer_ok cap data_type_size destruct =
     (if data_type_size \<noteq> 0 \<and> cap \<le> DYN_MAX_CAPACITY \<and> struct_ok then
        (case grow cap 16 of
           None \<Rightarrow> None
         | Some actual_capacity \<Rightarrow>
             Some (if buffer_ok
                   then Some \<lparr>capacity = actual_capacity, da_size = 0, data_size = data_type_size,
                              da_array = replicate (unat actual_capacity) None, destructor = destruct\<rparr>
                   else None))
      else Some None)"

definition dyn_array_import ::
    "bool \<Rightarrow> bool \<Rightarrow> 'a list option \<Rightarrow> uint64_t \<Rightarrow> uint64_t \<Rightarrow> bool \<Rightarrow> 'a dyn_array_t option option" where
  "dyn_array_import struct_ok buffer_ok data cnt data_type_size destruct =
     (if data \<noteq> None \<and> cnt \<noteq> 0 then
        (case dyn_array_create struct_ok buffer_ok cnt data_type_size destruct of
           Some (Some d) \<Rightarrow>
             (case dyn_shift_insert True (Some d) 0 cnt MODE_INSERT data of
                Some (True, d') \<Rightarrow> Some d'
              | Some (False, _) \<Rightarrow> Some None
              | None \<Rightarrow> None)
         | r \<Rightarrow> r)
      else Some None)"

definition dyn_array_clear :: "'a dyn_array_t option \<Rightarrow> 'a removal option" where
  "dyn_array_clear da = (case da of
       Some d \<Rightarrow> if da_size d \<noteq> 0 then dyn_shift_remove da 0 (da_size d) MODE_ERASE False
                 else Some (no_removal da)
     | None \<Rightarrow> Some (no_removal da))"

text \<open>Destruction clears and frees; what remains is the trace of destructor calls.\<close>

definition dyn_array_destroy :: "'a dyn_array_t option \<Rightarrow> 'a option list option" where
  "dyn_array_destroy da = (case da of
       Some d \<Rightarrow> map_option rm_destroyed (dyn_array_clear da)
     | None \<Rightarrow> Some [])"

section \<open>Access\<close>

text \<open>A pointer to an element is its slot's index.\<close>

definition dyn_array_front :: "'a dyn_array_t option \<Rightarrow> nat option" where
  "dyn_array_front da = (case da of Some d \<Rightarrow> if da_size d \<noteq> 0 then Some 0 else None | None \<Rightarrow> None)"

definition dyn_array_export :: "'a dyn_array_t option \<Rightarrow> nat option" where
  "dyn_array_export da = dyn_array_front da"

definition dyn_array_back :: "'a dyn_array_t option \<Rightarrow> nat option" where
  "dyn_array_back da = (case da of
       Some d \<Rightarrow> if da_size d \<noteq> 0 then Some (unat (da_size d - 1)) else None | None \<Rightarrow> None)"

definition dyn_array_at :: "'a dyn_array_t option \<Rightarrow> uint64_t \<Rightarrow> nat option" where
  "dyn_array_at da index = (case da of
       Some d \<Rightarrow> if index < da_size d then Some (unat index) else None | None \<Rightarrow> None)"

definition dyn_array_size :: "'a dyn_array_t option \<Rightarrow> uint64_t" where
  "dyn_array_size da = (case da of Some d \<Rightarrow> da_size d | None \<Rightarrow> 0)"

definition dyn_array_empty :: "'a dyn_array_t option \<Rightarrow> bool" where
  "dyn_array_empty da \<longleftrightarrow> dyn_array_size da = 0"

definition dyn_array_capacity :: "'a dyn_array_t option \<Rightarrow> uint64_t" where
  "dyn_array_capacity da = (case da of Some d \<Rightarrow> capacity d | None \<Rightarrow> 0)"

definition dyn_array_data_size :: "'a dyn_array_t option \<Rightarrow> uint64_t" where
  "dyn_array_data_size da = (case da of Some d \<Rightarrow> data_size d | None \<Rightarrow> 0)"

section \<open>Insertion and removal\<close>

definition dyn_array_push_front where
  "dyn_array_push_front realloc_ok da object =
     dyn_shift_insert realloc_ok da 0 1 MODE_INSERT (map_option (\<lambda>x. [x]) object)"

definition dyn_array_pop_front where
  "dyn_array_pop_front da = dyn_shift_remove da 0 1 MODE_ERASE False"

definition dyn_array_extract_front where
  "dyn_array_extract_front da has_object = dyn_shift_remove da 0 1 MODE_EXTRACT has_object"

definition dyn_array_push_back where
  "dyn_array_push_back realloc_ok da object = (case da of
       None \<Rightarrow> Some (False, None)
     | Some d \<Rightarrow> dyn_shift_insert realloc_ok da (da_size d) 1 MODE_INSERT (map_option (\<lambda>x. [x]) object))"

definition dyn_array_pop_back where
  "dyn_array_pop_back da = (case da of
       Some d \<Rightarrow> if da_size d \<noteq> 0 then dyn_shift_remove da (da_size d - 1) 1 MODE_ERASE False
                 else Some (no_removal da)
     | None \<Rightarrow> Some (no_removal da))"

definition dyn_array_extract_back where
  "dyn_array_extract_back da has_object = (case da of
       Some d \<Rightarrow> if da_size d \<noteq> 0 then dyn_shift_remove da (da_size d - 1) 1 MODE_EXTRACT has_object
                 else Some (no_removal da)
     | None \<Rightarrow> Some (no_removal da))"

definition dyn_array_insert where
  "dyn_array_insert realloc_ok da index object =
     (if object \<noteq> None
      then dyn_shift_insert realloc_ok da index 1 MODE_INSERT (map_option (\<lambda>x. [x]) object)
      else Some (False, da))"

definition dyn_array_erase where
  "dyn_array_erase da index = dyn_shift_remove da index 1 MODE_ERASE False"

definition dyn_array_extract where
  "dyn_array_extract da index has_object = (case da of
       Some d \<Rightarrow> if has_object \<and> index < da_size d
                 then dyn_shift_remove da index 1 MODE_EXTRACT has_object else Some (no_removal da)
     | None \<Rightarrow> Some (no_removal da))"

section \<open>Sorting, sorted insertion, iteration\<close>

text \<open>
  \<^verbatim>\<open>qsort\<close> leaves the order of equal elements open, so it is an argument: the function from a
  list and a comparator to the sorted list.
\<close>

definition da_elems :: "'a dyn_array_t \<Rightarrow> 'a list" where
  "da_elems d = map the (take (unat (da_size d)) (da_array d))"

definition dyn_array_sort ::
    "(('a \<Rightarrow> 'a \<Rightarrow> int) \<Rightarrow> 'a list \<Rightarrow> 'a list) \<Rightarrow> 'a dyn_array_t option \<Rightarrow> ('a \<Rightarrow> 'a \<Rightarrow> int) option
      \<Rightarrow> bool \<times> 'a dyn_array_t option" where
  "dyn_array_sort qsort da compare = (case (da, compare) of
       (Some d, Some cmp) \<Rightarrow>
         if da_size d \<noteq> 0
         then (True, Some (d\<lparr>da_array := slots_copy (da_array d) 0 (qsort cmp (da_elems d))\<rparr>))
         else (False, da)
     | _ \<Rightarrow> (False, da))"

function sorted_position :: "('a \<Rightarrow> 'a \<Rightarrow> int) \<Rightarrow> 'a \<Rightarrow> 'a dyn_array_t \<Rightarrow> nat \<Rightarrow> nat" where
  "sorted_position cmp object d pos =
     (if pos < unat (da_size d) \<and> cmp object (the (da_array d ! pos)) > 0
      then sorted_position cmp object d (Suc pos) else pos)"
  by pat_completeness auto
termination
  by (relation "measure (\<lambda>(cmp, object, d, pos). unat (da_size d) - pos)") auto

declare sorted_position.simps [simp del]

definition dyn_array_insert_sorted where
  "dyn_array_insert_sorted realloc_ok da object compare = (case (da, compare, object) of
       (Some d, Some cmp, Some x) \<Rightarrow>
         (let ordered_position = (if da_size d \<noteq> 0 then sorted_position cmp x d 0 else 0)
          in dyn_shift_insert realloc_ok da (of_nat ordered_position) 1 MODE_INSERT (Some [x]))
     | _ \<Rightarrow> Some (False, da))"

text \<open>The function applied by \<^verbatim>\<open>dyn_array_for_each\<close> may change the element and its argument.\<close>

definition dyn_array_for_each ::
    "'a dyn_array_t option \<Rightarrow> ('a \<Rightarrow> 'arg \<Rightarrow> 'a \<times> 'arg) option \<Rightarrow> 'arg \<Rightarrow> bool \<times> 'a dyn_array_t option \<times> 'arg" where
  "dyn_array_for_each da func arg = (case (da, func) of
       (Some d, Some f) \<Rightarrow>
         (let (arr, arg') = fold (\<lambda>idx (arr, arg). let (x, arg') = f (the (arr ! idx)) arg
                                                   in (arr[idx := Some x], arg'))
                              [0..<unat (da_size d)] (da_array d, arg)
          in (True, Some (d\<lparr>da_array := arr\<rparr>), arg'))
     | _ \<Rightarrow> (False, da, arg))"

section \<open>The growth loop ends\<close>

lemma unat_push_1:
  "unat (cap :: uint64_t) = 2 ^ k \<Longrightarrow> k < 63 \<Longrightarrow> unat (push_bit 1 cap) = 2 ^ Suc k"
proof -
  assume cap: "unat cap = 2 ^ k" and k: "k < 63"
  have "(2::nat) ^ Suc k \<le> 2 ^ 63" using k by (intro power_increasing) simp_all
  then have "(2::nat) ^ Suc k < 2 ^ 64" by (rule le_less_trans) simp
  then show ?thesis
    by (simp add: push_bit_eq_mult unat_word_ariths cap)
qed

lemma unat_DYN_MAX: "unat DYN_MAX_CAPACITY = 2 ^ 56"
  by (simp add: DYN_MAX_CAPACITY_def)

lemma grow_returns:
  assumes "unat cap = 2 ^ k" and "k \<le> 56" and "unat needed \<le> 2 ^ 56"
  shows "\<exists>c k'. grow needed cap = Some c \<and> unat c = 2 ^ k' \<and> k \<le> k' \<and> k' \<le> 56 \<and>
    unat needed \<le> 2 ^ k' \<and> (k' = k \<or> 2 ^ k' < 2 * unat needed)"
  using assms
proof (induction "56 - k" arbitrary: cap k)
  case 0
  then have "k = 56" by simp
  with 0 show ?case by (subst grow.simps) (auto simp: word_less_nat_alt intro!: exI [of _ "56 :: nat"])
next
  case (Suc n)
  show ?case
  proof (cases "cap < needed")
    case False
    then have "unat needed \<le> 2 ^ k" using Suc.prems by (simp add: word_less_nat_alt)
    with False Suc.prems show ?thesis by (subst grow.simps) auto
  next
    case True
    then have less: "2 ^ k < unat needed" using Suc.prems by (simp add: word_less_nat_alt)
    have k: "n = 56 - Suc k" "Suc k \<le> 56" using Suc.hyps(2) by simp_all
    have "unat (push_bit 1 cap) = 2 ^ Suc k" using Suc.prems k by (intro unat_push_1) simp_all
    then obtain c k' where "grow needed (push_bit 1 cap) = Some c" "unat c = 2 ^ k'" "Suc k \<le> k'" "k' \<le> 56"
        "unat needed \<le> 2 ^ k'" "k' = Suc k \<or> 2 ^ k' < 2 * unat needed"
      using Suc.hyps(1) [OF k(1) _ k(2) Suc.prems(3)] by blast
    with True less show ?thesis by (subst grow.simps) auto
  qed
qed

section \<open>The invariant\<close>

definition da_inv :: "'a dyn_array_t \<Rightarrow> bool" where
  "da_inv d \<longleftrightarrow> length (da_array d) = unat (capacity d) \<and> da_size d \<le> capacity d \<and>
     None \<notin> set (take (unat (da_size d)) (da_array d)) \<and> data_size d \<noteq> 0 \<and>
     (\<exists>k. 4 \<le> k \<and> k \<le> 56 \<and> unat (capacity d) = 2 ^ k)"

lemma map_Some_the: "None \<notin> set xs \<Longrightarrow> map Some (map the xs) = xs"
  by (induction xs) auto

lemma length_da_elems: "da_inv d \<Longrightarrow> length (da_elems d) = unat (da_size d)"
  by (simp add: da_inv_def da_elems_def word_le_nat_alt)

lemma da_slots: "da_inv d \<Longrightarrow> take (unat (da_size d)) (da_array d) = map Some (da_elems d)"
  using map_Some_the [of "take (unat (da_size d)) (da_array d)"] by (simp add: da_inv_def da_elems_def)

lemma da_size_bound: "da_inv d \<Longrightarrow> unat (da_size d) \<le> 2 ^ 56"
proof -
  assume "da_inv d"
  then obtain k where "k \<le> 56" "unat (capacity d) = 2 ^ k" "unat (da_size d) \<le> unat (capacity d)"
    by (auto simp: da_inv_def word_le_nat_alt)
  moreover have "(2::nat) ^ k \<le> 2 ^ 56" using \<open>k \<le> 56\<close> by (rule power_increasing) simp
  ultimately show ?thesis by simp
qed

lemma unat_size_add:
  "da_inv d \<Longrightarrow> unat cnt \<le> 2 ^ 57 \<Longrightarrow> unat (da_size d + cnt) = unat (da_size d) + unat cnt"
proof -
  assume "da_inv d" and "unat cnt \<le> 2 ^ 57"
  then have "unat (da_size d) + unat cnt < 2 ^ 64" using da_size_bound [of d] by simp
  then show ?thesis by (simp add: unat_word_ariths)
qed

lemma create_inv:
  assumes "dyn_array_create s b cap w destr = Some (Some d)"
  shows "da_inv d \<and> da_elems d = [] \<and> cap \<le> capacity d \<and> destructor d = destr"
proof -
  from assms have w: "w \<noteq> 0" and "cap \<le> DYN_MAX_CAPACITY"
    by (auto simp: dyn_array_create_def split: if_splits)
  then have "unat cap \<le> 2 ^ 56" by (simp add: word_le_nat_alt unat_DYN_MAX)
  moreover have "unat (16 :: uint64_t) = 2 ^ 4" by simp
  ultimately obtain c k where c: "grow cap 16 = Some c" "unat c = 2 ^ k" "4 \<le> k" "k \<le> 56" "unat cap \<le> 2 ^ k"
    using grow_returns [of 16 4 cap] by auto
  with assms w show ?thesis
    by (auto simp: dyn_array_create_def da_inv_def da_elems_def word_le_nat_alt split: if_splits)
qed

lemma request_ok:
  assumes inv: "da_inv d" and room: "unat (da_size d) + unat cnt \<le> 2 ^ 56"
  shows "\<exists>d'. dyn_request_size_increase True (Some d) cnt = Some (True, Some d') \<and> da_inv d' \<and>
    da_elems d' = da_elems d \<and> da_size d' = da_size d \<and> destructor d' = destructor d \<and>
    unat (da_size d) + unat cnt \<le> unat (capacity d') \<and> 
    take (unat (da_size d)) (da_array d') = take (unat (da_size d)) (da_array d)"
proof (cases "da_size d + cnt \<le> capacity d")
  case True
  then show ?thesis using inv room
    by (auto simp: dyn_request_size_increase_def word_le_nat_alt unat_size_add)
next
  case False
  have sum: "unat (da_size d + cnt) = unat (da_size d) + unat cnt"
    using inv room by (intro unat_size_add) simp_all
  obtain k where k: "4 \<le> k" "k \<le> 56" "unat (capacity d) = 2 ^ k"
    using inv by (auto simp: da_inv_def)
  have "2 ^ k < unat (da_size d + cnt)" using False k by (simp add: word_le_nat_alt)
  also have "\<dots> \<le> 2 ^ 56" using room sum by simp
  finally have "(2::nat) ^ k < 2 ^ 56" .
  then have "k < 56" by (rule power_less_imp_less_exp [rotated]) simp
  then have "unat (push_bit 1 (capacity d)) = 2 ^ Suc k" using k by (intro unat_push_1) simp_all
  then obtain c k' where c: "grow (da_size d + cnt) (push_bit 1 (capacity d)) = Some c" "unat c = 2 ^ k'"
      "Suc k \<le> k'" "k' \<le> 56" "unat (da_size d + cnt) \<le> 2 ^ k'"
    using grow_returns [of "push_bit 1 (capacity d)" "Suc k" "da_size d + cnt"] \<open>k < 56\<close> room sum by auto
  have cap: "unat (capacity d) \<le> unat c" using k c by (simp add: power_increasing)
  let ?d = "d\<lparr>da_array := take (unat c) (da_array d) @ replicate (unat c - length (da_array d)) None,
    capacity := c\<rparr>"
  have "dyn_request_size_increase True (Some d) cnt = Some (True, Some ?d)"
    using False c room sum
    by (simp add: dyn_request_size_increase_def Let_def word_le_nat_alt unat_DYN_MAX)
  moreover have len: "length (da_array d) = unat (capacity d)" "unat (da_size d) \<le> unat (capacity d)"
    using inv by (auto simp: da_inv_def word_le_nat_alt)
  moreover have "take (unat (da_size d)) (da_array ?d) = take (unat (da_size d)) (da_array d)"
    using len cap by simp
  moreover have "da_inv ?d"
    using inv c k cap len order_trans [OF len(2) cap] by (auto simp: da_inv_def word_le_nat_alt)
  ultimately show ?thesis using c sum by (auto simp: da_elems_def)
qed


section \<open>The shift primitives refine list insertion and removal\<close>

lemma insert_slots:
  assumes len: "length arr = cap" and n: "take n arr = map Some es" "n = length es" "n + length xs \<le> cap"
    and p: "p \<le> n"
  defines "arr1 \<equiv> (if p \<noteq> n then slots_move arr (p + length xs) p (n - p) else arr)"
  shows "take (n + length xs) (slots_copy arr1 p xs) = map Some (take p es @ xs @ drop p es)"
    and "length (slots_copy arr1 p xs) = cap"
proof -
  have tp: "take p arr = map Some (take p es)" and dp: "take (n - p) (drop p arr) = map Some (drop p es)"
    using n p by (simp_all add: take_map drop_map flip: drop_take) (metis min.absorb1 n(1) take_map take_take)+
  show "take (n + length xs) (slots_copy arr1 p xs) = map Some (take p es @ xs @ drop p es)"
  proof (cases "p = n")
    case True
    then show ?thesis using tp n len by (simp add: arr1_def slots_copy_def)
  next
    case False
    then have "take p arr1 = map Some (take p es)"
      "drop (p + length xs) arr1 = map Some (drop p es) @ drop (n + length xs) arr"
      using tp dp p n len by (simp_all add: arr1_def slots_move_def ac_simps)
    then show ?thesis using n p len by (simp add: slots_copy_def)
  qed
  show "length (slots_copy arr1 p xs) = cap"
    using n p len by (auto simp: slots_copy_def slots_move_def arr1_def)
qed

lemma shift_insert_refines:
  assumes inv: "da_inv d" and pos: "position \<le> da_size d"
    and cnt: "cnt \<noteq> 0" "length xs = unat cnt" and room: "unat (da_size d) + unat cnt \<le> 2 ^ 56"
  shows "\<exists>d'. dyn_shift_insert True (Some d) position cnt MODE_INSERT (Some xs) = Some (True, Some d') \<and>
    da_inv d' \<and> destructor d' = destructor d \<and>
    da_elems d' = take (unat position) (da_elems d) @ xs @ drop (unat position) (da_elems d)"
proof -
  obtain d1 where d1: "dyn_request_size_increase True (Some d) cnt = Some (True, Some d1)" "da_inv d1"
      "da_elems d1 = da_elems d" "da_size d1 = da_size d" "destructor d1 = destructor d"
      "unat (da_size d) + unat cnt \<le> unat (capacity d1)"
    using request_ok [OF inv room] by blast
  define p where "p = unat position"
  define n where "n = unat (da_size d)"
  have p: "p \<le> n" using pos by (simp add: p_def n_def word_le_nat_alt)
  have pc: "unat (position + cnt) = p + length xs"
    using p room cnt by (simp add: p_def n_def unat_word_ariths)
  have np: "unat (da_size d - position) = n - p"
    using pos by (simp add: p_def n_def unat_sub word_le_nat_alt)
  have eq: "position \<noteq> da_size d \<longleftrightarrow> p \<noteq> n" by (simp add: p_def n_def word_unat_eq_iff)
  have len: "length (da_array d1) = unat (capacity d1)" using d1(2) by (simp add: da_inv_def)
  have el: "take n (da_array d1) = map Some (da_elems d)" "n = length (da_elems d)"
    using da_slots [OF d1(2)] length_da_elems [OF inv] d1 by (simp_all add: n_def)
  let ?arr1 = "if p \<noteq> n then slots_move (da_array d1) (p + length xs) p (n - p) else da_array d1"
  let ?d' = "d1\<lparr>da_array := slots_copy ?arr1 p xs, da_size := da_size d1 + cnt\<rparr>"
  note slots = insert_slots [OF len el d1(6) [folded n_def, folded cnt(2)] p]
  have "dyn_shift_insert True (Some d) position cnt MODE_INSERT (Some xs) = Some (True, Some ?d')"
    using d1 cnt pos by (simp add: dyn_shift_insert_def Let_def eq pc np p_def [symmetric])
  moreover have sz: "unat (da_size d1 + cnt) = n + length xs"
    using unat_size_add [OF inv, of cnt] room cnt d1 by (simp add: n_def)
  moreover have "da_elems ?d' = take p (da_elems d) @ xs @ drop p (da_elems d)"
    using slots(1) sz by (simp add: da_elems_def o_def)
  moreover have "da_inv ?d'"
    using d1(2) slots sz d1(6) cnt(2) by (simp add: da_inv_def word_le_nat_alt n_def)
  ultimately show ?thesis using d1 by (auto simp: p_def)
qed

lemma shift_insert_rejects:
  "\<not> position \<le> da_size d \<Longrightarrow> dyn_shift_insert ok (Some d) position cnt mode src = Some (False, Some d)"
  by (auto simp: dyn_shift_insert_def split: option.splits)

lemma remove_slots:
  assumes len: "length arr = cap" and n: "take n arr = map Some es" "n = length es" "n \<le> cap"
    and p: "p + c \<le> n"
  defines "arr1 \<equiv> (if p + c < n then slots_move arr p (p + c) (n - (p + c)) else arr)"
  shows "take (n - c) arr1 = map Some (take p es @ drop (p + c) es)" and "length arr1 = cap"
    and "take c (drop p arr) = map Some (take c (drop p es))"
proof -
  have tp: "take p arr = map Some (take p es)"
    using n p by (metis add_leD1 min.absorb1 take_map take_take)
  have dp: "take (n - (p + c)) (drop (p + c) arr) = map Some (drop (p + c) es)"
    using n by (metis drop_map drop_take)
  show "take (n - c) arr1 = map Some (take p es @ drop (p + c) es)"
  proof (cases "p + c < n")
    case True
    then show ?thesis using tp dp n p len by (simp add: arr1_def slots_move_def)
  next
    case False
    with p have "n - c = p" "drop (p + c) es = []" using n by simp_all
    with False tp show ?thesis by (simp add: arr1_def)
  qed
  show "length arr1 = cap" using n p len by (auto simp: arr1_def slots_move_def)
  show "take c (drop p arr) = map Some (take c (drop p es))"
    using n p by (metis add.commute add_leD1 drop_map drop_take le_diff_conv2 min.absorb1 take_map take_take)
qed

lemma shift_remove_refines:
  assumes inv: "da_inv d" and cnt: "cnt \<noteq> 0" and pos: "unat position + unat cnt \<le> unat (da_size d)"
    and mode: "mode = MODE_ERASE \<or> mode = MODE_EXTRACT \<and> has_dst"
  shows "\<exists>r d'. dyn_shift_remove (Some d) position cnt mode has_dst = Some r \<and> rm_ok r \<and>
    rm_array r = Some d' \<and> da_inv d' \<and>
    da_elems d' = take (unat position) (da_elems d) @ drop (unat position + unat cnt) (da_elems d) \<and>
    (let gone = map Some (take (unat cnt) (drop (unat position) (da_elems d))) in
     rm_dst r = (if mode = MODE_ERASE then [] else gone) \<and>
     rm_destroyed r = (if mode = MODE_ERASE \<and> destructor d then gone else []))"
proof -
  define p where "p = unat position"
  define n where "n = unat (da_size d)"
  define c where "c = unat cnt"
  have bound: "n \<le> 2 ^ 56" using da_size_bound [OF inv] by (simp add: n_def)
  have p: "p + c \<le> n" using pos by (simp add: p_def n_def c_def)
  have pc: "unat (position + cnt) = p + c"
    using p bound by (simp add: p_def c_def unat_word_ariths)
  have R: "position + cnt \<le> da_size d" using p pc by (simp add: word_le_nat_alt n_def)
  have lt: "position + cnt < da_size d \<longleftrightarrow> p + c < n" using pc by (simp add: word_less_nat_alt n_def)
  have np: "unat (da_size d - (position + cnt)) = n - (p + c)"
    using R pc by (simp add: unat_sub n_def)
  have len: "length (da_array d) = unat (capacity d)" "n \<le> unat (capacity d)"
    using inv by (simp_all add: da_inv_def n_def word_le_nat_alt)
  have el: "take n (da_array d) = map Some (da_elems d)" "n = length (da_elems d)"
    using da_slots [OF inv] length_da_elems [OF inv] by (simp_all add: n_def)
  note slots = remove_slots [OF len(1) el len(2) p]
  have sz: "unat (da_size d - cnt) = n - c"
    using p by (simp add: unat_sub n_def c_def word_le_nat_alt)
  have nz: "da_size d \<noteq> 0" using p cnt by (auto simp: n_def c_def unat_eq_zero)
  let ?arr = "if p + c < n then slots_move (da_array d) p (p + c) (n - (p + c)) else da_array d"
  let ?d' = "d\<lparr>da_array := ?arr, da_size := da_size d - cnt\<rparr>"
  have "da_elems ?d' = take p (da_elems d) @ drop (p + c) (da_elems d)"
    using slots(1) sz by (simp add: da_elems_def o_def)
  moreover have "da_inv ?d'"
    using inv slots sz p len by (simp add: da_inv_def word_le_nat_alt n_def) auto
  moreover have "MODE_IS_TYPE mode TYPE_REMOVE" using mode by (auto simp: MODE_IS_TYPE_def TYPE_REMOVE_def)
  ultimately show ?thesis
    using mode cnt nz R len p slots(3)
    by (auto simp: dyn_shift_remove_def Let_def lt pc np p_def [symmetric] c_def [symmetric])
qed


section \<open>The public operations\<close>

lemma push_front_refines:
  assumes "da_inv d" and "unat (da_size d) < 2 ^ 56"
  shows "\<exists>d'. dyn_array_push_front True (Some d) (Some x) = Some (True, Some d') \<and> da_inv d' \<and>
    destructor d' = destructor d \<and> da_elems d' = x # da_elems d"
  using shift_insert_refines [of d 0 1 "[x]"] assms by (auto simp: dyn_array_push_front_def)

lemma push_back_refines:
  assumes "da_inv d" and "unat (da_size d) < 2 ^ 56"
  shows "\<exists>d'. dyn_array_push_back True (Some d) (Some x) = Some (True, Some d') \<and> da_inv d' \<and>
    destructor d' = destructor d \<and> da_elems d' = da_elems d @ [x]"
  using shift_insert_refines [of d "da_size d" 1 "[x]"] assms
  by (auto simp: dyn_array_push_back_def length_da_elems)

lemma extract_back_refines:
  assumes inv: "da_inv d" and ne: "da_elems d \<noteq> []"
  shows "\<exists>r d'. dyn_array_extract_back (Some d) True = Some r \<and> rm_ok r \<and> rm_array r = Some d' \<and> da_inv d' \<and>
    da_elems d' = butlast (da_elems d) \<and> rm_dst r = [Some (last (da_elems d))]"
proof -
  let ?n = "unat (da_size d)"
  have len: "length (da_elems d) = ?n" using inv by (rule length_da_elems)
  with ne have pos: "0 < ?n" by (metis length_greater_0_conv)
  then have nz: "da_size d \<noteq> 0" by auto
  have p: "unat (da_size d - 1) = ?n - 1" using pos by (simp add: unat_sub word_le_nat_alt)
  have "drop (?n - 1) (da_elems d) = [last (da_elems d)]"
    using ne len by (metis append_butlast_last_id append_eq_conv_conj length_butlast)
  moreover have "take (?n - 1) (da_elems d) = butlast (da_elems d)"
    using len by (simp add: butlast_conv_take)
  ultimately show ?thesis
    using shift_remove_refines [OF inv, of 1 "da_size d - 1" MODE_EXTRACT True] pos len
    by (auto simp: dyn_array_extract_back_def nz p)
qed

lemma sorted_position_spec:
  assumes inv: "da_inv d" and "pos \<le> unat (da_size d)"
    and "\<forall>j<pos. cmp x (da_elems d ! j) > 0"
  shows "sorted_position cmp x d pos \<le> unat (da_size d) \<and>
    (\<forall>j < sorted_position cmp x d pos. cmp x (da_elems d ! j) > 0) \<and>
    (sorted_position cmp x d pos < unat (da_size d) \<longrightarrow>
      \<not> cmp x (da_elems d ! sorted_position cmp x d pos) > 0)"
  using assms
proof (induction cmp x d pos rule: sorted_position.induct)
  case (1 cmp x d pos)
  have el: "pos < unat (da_size d) \<Longrightarrow> the (da_array d ! pos) = da_elems d ! pos"
    using 1(2) by (simp add: da_elems_def da_inv_def word_le_nat_alt)
  show ?case
  proof (cases "pos < unat (da_size d) \<and> cmp x (the (da_array d ! pos)) > 0")
    case True
    then have "\<forall>j<Suc pos. cmp x (da_elems d ! j) > 0" using 1(4) el by (auto simp: less_Suc_eq)
    with 1 True show ?thesis by (simp add: sorted_position.simps [of cmp x d pos])
  next
    case False
    with 1(3,4) el show ?thesis by (auto simp: sorted_position.simps [of cmp x d pos])
  qed
qed

lemma sorted_wrt_insert_at:
  assumes tr: "\<And>a b c. R a b \<Longrightarrow> R b c \<Longrightarrow> R a c" and s: "sorted_wrt R es"
    and lo: "\<forall>j<p. R (es ! j) x" and hi: "p < length es \<longrightarrow> R x (es ! p)" and p: "p \<le> length es"
  shows "sorted_wrt R (take p es @ x # drop p es)"
proof -
  have "\<forall>y \<in> set (take p es). R y x" using lo p by (auto simp: in_set_conv_nth)
  moreover have x: "\<forall>y \<in> set (drop p es). R x y"
  proof
    fix y assume "y \<in> set (drop p es)"
    then obtain k where k: "p + k < length es" "y = es ! (p + k)"
      by (metis add.commute in_set_conv_nth length_drop less_diff_conv nth_drop p)
    show "R x y"
    proof (cases "k = 0")
      case False
      then have "R (es ! p) y" using s k by (auto simp: sorted_wrt_iff_nth_less)
      with hi k show ?thesis using tr by auto
    qed (use hi k in auto)
  qed
  moreover have "sorted_wrt R (take p es @ drop p es)" using s by simp
  ultimately show ?thesis using tr by (auto simp: sorted_wrt_append simp del: append_take_drop_id) 
qed

lemma insert_sorted_refines:
  assumes inv: "da_inv d" and room: "unat (da_size d) < 2 ^ 56"
    and cmp: "\<And>a b. cmp a b > 0 \<Longrightarrow> R b a" "\<And>a b. \<not> cmp a b > 0 \<Longrightarrow> R a b"
    and tr: "\<And>a b c. R a b \<Longrightarrow> R b c \<Longrightarrow> R a c" and s: "sorted_wrt R (da_elems d)"
  shows "\<exists>d'. dyn_array_insert_sorted True (Some d) (Some x) (Some cmp) = Some (True, Some d') \<and>
    da_inv d' \<and> sorted_wrt R (da_elems d') \<and> mset (da_elems d') = add_mset x (mset (da_elems d))"
proof -
  define p where "p = sorted_position cmp x d 0"
  have zero: "da_size d = 0 \<Longrightarrow> p = 0"
    by (simp add: p_def sorted_position.simps)
  have p: "p \<le> unat (da_size d)" "\<forall>j<p. cmp x (da_elems d ! j) > 0"
      "p < unat (da_size d) \<longrightarrow> \<not> cmp x (da_elems d ! p) > 0"
    using sorted_position_spec [OF inv, of 0 cmp x] by (simp_all add: p_def)
  have up: "unat (of_nat p :: uint64_t) = p" using p(1) room by (simp add: unat_of_nat)
  have len: "length (da_elems d) = unat (da_size d)" using inv by (rule length_da_elems)
  obtain d' where d': "dyn_shift_insert True (Some d) (of_nat p) 1 MODE_INSERT (Some [x]) = Some (True, Some d')"
      "da_inv d'" "da_elems d' = take p (da_elems d) @ x # drop p (da_elems d)"
    using shift_insert_refines [OF inv, of "of_nat p" 1 "[x]"] p(1) room up
    by (auto simp: word_le_nat_alt)
  have "sorted_wrt R (da_elems d')"
    unfolding d' using p cmp len by (intro sorted_wrt_insert_at [OF tr s]) auto
  moreover have "mset (da_elems d') = add_mset x (mset (da_elems d))"
    unfolding d' by (metis append_take_drop_id mset_append union_mset_add_mset_right mset.simps(2))
  ultimately show ?thesis using d' zero by (auto simp: dyn_array_insert_sorted_def p_def Let_def)
qed

text \<open>
  Interface of a container filled at the front, as \<^verbatim>\<open>fs_get_dir\<close> fills its result: each push
  puts one element before the others, up to a bound.
\<close>

locale front_stack =
  fixes push :: "'a \<Rightarrow> 's \<Rightarrow> 's" and elems :: "'s \<Rightarrow> 'a list" and invar :: "'s \<Rightarrow> bool" and room :: nat
  assumes push: "invar s \<Longrightarrow> length (elems s) < room \<Longrightarrow> invar (push x s) \<and> elems (push x s) = x # elems s"
begin

lemma push_all:
  "invar s \<Longrightarrow> length (elems s) + length xs \<le> room \<Longrightarrow>
    invar (fold push xs s) \<and> elems (fold push xs s) = rev xs @ elems s"
proof (induction xs arbitrary: s)
  case (Cons x xs)
  then have "invar (push x s)" "elems (push x s) = x # elems s" using push by auto
  with Cons show ?case by simp
qed simp

end

definition push_front_or_same :: "'a \<Rightarrow> 'a dyn_array_t option \<Rightarrow> 'a dyn_array_t option" where
  "push_front_or_same x da = (case dyn_array_push_front True da (Some x) of
       Some (_, da') \<Rightarrow> da' | None \<Rightarrow> da)"

interpretation front: front_stack push_front_or_same "\<lambda>da. da_elems (the da)"
    "\<lambda>da. \<exists>d. da = Some d \<and> da_inv d" "2 ^ 56"
proof unfold_locales
  fix s :: "'a dyn_array_t option" and x
  assume "\<exists>d. s = Some d \<and> da_inv d" and "length (da_elems (the s)) < 2 ^ 56"
  then obtain d where d: "s = Some d" "da_inv d" "unat (da_size d) < 2 ^ 56"
    by (auto simp: length_da_elems)
  then show "(\<exists>d. push_front_or_same x s = Some d \<and> da_inv d) \<and>
      da_elems (the (push_front_or_same x s)) = x # da_elems (the s)"
    using push_front_refines [of d x] by (auto simp: push_front_or_same_def)
qed

lemma shift_remove_rejects:
  "\<not> position + cnt \<le> da_size d \<Longrightarrow> dyn_shift_remove (Some d) position cnt mode dst = Some (no_removal (Some d))"
  by (simp add: dyn_shift_remove_def)

lemma clear_refines:
  assumes "da_inv d"
  shows "\<exists>r d'. dyn_array_clear (Some d) = Some r \<and> rm_array r = Some d' \<and> da_inv d' \<and> da_elems d' = [] \<and>
    rm_destroyed r = (if destructor d then map Some (da_elems d) else [])"
proof (cases "da_size d = 0")
  case True
  with assms show ?thesis by (simp add: dyn_array_clear_def no_removal_def da_elems_def)
next
  case False
  with assms show ?thesis
    using shift_remove_refines [OF assms, of "da_size d" 0 MODE_ERASE False]
    by (auto simp: dyn_array_clear_def length_da_elems)
qed

definition example_array :: "nat dyn_array_t" where
  "example_array = \<lparr>capacity = 16, da_size = 2, data_size = 8,
     da_array = [Some 1, Some 5] @ replicate 14 None, destructor = True\<rparr>"

lemma example_array_inv: "da_inv example_array"
  unfolding da_inv_def
  by (intro conjI exI [of _ "4 :: nat"]) (simp_all add: example_array_def word_le_nat_alt)

lemma example_array_elems: "da_elems example_array = [1, 5]" "da_size example_array = 2"
  "destructor example_array"
  by (simp_all add: da_elems_def example_array_def)

section \<open>Properties\<close>

text \<open>C25: inserting at an index no greater than the size succeeds (given memory), keeps the array
  well formed, growing its buffer when it is full, and is insertion into the list of elements.\<close>

theorem dyn_array_insert_refines:
  assumes "da_inv d" and "index \<le> da_size d" and "unat (da_size d) < 2 ^ 56"
  shows "\<exists>d'. dyn_array_insert True (Some d) index (Some x) = Some (True, Some d') \<and> da_inv d' \<and>
    da_elems d' = take (unat index) (da_elems d) @ x # drop (unat index) (da_elems d)"
  using shift_insert_refines [of d index 1 "[x]"] assms by (auto simp: dyn_array_insert_def)

theorem dyn_array_insert_refines_witness:
  "\<exists>d'. dyn_array_insert True (Some example_array) 1 (Some 3) = Some (True, Some d') \<and> da_inv d' \<and>
    da_elems d' = [1, 3, 5]"
  using dyn_array_insert_refines [OF example_array_inv, of 1 3] by (simp add: example_array_elems)

text \<open>C26: sorted insertion keeps the array sorted and adds exactly the new element, for any
  comparator that reflects a transitive order.\<close>

theorem dyn_array_insert_sorted_sorted:
  assumes "da_inv d" and "unat (da_size d) < 2 ^ 56"
    and "\<And>a b. cmp a b > 0 \<Longrightarrow> ord b a" and "\<And>a b. \<not> cmp a b > 0 \<Longrightarrow> ord a b"
    and "\<And>a b c. ord a b \<Longrightarrow> ord b c \<Longrightarrow> ord a c" and "sorted_wrt ord (da_elems d)"
  shows "\<exists>d'. dyn_array_insert_sorted True (Some d) (Some x) (Some cmp) = Some (True, Some d') \<and>
    da_inv d' \<and> sorted_wrt ord (da_elems d') \<and> mset (da_elems d') = add_mset x (mset (da_elems d))"
  using assms by (rule insert_sorted_refines)

theorem dyn_array_insert_sorted_sorted_witness:
  "\<exists>d'. dyn_array_insert_sorted True (Some example_array) (Some 3) (Some (\<lambda>a b. int a - int b)) =
      Some (True, Some d') \<and> da_inv d' \<and> sorted_wrt (\<le>) (da_elems d') \<and>
      mset (da_elems d') = {#1, 3, 5#}"
  using dyn_array_insert_sorted_sorted [OF example_array_inv, of "\<lambda>a b. int a - int b" "(\<le>)" 3]
  by (simp add: example_array_elems add_mset_commute)

text \<open>What is pushed at the back comes back first: \<^verbatim>\<open>dyn_array_extract_back\<close> after
  \<^verbatim>\<open>dyn_array_push_back\<close> yields the object and restores the elements.\<close>

theorem dyn_array_push_extract_back:
  assumes "da_inv d" and "unat (da_size d) < 2 ^ 56"
  shows "\<exists>d1 r d2. dyn_array_push_back True (Some d) (Some x) = Some (True, Some d1) \<and>
    dyn_array_extract_back (Some d1) True = Some r \<and> rm_ok r \<and> rm_dst r = [Some x] \<and>
    rm_array r = Some d2 \<and> da_inv d2 \<and> da_elems d2 = da_elems d"
proof -
  obtain d1 where d1: "dyn_array_push_back True (Some d) (Some x) = Some (True, Some d1)" "da_inv d1"
      "da_elems d1 = da_elems d @ [x]"
    using push_back_refines [OF assms, of x] by blast
  with extract_back_refines [of d1] show ?thesis by auto
qed

text \<open>C40: the range check of a removal wraps. On a well-formed non-empty array, erasing an index
  past the end returns false and changes nothing, except for the index \<^verbatim>\<open>SIZE_MAX\<close>: there
  \<^verbatim>\<open>position + count\<close> is 0, the check passes and the code accesses memory outside its buffer.\<close>

theorem dyn_array_erase_out_of_range:
  assumes "da_inv d" and "da_size d \<noteq> 0" and "da_size d \<le> index"
  shows "dyn_array_erase (Some d) index = (if index = -1 then None else Some (no_removal (Some d)))"
proof (cases "index = -1")
  case True
  have "length (da_array d) < 2 ^ 64"
    using assms(1) unsigned_less [of "capacity d", where 'a = nat] by (simp add: da_inv_def)
  with True assms show ?thesis
    by (simp add: dyn_array_erase_def dyn_shift_remove_def MODE_IS_TYPE_def TYPE_REMOVE_def
        unsigned_minus_1_eq_mask mask_eq_exp_minus_1)
next
  case False
  then have "1 + index \<noteq> 0" by (metis add.commute add_eq_0_iff)
  then have "unat (index + 1) = Suc (unat index)" by (metis add.commute unatSuc)
  with False assms(3) show ?thesis
    by (simp add: dyn_array_erase_def shift_remove_rejects word_le_nat_alt)
qed

theorem dyn_array_erase_out_of_range_witness:
  "dyn_array_erase (Some example_array) (-1) = None"
  using dyn_array_erase_out_of_range [OF example_array_inv, of "-1"] by (simp add: example_array_elems)

text \<open>Destroying a well-formed array calls the destructor exactly once on each element, in
  order (and on nothing when it has none).\<close>

theorem dyn_array_destroy_calls:
  assumes "da_inv d"
  shows "dyn_array_destroy (Some d) = Some (if destructor d then map Some (da_elems d) else [])"
  using clear_refines [OF assms] by (auto simp: dyn_array_destroy_def)

theorem dyn_array_destroy_calls_witness: "dyn_array_destroy (Some example_array) = Some [Some 1, Some 5]"
  using dyn_array_destroy_calls [OF example_array_inv] by (simp add: example_array_elems)

end
