(* ===== verification/FS_Open.thy ===== *)
theory FS_Open
  imports FS_Create Dyn_Array
begin

text \<open>
  Opening, closing and listing: \<^verbatim>\<open>fs_open\<close>, \<^verbatim>\<open>fs_close\<close> and \<^verbatim>\<open>fs_get_dir\<close>. The lemmas reduce each
  call to the resolution of its path; the properties state what the descriptor, the descriptor
  table and the listing are afterwards.
\<close>

unbundle bit_operations_syntax

section \<open>\<^verbatim>\<open>fs_open\<close> and \<^verbatim>\<open>fs_close\<close>\<close>

text \<open>\<open>None\<close>: the path overruns a buffer.\<close>

definition fs_open :: "F19FS_t option \<Rightarrow> cstring option \<Rightarrow> mem \<Rightarrow> (int \<times> mem) option" where
  "fs_open fso patho m =
     (if fso \<noteq> None \<and> patho \<noteq> None \<and> length (the patho) \<noteq> 0 then
        (let fs = the fso in
         if \<not> path_safe 65535 (the patho) then None
         else case checked_tokens (the patho) of
           None \<Rightarrow> Some (-1, m)
         | Some (tokens, cnt) \<Rightarrow>
             (let w = walk fs m (take cnt tokens) in
              if walk_indicator w = cnt then
                (let (fd_ID, m1) = block_store_sub_allocate (BlockStore_fd fs) m in
                 if fd_ID < NUM_FD then
                   (let file_inode_ID = walk_inode_ID w;
                        file_inode = snd (read_inode (BlockStore_inode fs) file_inode_ID zero_inode m1)
                    in if fileType file_inode = ch_d then Some (-1, m1)
                       else
                         (let fd = zero_fd\<lparr>inodeNum := of_nat file_inode_ID, usage := 1, locate_order := 0,
                                           locate_offset := 0\<rparr>
                          in Some (int fd_ID, snd (write_fd (BlockStore_fd fs) fd_ID fd m1))))
                 else Some (-1, m1))
              else Some (-1, m)))
      else Some (-1, m))"

definition fs_close :: "F19FS_t option \<Rightarrow> int \<Rightarrow> mem \<Rightarrow> int \<times> mem" where
  "fs_close fso fd m =
     (if fso \<noteq> None \<and> fd \<ge> 0 \<and> fd < 256 then
        (let fs = the fso in
         if block_store_sub_test (BlockStore_fd fs) (nat fd) m
         then (0, block_store_sub_release (BlockStore_fd fs) (nat fd) m)
         else (-1, m))
      else (-1, m))"

section \<open>\<^verbatim>\<open>fs_get_dir\<close>\<close>

record file_record_t =
  rec_name :: cstring
  rec_type :: file_t

text \<open>
  The record of entry \<open>j\<close>: \<^verbatim>\<open>calloc\<close> makes the type \<^verbatim>\<open>FS_REGULAR\<close> (zero), and it stays so unless
  the member is a directory; the test for \<^verbatim>\<open>'f'\<close> never holds for an inode this code writes.
\<close>

abbreviation ch_f :: byte where "ch_f \<equiv> 0x66"

definition dir_record :: "F19FS_t \<Rightarrow> mem \<Rightarrow> byte list \<Rightarrow> nat \<Rightarrow> file_record_t" where
  "dir_record fs m dir_data j =
     (let member_inode = snd (read_inode (BlockStore_inode fs) (unat (entry_inode dir_data j)) zero_inode m)
      in \<lparr>rec_name = cstr_at (entry_filename dir_data j),
          rec_type = (if fileType member_inode = ch_d then FS_DIRECTORY
                      else if fileType member_inode = ch_f then FS_REGULAR else FS_REGULAR)\<rparr>)"

text \<open>
  The path is copied into 200 bytes: a longer one overruns them (the outer \<open>None\<close>). A path that does
  not start with a slash makes \<^verbatim>\<open>str_split\<close> return \<^verbatim>\<open>NULL\<close>, which \<^verbatim>\<open>fs_get_dir\<close> dereferences (the
  outer \<open>None\<close> again). The allocations succeed.
\<close>

definition fs_get_dir ::
    "F19FS_t option \<Rightarrow> cstring option \<Rightarrow> mem \<Rightarrow> file_record_t dyn_array_t option option" where
  "fs_get_dir fso patho m =
     (if fso \<noteq> None \<and> patho \<noteq> None \<and> length (the patho) \<noteq> 0 then
        (let fs = the fso in
         if \<not> path_safe 200 (the patho) then None
         else case the (str_split (the patho) slash) of
           None \<Rightarrow> None
         | Some (tokens, cnt0) \<Rightarrow>
             (let cnt = (if length (tokens ! 0) = 0 then cnt0 - 1 else cnt0) in
              if length (tokens ! 0) \<noteq> 0 \<and> \<not> list_all (\<lambda>n. isValidFileName (Some (tokens ! n))) [0..<cnt]
              then Some None
              else
                (let w = walk fs m (take cnt tokens) in
                 if walk_indicator w = cnt then
                   (let dir_inode = snd (read_inode (BlockStore_inode fs) (walk_inode_ID w) zero_inode m) in
                    if fileType dir_inode = ch_d then
                      (let dir_data = snd (read_block fs (direct0 dir_inode) zero_block m) in
                       case dyn_array_create True True 15 36 False of
                         None \<Rightarrow> None
                       | Some dynArray \<Rightarrow>
                           Some (fold (\<lambda>j da. if vacant_shift_test (vacantFile dir_inode) j
                                              then push_front_or_same (dir_record fs m dir_data j) da else da)
                                   [0..<NUM_OF_ENTRIES] dynArray))
                    else Some None)
                 else Some None)))
      else Some None)"

section \<open>\<^verbatim>\<open>fs_open\<close> and \<^verbatim>\<open>fs_close\<close>, case by case\<close>

definition opened :: "nat \<Rightarrow> nat \<Rightarrow> mem \<Rightarrow> mem" where
  "opened f i m = put_fd f \<lparr>inodeNum = of_nat i, usage = 1, locate_order = 0, locate_offset = 0\<rparr> (bitmap_set fd_bm f m)"

lemma fs_open_cases:
  assumes inv: "dirs_ok m" and ct: "checked_tokens path = Some (tokens, cnt)" and nul: "0 \<notin> set path"
  defines "f \<equiv> bitmap_ffz (Some fd_bm) m"
  shows "resolve m 0 tokens = None \<Longrightarrow> fs_open (Some (the_fs h)) (Some path) m = Some (-1, m)"
    and "resolve m 0 tokens = Some i \<Longrightarrow> f = SIZE_MAX \<Longrightarrow> fs_open (Some (the_fs h)) (Some path) m = Some (-1, m)"
    and "resolve m 0 tokens = Some i \<Longrightarrow> f \<noteq> SIZE_MAX \<Longrightarrow> is_dir m i \<Longrightarrow>
      fs_open (Some (the_fs h)) (Some path) m = Some (-1, bitmap_set fd_bm f m)"
    and "resolve m 0 tokens = Some i \<Longrightarrow> f \<noteq> SIZE_MAX \<Longrightarrow> \<not> is_dir m i \<Longrightarrow>
      fs_open (Some (the_fs h)) (Some path) m = Some (int f, opened f i m)"
proof -
  note t = checked_tokens_Some [OF ct]
  have nn: "\<forall>n \<in> set tokens. 0 \<notin> set n" using checked_tokens_no_nul [OF ct nul] .
  note w = walk_resolve [OF inv nn, where h = h]
  have path: "path \<noteq> []" "path_safe 65535 path" using checked_tokens_safe [OF ct] by simp_all
  have tk: "take cnt tokens = tokens" "length tokens = cnt" using t by simp_all
  show "resolve m 0 tokens = None \<Longrightarrow> fs_open (Some (the_fs h)) (Some path) m = Some (-1, m)"
    using w(1) path tk by (simp add: fs_open_def ct)
  assume i: "resolve m 0 tokens = Some i"
  then have pw: "walk_indicator (walk (the_fs h) m tokens) = cnt" "walk_inode_ID (walk (the_fs h) m tokens) = i"
    using w(1,2) tk by auto
  have i256: "i < 256" using resolve_bound [OF _ i] by simp
  show "f = SIZE_MAX \<Longrightarrow> fs_open (Some (the_fs h)) (Some path) m = Some (-1, m)"
    using pw path tk by (simp add: fs_open_def ct allocate_fd f_def)
  assume f: "f \<noteq> SIZE_MAX"
  then have fb: "f < 256" using fds.ffz_found [of m] by (simp add: f_def)
  have al: "block_store_sub_allocate (Some fd_store) m = (f, bitmap_set fd_bm f m)"
    using f by (simp add: allocate_fd f_def Let_def)
  show "is_dir m i \<Longrightarrow> fs_open (Some (the_fs h)) (Some path) m = Some (-1, bitmap_set fd_bm f m)"
    using pw path tk i256 fb by (simp add: fs_open_def ct al Let_def get_inode_fd is_dir_def)
  show "\<not> is_dir m i \<Longrightarrow> fs_open (Some (the_fs h)) (Some path) m = Some (int f, opened f i m)"
    using pw path tk i256 fb by (simp add: fs_open_def ct al Let_def get_inode_fd is_dir_def opened_def zero_fd_def)
qed

lemma fs_close_cases:
  "bitmap_test fd_bm f m \<Longrightarrow> f < 256 \<Longrightarrow> fs_close (Some (the_fs h)) (int f) m = (0, bitmap_reset fd_bm f m)"
  "\<not> bitmap_test fd_bm f m \<Longrightarrow> f < 256 \<Longrightarrow> fs_close (Some (the_fs h)) (int f) m = (-1, m)"
  "fd < 0 \<or> 256 \<le> fd \<Longrightarrow> fs_close fso fd m = (-1, m)"
  by (auto simp: fs_close_def block_store_sub_test_def block_store_sub_release_def)

section \<open>\<^verbatim>\<open>fs_get_dir\<close> lists the used entries\<close>

definition listing :: "mem \<Rightarrow> nat \<Rightarrow> file_record_t list" where
  "listing m d = map (\<lambda>j. \<lparr>rec_name = entry_name (dir_block m d) j,
       rec_type = (if is_dir m (unat (entry_inode (dir_block m d) j)) then FS_DIRECTORY else FS_REGULAR)\<rparr>)
     (filter (dir_used m d) [0..<31])"

text \<open>In terms of the names of the directory: one record for each.\<close>

lemma listing_names:
  assumes "dir_ok m d"
  shows "set (listing m d) = {\<lparr>rec_name = n, rec_type = (if is_dir m i then FS_DIRECTORY else FS_REGULAR)\<rparr> | n i.
      lookup m d n = Some i}" and "distinct (map rec_name (listing m d))"
proof -
  let ?rec = "\<lambda>j. \<lparr>rec_name = entry_name (dir_block m d) j,
    rec_type = (if is_dir m (unat (entry_inode (dir_block m d) j)) then FS_DIRECTORY else FS_REGULAR)\<rparr>"
  have set: "set (listing m d) = ?rec ` {j. dir_used m d j}" by (auto simp: listing_def dir_used_def)
  show "set (listing m d) = {\<lparr>rec_name = n, rec_type = (if is_dir m i then FS_DIRECTORY else FS_REGULAR)\<rparr> | n i.
      lookup m d n = Some i}"
    unfolding set
  proof (intro equalityI subsetI)
    fix x assume "x \<in> ?rec ` {j. dir_used m d j}"
    then obtain j where "dir_used m d j" "x = ?rec j" by blast
    with used_lookup [OF assms] show "x \<in> {\<lparr>rec_name = n,
        rec_type = (if is_dir m i then FS_DIRECTORY else FS_REGULAR)\<rparr> | n i. lookup m d n = Some i}" by blast
  next
    fix x assume "x \<in> {\<lparr>rec_name = n, rec_type = (if is_dir m i then FS_DIRECTORY else FS_REGULAR)\<rparr> | n i. lookup m d n = Some i}"
    then obtain n i where x: "x = \<lparr>rec_name = n, rec_type = (if is_dir m i then FS_DIRECTORY else FS_REGULAR)\<rparr>"
      "lookup m d n = Some i" by blast
    from lookup_used [OF this(2)] obtain j where j: "dir_used m d j" "entry_name (dir_block m d) j = n" by blast
    with used_lookup [OF assms j(1)] x show "x \<in> ?rec ` {j. dir_used m d j}" by auto
  qed
  have "inj_on (entry_name (dir_block m d)) {j. dir_used m d j}" using assms by (auto simp: dir_ok_def inj_on_def)
  then show "distinct (map rec_name (listing m d))"
    by (simp add: listing_def distinct_map o_def) (auto intro: inj_on_subset)
qed

lemma fold_filter: "fold (\<lambda>j s. if P j then f j s else s) xs s = fold f (filter P xs) s"
  by (induction xs arbitrary: s) auto

lemma dir_record_eq:
  "dir_record (the_fs h) m blk j = \<lparr>rec_name = entry_name blk j,
     rec_type = (if is_dir m (unat (entry_inode blk j)) then FS_DIRECTORY else FS_REGULAR)\<rparr>"
  using unsigned_less [of "entry_inode blk j", where 'a = nat]
  by (simp add: dir_record_def entry_name_def is_dir_def)

lemma create_15: "\<exists>d0. dyn_array_create True True 15 36 False = Some (Some d0)"
proof -
  have "grow 15 16 = Some 16" by (simp add: grow.simps)
  then show ?thesis by (simp add: dyn_array_create_def DYN_MAX_CAPACITY_def)
qed

lemma fs_get_dir_fold:
  fixes m :: mem
  shows "\<exists>da. fold (\<lambda>j da. if vacant_shift_test (vacantFile (get_inode m d)) j
        then push_front_or_same (dir_record (the_fs h) m (dir_block m d) j) da else da) [0..<31]
        (the (dyn_array_create True True 15 36 False)) = Some da \<and> da_inv da \<and> da_elems da = rev (listing m d)"
proof -
  obtain d0 :: "file_record_t dyn_array_t" where d0: "dyn_array_create True True 15 36 False = Some (Some d0)"
      "da_inv d0" "da_elems d0 = []"
    using create_15 create_inv by blast
  let ?xs = "map (dir_record (the_fs h) m (dir_block m d)) (filter (bit (vacantFile (get_inode m d))) [0..<31])"
  have "filter (dir_used m d) [0..<31] = filter (bit (vacantFile (get_inode m d))) [0..<31]"
    by (rule filter_cong) (auto simp: dir_used_def)
  then have xs: "?xs = listing m d" by (simp add: listing_def dir_record_eq)
  have "length ?xs \<le> 31" using length_filter_le [of _ "[0..<31]"] by (metis diff_zero length_map length_upt)
  then have "(\<exists>da. fold push_front_or_same ?xs (Some d0) = Some da \<and> da_inv da) \<and>
      da_elems (the (fold push_front_or_same ?xs (Some d0))) = rev ?xs @ da_elems (the (Some d0))"
    using d0 by (intro front.push_all) auto
  then show ?thesis
    using d0 unfolding fold_filter vacant_shift_test_bit xs [symmetric] fold_map
    by (auto simp: o_def)
qed

lemma fs_get_dir_lists_tokens:
  assumes inv: "dirs_ok m" and sp: "str_split path slash = Some (Some (tokens, cnt))" and short: "length path < 200"
    and ok: "length (tokens ! 0) \<noteq> 0 \<Longrightarrow> list_all (\<lambda>n. isValidFileName (Some (tokens ! n))) [0..<cnt]"
    and d: "resolve m 0 (take (if length (tokens ! 0) = 0 then cnt - 1 else cnt) tokens) = Some d" "is_dir m d"
    and nul: "0 \<notin> set path"
  shows "\<exists>da. fs_get_dir (Some (the_fs h)) (Some path) m = Some (Some da) \<and> da_inv da \<and> da_elems da = rev (listing m d)"
proof -
  let ?cnt = "if length (tokens ! 0) = 0 then cnt - 1 else cnt"
  let ?ts = "take ?cnt tokens"
  have "\<forall>t \<in> set tokens. 0 \<notin> set t"
    using sp nul by (auto simp: str_split_def Let_def split: if_splits dest!: tokens_subset)
  then have nn: "\<forall>t \<in> set ?ts. 0 \<notin> set t" by (meson in_set_takeD)
  have len: "length ?ts = ?cnt" using str_split_length [OF sp] by auto
  note w = walk_resolve [OF inv nn, where h = h]
  have pw: "walk_indicator (walk (the_fs h) m ?ts) = ?cnt" "walk_inode_ID (walk (the_fs h) m ?ts) = d"
    using w d len by auto
  have d256: "d < 256" using resolve_bound [OF _ d(1)] by simp
  have dok: "dir_ok m d" using inv d256 d(2) by (simp add: dirs_ok_def)
  have rd: "read_block (the_fs h) (direct0 (get_inode m d)) zero_block m = (1024, dir_block m d)"
    using dok by (simp add: dir_ok_def dir_block_def)
  have path: "path \<noteq> []" "\<not> \<not> path_safe 200 path" using sp short by (auto simp: str_split_def path_safe_200)
  obtain d0 :: "file_record_t dyn_array_t option" where d0: "dyn_array_create True True 15 36 False = Some d0"
    using create_15 by blast
  obtain da where da: "fold (\<lambda>j da. if vacant_shift_test (vacantFile (get_inode m d)) j
        then push_front_or_same (dir_record (the_fs h) m (dir_block m d) j) da else da) [0..<31] d0 = Some da"
    "da_inv da" "da_elems da = rev (listing m d)"
    using fs_get_dir_fold [of m d h] unfolding d0 option.sel by blast
  have "fs_get_dir (Some (the_fs h)) (Some path) m = Some (Some da)"
  proof -
    have g: "\<not> (length (tokens ! 0) \<noteq> 0 \<and> \<not> list_all (\<lambda>n. isValidFileName (Some (tokens ! n))) [0..<?cnt])"
      using ok by auto
    have di: "snd (read_inode (Some inode_store) d zero_inode m) = get_inode m d" using d256 by simp
    show ?thesis
      unfolding fs_get_dir_def option.sel Let_def if_not_P [OF path(2)] sp option.sel option.case prod.case if_not_P [OF g] pw the_fs_simps di rd snd_conv d0
      using d(2) path(1) da by (simp add: is_dir_def)
  qed
  with da show ?thesis by blast
qed

lemma str_split_root: "str_split [slash] slash = Some (Some ([[]], 1))"
  by (simp add: str_split_def Let_def)

lemma fs_get_dir_lists:
  assumes inv: "dirs_ok m" and nul: "0 \<notin> set path" and d: "is_dir m d" and short: "length path < 200"
    and path: "path = [slash] \<and> d = 0 \<or>
      (\<exists>tokens cnt. checked_tokens path = Some (tokens, cnt) \<and> resolve m 0 tokens = Some d)"
  shows "\<exists>da. fs_get_dir (Some (the_fs h)) (Some path) m = Some (Some da) \<and> da_inv da \<and> da_elems da = rev (listing m d)"
  using path
proof (elim disjE exE conjE)
  assume "path = [slash]" "d = 0"
  with d show ?thesis
    using fs_get_dir_lists_tokens [OF inv str_split_root _ _ _ _ _, of d h] by simp
next
  fix tokens cnt assume ct: "checked_tokens path = Some (tokens, cnt)" and r: "resolve m 0 tokens = Some d"
  note t = checked_tokens_Some [OF ct]
  have sp: "str_split path slash = Some (Some (tokens, cnt))" and ok: "list_all (\<lambda>n. isValidFileName (Some (tokens ! n))) [0..<cnt]"
    using ct by (auto simp: checked_tokens_def path_safe_def split: option.splits if_splits)
  have "tokens ! 0 \<noteq> []" using t(2,3,4) valid_name_length nth_mem by blast
  then show ?thesis using fs_get_dir_lists_tokens [OF inv sp short ok _ d nul] r t(2) by simp
qed

lemma opened_fd:
  "f < 256 \<Longrightarrow> get_fd (opened f i m) g = (if f = g then \<lparr>inodeNum = of_nat i, usage = 1, locate_order = 0, locate_offset = 0\<rparr>
     else get_fd m g)"
  "bitmap_test fd_bm g (opened f i m) \<longleftrightarrow> g = f \<or> bitmap_test fd_bm g m" "opened f i m Image = m Image"
  by (simp_all add: opened_def get_put_fd get_fd_bits fd_test_put_fd bitmap_test_set image_fd)

lemma ffz_fd_free:
  assumes "\<exists>f<256. \<not> bitmap_test fd_bm f m"
  shows "bitmap_ffz (Some fd_bm) m \<noteq> SIZE_MAX" "bitmap_ffz (Some fd_bm) m < 256"
    "\<not> bitmap_test fd_bm (bitmap_ffz (Some fd_bm) m) m" "\<forall>g < bitmap_ffz (Some fd_bm) m. bitmap_test fd_bm g m"
proof -
  show ne: "bitmap_ffz (Some fd_bm) m \<noteq> SIZE_MAX" using assms fds.ffz_full by auto
  from fds.ffz_found [OF this] show "bitmap_ffz (Some fd_bm) m < 256"
    "\<not> bitmap_test fd_bm (bitmap_ffz (Some fd_bm) m) m" "\<forall>g < bitmap_ffz (Some fd_bm) m. bitmap_test fd_bm g m" by auto
qed

lemma fd_test_object: "m' FdBits = m FdBits \<Longrightarrow> bitmap_test fd_bm f m' = bitmap_test fd_bm f m"
  by (simp add: bitmap_test_bit byte_at_def bitmap_byte_def)

section \<open>Properties\<close>

text \<open>C18: opening a path that resolves to a regular file returns the least free descriptor, at the
  beginning of that file; the image and the other descriptors are unchanged. A path that does
  not resolve is refused with -1 and nothing is changed.\<close>

theorem fs_open_file:
  assumes "fs_inv m" and "checked_tokens path = Some (tokens, cnt)" and "0 \<notin> set path"
  shows "case resolve m 0 tokens of
      None \<Rightarrow> fs_open (Some (the_fs h)) (Some path) m = Some (-1, m)
    | Some i \<Rightarrow> \<not> is_dir m i \<and> (\<exists>f<256. \<not> bitmap_test fd_bm f m) \<longrightarrow>
        (\<exists>f m'. fs_open (Some (the_fs h)) (Some path) m = Some (int f, m') \<and> f < 256 \<and> \<not> bitmap_test fd_bm f m \<and>
          (\<forall>g<f. bitmap_test fd_bm g m) \<and> m' Image = m Image \<and>
          (\<forall>g<256. bitmap_test fd_bm g m' \<longleftrightarrow> g = f \<or> bitmap_test fd_bm g m) \<and>
          get_fd m' f = \<lparr>inodeNum = of_nat i, usage = 1, locate_order = 0, locate_offset = 0\<rparr> \<and>
          (\<forall>g<256. g \<noteq> f \<longrightarrow> get_fd m' g = get_fd m g))"
proof -
  have d: "dirs_ok m" using assms(1) by (simp add: fs_inv_def)
  note c = fs_open_cases [OF d assms(2,3), where h = h]
  show ?thesis
  proof (cases "resolve m 0 tokens")
    case None
    with c(1) show ?thesis by simp
  next
    case (Some i)
    show ?thesis
      unfolding Some option.case
    proof (intro impI, elim conjE)
      assume nd: "\<not> is_dir m i" and free: "\<exists>f<256. \<not> bitmap_test fd_bm f m"
      note f = ffz_fd_free [OF free]
      show "\<exists>f m'. fs_open (Some (the_fs h)) (Some path) m = Some (int f, m') \<and> f < 256 \<and> \<not> bitmap_test fd_bm f m \<and>
          (\<forall>g<f. bitmap_test fd_bm g m) \<and> m' Image = m Image \<and>
          (\<forall>g<256. bitmap_test fd_bm g m' \<longleftrightarrow> g = f \<or> bitmap_test fd_bm g m) \<and>
          get_fd m' f = \<lparr>inodeNum = of_nat i, usage = 1, locate_order = 0, locate_offset = 0\<rparr> \<and>
          (\<forall>g<256. g \<noteq> f \<longrightarrow> get_fd m' g = get_fd m g)"
        using c(4) [OF Some f(1) nd] f opened_fd
        by (intro exI [of _ "bitmap_ffz (Some fd_bm) m"] exI [of _ "opened (bitmap_ffz (Some fd_bm) m) i m"]) auto
    qed
  qed
qed

lemma created_file:
  obtains q m where "fs_create (Some (the_fs 3)) (Some (str ''/a'')) FS_REGULAR formatted = Some (0, m)" "fs_inv m"
    "resolve m 0 [str ''a''] = Some q" "\<not> is_dir m q" "\<forall>f<256. \<not> bitmap_test fd_bm f m"
    "\<And>n. lookup m 0 n = (if n = str ''a'' then Some q else None)"
proof -
  obtain q m where e: "fs_create (Some (the_fs 3)) (Some (str ''/a'')) FS_REGULAR formatted = Some (0, m)"
      "create_effect formatted 0 (str ''a'') FS_REGULAR q m"
    using fs_create_effect [OF formatted_inv example_tokens(1,2) disjI1 [OF refl] formatted_create_possible, of 3]
    by auto
  have "resolve formatted 0 [] = Some 0" by simp
  from create_effect_resolve(2) [OF formatted_inv(1) e(2) _ formatted_simps(2,3) this]
  have "resolve m 0 [str ''a''] = Some q" by simp
  moreover have "\<forall>f<256. \<not> bitmap_test fd_bm f m"
    using e(2) formatted_simps(5) fd_test_object [of m formatted] by (simp add: create_effect_def)
  moreover have "lookup m 0 n = (if n = str ''a'' then Some q else None)" for n
    using e(2) formatted_simps(2,3) by (auto simp: create_effect_def)
  moreover have "fs_inv m" "\<not> is_dir m q" using e(2) by (auto simp: create_effect_def is_dir_def)
  ultimately show thesis using that e(1) by blast
qed

theorem fs_open_file_witness:
  "\<exists>q m m'. fs_create (Some (the_fs 3)) (Some (str ''/a'')) FS_REGULAR formatted = Some (0, m) \<and>
    fs_open (Some (the_fs 3)) (Some (str ''/a'')) m = Some (0, m') \<and> m' Image = m Image \<and> bitmap_test fd_bm 0 m' \<and>
    get_fd m' 0 = \<lparr>inodeNum = of_nat q, usage = 1, locate_order = 0, locate_offset = 0\<rparr>"
proof -
  obtain q m where c: "fs_create (Some (the_fs 3)) (Some (str ''/a'')) FS_REGULAR formatted = Some (0, m)" "fs_inv m"
    "resolve m 0 [str ''a''] = Some q" "\<not> is_dir m q" "\<forall>f<256. \<not> bitmap_test fd_bm f m" by (rule created_file) blast
  have "\<exists>f<256. \<not> bitmap_test fd_bm f m" using c(5) by (intro exI [of _ 0]) simp
  then obtain f m' where o: "fs_open (Some (the_fs 3)) (Some (str ''/a'')) m = Some (int f, m')" "f < 256"
    "\<forall>g<f. bitmap_test fd_bm g m" "m' Image = m Image" "\<forall>g<256. bitmap_test fd_bm g m' \<longleftrightarrow> g = f \<or> bitmap_test fd_bm g m"
    "get_fd m' f = \<lparr>inodeNum = of_nat q, usage = 1, locate_order = 0, locate_offset = 0\<rparr>"
    using fs_open_file [OF c(2) example_tokens(1,2), of 3] c(3,4) by auto
  have "f = 0" using o(3) c(5) by (metis gr0I zero_less_numeral)
  with c(1) o show ?thesis by auto
qed

text \<open>A file that has just been created can be opened: \<^verbatim>\<open>fs_create\<close> followed by \<^verbatim>\<open>fs_open\<close> of the
  same path gives a descriptor at the beginning of the new, empty file.\<close>

theorem fs_create_then_open:
  assumes "fs_inv m" and "dense m" and "checked_tokens path = Some (tokens, cnt)" and "0 \<notin> set path"
    and "create_possible m tokens p" and "\<exists>f<256. \<not> bitmap_test fd_bm f m"
  shows "\<exists>q m1 f m2. fs_create (Some (the_fs h)) (Some path) FS_REGULAR m = Some (0, m1) \<and>
    fs_open (Some (the_fs h)) (Some path) m1 = Some (int f, m2) \<and> f < 256 \<and> \<not> bitmap_test fd_bm f m \<and>
    get_fd m2 f = \<lparr>inodeNum = of_nat q, usage = 1, locate_order = 0, locate_offset = 0\<rparr> \<and>
    get_inode m2 q = new_inode FS_REGULAR q \<and> \<not> bitmap_test inode_bm q m"
proof -
  obtain q m1 where e: "fs_create (Some (the_fs h)) (Some path) FS_REGULAR m = Some (0, m1)"
      "create_effect m p (last tokens) FS_REGULAR q m1"
    using fs_create_effect [OF assms(1-4) disjI1 [OF refl] assms(5), of h] by blast
  have p: "resolve m 0 (butlast tokens) = Some p" "is_dir m p" "lookup m p (last tokens) = None"
    using assms(5) by (simp_all add: create_possible_def)
  have p256: "p < 256" using resolve_bound [OF _ p(1)] by simp
  have inv1: "fs_inv m1" and new: "get_inode m1 q = new_inode FS_REGULAR q" "\<not> bitmap_test inode_bm q m"
    and obj: "m1 FdBits = m FdBits" using e(2) by (auto simp: create_effect_def)
  have fdt: "bitmap_test fd_bm f m1 = bitmap_test fd_bm f m" for f using obj by (rule fd_test_object)
  have r: "resolve m1 0 tokens = Some q"
    using create_effect_resolve(2) [OF assms(1) e(2) p256 p(2,3,1)] valid_last(1) [OF assms(3,4)] by simp
  have nd: "\<not> is_dir m1 q" by (simp add: is_dir_def new)
  have free: "\<exists>f<256. \<not> bitmap_test fd_bm f m1" using assms(6) fdt by simp
  have d: "dirs_ok m1" using inv1 by (simp add: fs_inv_def)
  note f = ffz_fd_free [OF free]
  note o = fs_open_cases(4) [OF d assms(3,4) r f(1) nd, where h = h]
  have "get_inode (opened (bitmap_ffz (Some fd_bm) m1) q m1) q = get_inode m1 q"
    by (simp add: opened_def get_inode_fd)
  then show ?thesis
    using e(1) o f opened_fd(1) new fdt
    by (intro exI [of _ q] exI [of _ m1] exI [of _ "bitmap_ffz (Some fd_bm) m1"]
        exI [of _ "opened (bitmap_ffz (Some fd_bm) m1) q m1"]) auto
qed

theorem fs_create_then_open_witness:
  "\<exists>q m1 f m2. fs_create (Some (the_fs 3)) (Some (str ''/a'')) FS_REGULAR formatted = Some (0, m1) \<and>
    fs_open (Some (the_fs 3)) (Some (str ''/a'')) m1 = Some (int f, m2) \<and>
    get_inode m2 q = new_inode FS_REGULAR q"
proof -
  have "\<exists>f<256. \<not> bitmap_test fd_bm f formatted" using formatted_simps(5) [of 0] by (intro exI [of _ 0]) simp
  from fs_create_then_open [OF formatted_inv example_tokens(1,2) formatted_create_possible this, of 3]
  show ?thesis by blast
qed

text \<open>C39: opening a directory is refused, as documented, but the descriptor allocated before the check
  is not given back: every such call uses up one descriptor.\<close>

theorem fs_open_directory_leaks:
  assumes "fs_inv m" and "checked_tokens path = Some (tokens, cnt)" and "0 \<notin> set path"
    and "resolve m 0 tokens = Some i" and "is_dir m i" and "\<exists>f<256. \<not> bitmap_test fd_bm f m"
  shows "\<exists>m'. fs_open (Some (the_fs h)) (Some path) m = Some (-1, m') \<and>
    block_store_get_used_blocks (BlockStore_fd (the_fs h)) m' =
      Suc (block_store_get_used_blocks (BlockStore_fd (the_fs h)) m)"
proof -
  have d: "dirs_ok m" using assms(1) by (simp add: fs_inv_def)
  note f = ffz_fd_free [OF assms(6)]
  have "bitmap_total_set (Some fd_bm) (bitmap_set fd_bm (bitmap_ffz (Some fd_bm) m) m) =
      Suc (bitmap_total_set (Some fd_bm) m)" by (rule fds.total_alloc [OF f(1)])
  then show ?thesis
    using fs_open_cases(3) [OF d assms(2-4) f(1) assms(5), of h] by (simp add: block_store_get_used_blocks_def)
qed

lemma created_directory:
  obtains q m' where "fs_create (Some (the_fs 3)) (Some (str ''/a'')) FS_DIRECTORY formatted = Some (0, m')" "fs_inv m'"
    "resolve m' 0 [str ''a''] = Some q" "is_dir m' q" "\<exists>f<256. \<not> bitmap_test fd_bm f m'" "dense m'"
proof -
  obtain q m' where e: "fs_create (Some (the_fs 3)) (Some (str ''/a'')) FS_DIRECTORY formatted = Some (0, m')"
      "create_effect formatted 0 (str ''a'') FS_DIRECTORY q m'"
    using fs_create_effect [OF formatted_inv example_tokens(1,2) disjI2 [OF refl] formatted_create_possible, of 3]
    by auto
  have "resolve formatted 0 [] = Some 0" by simp
  from create_effect_resolve(2) [OF formatted_inv(1) e(2) _ formatted_simps(2,3) this]
  have r: "resolve m' 0 [str ''a''] = Some q" by simp
  have "\<exists>f<256. \<not> bitmap_test fd_bm f m'"
    using e(2) formatted_simps(5) [of 0] fd_test_object [of m' formatted 0]
    by (intro exI [of _ 0]) (simp add: create_effect_def)
  moreover have "is_dir m' q" "fs_inv m'" "dense m'" using e(2) by (auto simp: create_effect_def is_dir_def)
  ultimately show thesis using that e(1) r by blast
qed

theorem fs_open_directory_leaks_witness:
  "\<exists>m m'. fs_open (Some (the_fs 3)) (Some (str ''/a'')) m = Some (-1, m') \<and>
    block_store_get_used_blocks (BlockStore_fd (the_fs 3)) m' =
      Suc (block_store_get_used_blocks (BlockStore_fd (the_fs 3)) m)"
proof -
  obtain q m' where c: "fs_inv m'" "resolve m' 0 [str ''a''] = Some q" "is_dir m' q" "\<exists>f<256. \<not> bitmap_test fd_bm f m'"
    by (rule created_directory)
  from fs_open_directory_leaks [OF c(1) example_tokens(1,2) c(2-4), of 3] show ?thesis by blast
qed

text \<open>Closing an open descriptor frees exactly that descriptor and leaves the image alone; closing
  it again is refused.\<close>

theorem fs_close_frees:
  assumes "f < 256" and "bitmap_test fd_bm f m"
  shows "\<exists>m'. fs_close (Some (the_fs h)) (int f) m = (0, m') \<and> m' Image = m Image \<and>
    (\<forall>g<256. bitmap_test fd_bm g m' \<longleftrightarrow> g \<noteq> f \<and> bitmap_test fd_bm g m) \<and>
    fs_close (Some (the_fs h)) (int f) m' = (-1, m')"
proof -
  have "\<not> bitmap_test fd_bm f (bitmap_reset fd_bm f m)" by (simp add: bitmap_test_reset)
  then show ?thesis
    using fs_close_cases(1) [OF assms(2,1), of h] fs_close_cases(2) [OF _ assms(1), of "bitmap_reset fd_bm f m" h]
    by (simp add: bitmap_test_reset image_fd)
qed

theorem fs_close_frees_witness:
  "\<exists>m'. fs_close (Some (the_fs 3)) (int 7) (bitmap_set fd_bm 7 formatted) = (0, m') \<and>
    fs_close (Some (the_fs 3)) (int 7) m' = (-1, m')"
  using fs_close_frees [of 7 "bitmap_set fd_bm 7 formatted" 3] by (auto simp: bitmap_test_set)

text \<open>C22: \<^verbatim>\<open>fs_get_dir\<close> of a directory (the root or a path of less than 200 bytes that resolves to one)
  lists exactly its used entries, in reverse order: one record for each name in the directory, with
  whether it names a directory. These can be 31, not at most 15 as documented.\<close>

theorem fs_get_dir_lists_entries:
  assumes "fs_inv m" and "0 \<notin> set path" and "length path < 200" and "is_dir m d"
    and "path = [slash] \<and> d = 0 \<or>
      (\<exists>tokens cnt. checked_tokens path = Some (tokens, cnt) \<and> resolve m 0 tokens = Some d)"
  shows "\<exists>da. fs_get_dir (Some (the_fs h)) (Some path) m = Some (Some da) \<and> da_inv da \<and>
    da_elems da = rev (listing m d) \<and> distinct (map rec_name (da_elems da)) \<and>
    set (da_elems da) = {\<lparr>rec_name = n, rec_type = (if is_dir m i then FS_DIRECTORY else FS_REGULAR)\<rparr> | n i.
      lookup m d n = Some i}"
proof -
  have inv: "dirs_ok m" using assms(1) by (simp add: fs_inv_def)
  have "d < 256" using assms(5) resolve_bound by fastforce
  then have ok: "dir_ok m d" using inv assms(4) by (simp add: dirs_ok_def)
  from fs_get_dir_lists [OF inv assms(2,4,3,5), of h] listing_names [OF ok] show ?thesis
    by (auto simp: rev_map [symmetric])
qed

theorem fs_get_dir_lists_entries_witness:
  "\<exists>m da. fs_create (Some (the_fs 3)) (Some (str ''/a'')) FS_REGULAR formatted = Some (0, m) \<and>
    fs_get_dir (Some (the_fs 3)) (Some [slash]) m = Some (Some da) \<and>
    da_elems da = [\<lparr>rec_name = str ''a'', rec_type = FS_REGULAR\<rparr>]"
proof -
  obtain q m where c: "fs_create (Some (the_fs 3)) (Some (str ''/a'')) FS_REGULAR formatted = Some (0, m)" "fs_inv m"
    "\<not> is_dir m q" "\<And>n. lookup m 0 n = (if n = str ''a'' then Some q else None)"
    by (rule created_file) blast
  have "is_dir m 0" using c(2) by (simp add: fs_inv_def)
  then obtain da where da: "fs_get_dir (Some (the_fs 3)) (Some [slash]) m = Some (Some da)" "distinct (map rec_name (da_elems da))"
    "set (da_elems da) = {\<lparr>rec_name = n, rec_type = (if is_dir m i then FS_DIRECTORY else FS_REGULAR)\<rparr> | n i.
      lookup m 0 n = Some i}"
    using fs_get_dir_lists_entries [OF c(2), of "[slash]" 0 3] by auto
  let ?r = "\<lparr>rec_name = str ''a'', rec_type = FS_REGULAR\<rparr>"
  have s: "set (da_elems da) = {?r}" unfolding da(3) c(4) using c(3) by auto
  moreover have "distinct (da_elems da)" using da(2) by (simp add: distinct_map)
  ultimately have "length (da_elems da) = 1" by (metis distinct_card card.empty card.insert empty_iff finite.emptyI One_nat_def)
  with s have "da_elems da = [?r]" by (cases "da_elems da") auto
  with c(1) da(1) show ?thesis by blast
qed

text \<open>Unlike the other operations, \<^verbatim>\<open>fs_get_dir\<close> does not survive a path without a leading slash: it
  dereferences the \<^verbatim>\<open>NULL\<close> that \<^verbatim>\<open>str_split\<close> returns (the outer \<open>None\<close>), where \<^verbatim>\<open>fs_open\<close> and
  \<^verbatim>\<open>fs_create\<close> return -1.\<close>

theorem fs_get_dir_relative_path:
  assumes "path \<noteq> []" and "hd path \<noteq> slash" and "length path < 65535"
  shows "fs_get_dir (Some fs) (Some path) m = None \<and> fs_open (Some fs) (Some path) m = Some (-1, m) \<and>
    fs_create (Some fs) (Some path) type m = Some (-1, m)"
  using assms by (simp add: fs_get_dir_def fs_open_def fs_create_def checked_tokens_def path_safe_def str_split_def)

theorem fs_get_dir_relative_path_witness:
  "fs_get_dir (Some (the_fs 3)) (Some (str ''a'')) formatted = None"
proof -
  have "str ''a'' \<noteq> []" "hd (str ''a'') \<noteq> slash" "length (str ''a'') < 65535" by (simp_all add: str_def) code_simp?
  from fs_get_dir_relative_path [OF this] show ?thesis by blast
qed

end
