(* ===== verification/FS_IO.thy ===== *)
theory FS_IO
  imports FS_Format "HOL-Library.Signed_Division"
begin

text \<open>
  Reading, writing and seeking: \<^verbatim>\<open>fs_write\<close>, \<^verbatim>\<open>fs_read\<close>, \<^verbatim>\<open>fs_seek\<close> and the functions that
  go through the direct, indirect and double indirect blocks of a file.

  Sizes and 16-bit block indices are natural numbers, with the wrap-around of an increment
  written out; the result of the transfer functions is the number of bytes. The source of a write
  is a function from offsets to bytes (the code may read past \<^verbatim>\<open>nbyte\<close>), the destination of a
  read is the list of bytes stored through it. The two functions that go on from one indirect
  block to the next call each other; they are one \<open>partial_function\<close> and a definition, and
  \<open>None\<close> is an access at index -1 or would be a recursion that does not end. Local block buffers,
  which C leaves uninitialised, start as zero: each is overwritten by a read, which only fails on a
  block number above 65528.
\<close>

unbundle bit_operations_syntax

abbreviation NUM_DIRECT_PTR :: nat where "NUM_DIRECT_PTR \<equiv> 6"
abbreviation NUM_INDIRECT_PTR :: nat where "NUM_INDIRECT_PTR \<equiv> 512"

section \<open>Shared steps\<close>

definition uint16_incr :: "nat \<Rightarrow> nat" where
  "uint16_incr n = (n + 1) mod 65536"

text \<open>\<^verbatim>\<open>(fd_locator - NUM_DIRECT_PTR) % NUM_DOUBLE_DIRECT_PTR\<close>, assigned to a \<^verbatim>\<open>uint16_t\<close>, and
  \<^verbatim>\<open>(fd_locator - (NUM_DIRECT_PTR + NUM_INDIRECT_PTR)) / NUM_DOUBLE_DIRECT_PTR\<close>.\<close>

definition indirect_index :: "nat \<Rightarrow> nat" where
  "indirect_index fd_locator = nat (((int fd_locator - 6) smod 512) mod 65536)"

definition double_index :: "nat \<Rightarrow> int" where
  "double_index fd_locator = (int fd_locator - (6 + 512)) sdiv 512"

definition blank_space :: "nat \<Rightarrow> nat \<Rightarrow> nat" where
  "blank_space fd_offset nbyte =
     (let blankSpace = size_t_sub BLOCK_SIZE_BYTES fd_offset in if blankSpace > nbyte then nbyte else blankSpace)"

definition src_bytes :: "(nat \<Rightarrow> byte) \<Rightarrow> nat \<Rightarrow> byte list" where
  "src_bytes src n = map src [0..<n]"

definition src_advance :: "(nat \<Rightarrow> byte) \<Rightarrow> nat \<Rightarrow> nat \<Rightarrow> byte" where
  "src_advance src n = (\<lambda>i. src (n + i))"

definition read_ptrs :: "F19FS_t \<Rightarrow> nat \<Rightarrow> mem \<Rightarrow> uint16_t list" where
  "read_ptrs fs i m = bytes_ptrs NUM_INDIRECT_PTR (snd (read_block fs i zero_block m))"

definition write_ptrs :: "F19FS_t \<Rightarrow> nat \<Rightarrow> uint16_t list \<Rightarrow> mem \<Rightarrow> mem" where
  "write_ptrs fs i ptrs m = snd (write_block fs i (ptrs_bytes ptrs) m)"

definition allocate_indirectPtr_block :: "F19FS_t \<Rightarrow> mem \<Rightarrow> nat \<times> mem" where
  "allocate_indirectPtr_block fs m =
     (let (blockID, m1) = block_store_allocate (BlockStore_whole fs) m in
      if blockID = SIZE_MAX then (SIZE_MAX, m1)
      else (blockID, snd (write_block fs blockID zero_block m1)))"

section \<open>Writing\<close>

text \<open>The loop of \<^verbatim>\<open>write_indirect_block\<close>; \<open>ws_full\<close> is its early exit when no block is left.\<close>

record write_state =
  ws_ptrs :: "uint16_t list"
  ws_index :: nat
  ws_locator :: nat
  ws_offset :: nat
  ws_src :: "nat \<Rightarrow> byte"
  ws_nbyte :: nat
  ws_sum :: nat
  ws_full :: bool
  ws_mem :: mem

definition indirect_target :: "F19FS_t \<Rightarrow> write_state \<Rightarrow> nat \<times> write_state" where
  "indirect_target fs w =
     (if ws_ptrs w ! ws_index w = 0 then
        (let (blockID, m1) = block_store_allocate (BlockStore_whole fs) (ws_mem w) in
         if blockID = SIZE_MAX then (blockID, w\<lparr>ws_full := True, ws_mem := m1\<rparr>)
         else (blockID, w\<lparr>ws_ptrs := (ws_ptrs w)[ws_index w := of_nat blockID], ws_mem := m1\<rparr>))
      else (unat (ws_ptrs w ! ws_index w), w))"

definition indirect_store :: "F19FS_t \<Rightarrow> nat \<Rightarrow> write_state \<Rightarrow> write_state" where
  "indirect_store fs blockID w =
     (let blankSpace = blank_space (ws_offset w) (ws_nbyte w);
          buffer = snd (read_block fs blockID zero_block (ws_mem w));
          buffer' = buf_write buffer (ws_offset w) (src_bytes (ws_src w) blankSpace)
      in w\<lparr>ws_mem := snd (write_block fs blockID buffer' (ws_mem w)),
           ws_nbyte := ws_nbyte w - blankSpace,
           ws_index := ws_index w + 1,
           ws_src := src_advance (ws_src w) blankSpace,
           ws_sum := ws_sum w + blankSpace,
           ws_locator := uint16_incr (ws_locator w),
           ws_offset := 0\<rparr>)"

lemma indirect_index_step: "ws_index (indirect_store fs b (snd (indirect_target fs w))) = Suc (ws_index w)"
  by (auto simp: indirect_store_def indirect_target_def Let_def split: prod.splits)

function indirect_write_loop :: "F19FS_t \<Rightarrow> write_state \<Rightarrow> write_state" where
  "indirect_write_loop fs w =
     (if ws_index w < NUM_INDIRECT_PTR \<and> ws_nbyte w > 0 then
        (let t = indirect_target fs w in
         if ws_full (snd t) then snd t
         else indirect_write_loop fs (indirect_store fs (fst t) (snd t)))
      else w)"
  by pat_completeness auto
termination
  by (relation "measure (\<lambda>(fs, w). NUM_INDIRECT_PTR - ws_index w)")
    (auto simp: indirect_index_step)

declare indirect_write_loop.simps [simp del]

text \<open>The first part of \<^verbatim>\<open>write_double_direct_block\<close>: the indirect block that the locator falls
  into, the inner \<open>None\<close> where the function returns 0. (A new one is not zeroed.) The index into the
  double indirect block is computed in \<^verbatim>\<open>int\<close>: it is -1, an access outside the array (the outer
  \<open>None\<close>), when the 16 bit locator has wrapped around.\<close>

definition double_direct_target ::
    "F19FS_t \<Rightarrow> inode_t \<Rightarrow> nat \<Rightarrow> mem \<Rightarrow> (nat option \<times> inode_t \<times> mem) option" where
  "double_direct_target fs inode fd_locator m =
     (let (double_direct_block_ID, inode1, m1) =
            (if doubleIndirectPointer inode = 0 then
               (let (i, ma) = allocate_indirectPtr_block fs m in
                (i, if i = SIZE_MAX then inode else inode\<lparr>doubleIndirectPointer := of_nat i\<rparr>, ma))
             else (unat (doubleIndirectPointer inode), inode, m))
      in if double_direct_block_ID = SIZE_MAX then Some (None, inode1, m1)
         else if double_index fd_locator < 0 then None
         else
           (let ptrs = read_ptrs fs double_direct_block_ID m1;
                index = nat (double_index fd_locator)
            in if ptrs ! index = 0 then
                 (let (indirectBlockID, m2) = block_store_allocate (BlockStore_whole fs) m1 in
                  if indirectBlockID = SIZE_MAX then Some (None, inode1, m2)
                  else Some (Some indirectBlockID, inode1,
                        write_ptrs fs double_direct_block_ID (ptrs[index := of_nat indirectBlockID]) m2))
               else Some (Some (unat (ptrs ! index)), inode1, m1)))"

definition indirect_write_start ::
    "F19FS_t \<Rightarrow> nat \<Rightarrow> nat \<Rightarrow> (nat \<Rightarrow> byte) \<Rightarrow> nat \<Rightarrow> nat \<Rightarrow> mem \<Rightarrow> write_state" where
  "indirect_write_start fs fd_locator fd_offset src nbyte indirectBlockID m =
     \<lparr>ws_ptrs = read_ptrs fs indirectBlockID m, ws_index = indirect_index fd_locator,
      ws_locator = fd_locator, ws_offset = fd_offset, ws_src = src, ws_nbyte = nbyte, ws_sum = 0,
      ws_full = False, ws_mem = m\<rparr>"

partial_function (option) write_indirect_block ::
    "F19FS_t \<Rightarrow> inode_t \<Rightarrow> nat \<Rightarrow> nat \<Rightarrow> (nat \<Rightarrow> byte) \<Rightarrow> nat \<Rightarrow> nat \<Rightarrow> mem \<Rightarrow> (nat \<times> inode_t \<times> mem) option" where
  "write_indirect_block fs inode fd_locator fd_offset src nbyte indirectBlockID m =
     (let w = indirect_write_loop fs
                (indirect_write_start fs fd_locator fd_offset src nbyte indirectBlockID m);
          m1 = write_ptrs fs indirectBlockID (ws_ptrs w) (ws_mem w)
      in if ws_full w \<or> ws_nbyte w = 0 then Some (ws_sum w, inode, m1)
         else
           Option.bind (double_direct_target fs inode (ws_locator w) m1)
             (\<lambda>(target, inode1, m2).
                if target = None then Some (ws_sum w, inode1, m2)
                else Option.bind
                       (write_indirect_block fs inode1 (ws_locator w) (ws_offset w) (ws_src w) (ws_nbyte w)
                          (the target) m2)
                       (\<lambda>(sum, inode2, m3). Some (ws_sum w + sum, inode2, m3))))"

definition write_double_direct_block ::
    "F19FS_t \<Rightarrow> inode_t \<Rightarrow> nat \<Rightarrow> nat \<Rightarrow> (nat \<Rightarrow> byte) \<Rightarrow> nat \<Rightarrow> mem \<Rightarrow> (nat \<times> inode_t \<times> mem) option" where
  "write_double_direct_block fs inode fd_locator fd_offset src nbyte m =
     (case double_direct_target fs inode fd_locator m of
        None \<Rightarrow> None
      | Some (None, inode1, m1) \<Rightarrow> Some (0, inode1, m1)
      | Some (Some indirectBlockID, inode1, m1) \<Rightarrow>
          write_indirect_block fs inode1 fd_locator fd_offset src nbyte indirectBlockID m1)"

text \<open>The indirect block of an inode, allocated when there is none.\<close>

definition indirect_block_of :: "F19FS_t \<Rightarrow> inode_t \<Rightarrow> mem \<Rightarrow> nat option \<times> inode_t \<times> mem" where
  "indirect_block_of fs inode m =
     (if indirectPointer inode = 0 then
        (let (indirectBlockID, m1) = allocate_indirectPtr_block fs m in
         if indirectBlockID = SIZE_MAX then (None, inode, m1)
         else (Some indirectBlockID, inode\<lparr>indirectPointer := of_nat indirectBlockID\<rparr>, m1))
      else (Some (unat (indirectPointer inode)), inode, m))"

text \<open>The first part of \<^verbatim>\<open>write_direct_block\<close>: one block; \<open>None\<close> when no block is left. A new
  block is filled with 1024 bytes of the source, whatever the offset and the count.\<close>

definition write_direct_one ::
    "F19FS_t \<Rightarrow> inode_t \<Rightarrow> nat \<Rightarrow> nat \<Rightarrow> (nat \<Rightarrow> byte) \<Rightarrow> nat \<Rightarrow> mem \<Rightarrow> inode_t option \<times> mem" where
  "write_direct_one fs inode fd_locator fd_offset src blankSpace m =
     (if directPointer inode ! fd_locator = 0 then
        (let (blockID, m1) = block_store_allocate (BlockStore_whole fs) m in
         if blockID = SIZE_MAX then (None, m1)
         else (Some (inode\<lparr>directPointer := (directPointer inode)[fd_locator := of_nat blockID]\<rparr>),
               snd (write_block fs blockID (src_bytes src BLOCK_SIZE_BYTES) m1)))
      else
        (let blockID = unat (directPointer inode ! fd_locator);
             currentBlock = snd (read_block fs blockID zero_block m)
         in (Some inode,
             snd (write_block fs blockID (buf_write currentBlock fd_offset (src_bytes src blankSpace)) m))))"

function write_direct_block ::
    "F19FS_t \<Rightarrow> inode_t \<Rightarrow> nat \<Rightarrow> nat \<Rightarrow> (nat \<Rightarrow> byte) \<Rightarrow> nat \<Rightarrow> mem \<Rightarrow> (nat \<times> inode_t \<times> mem) option" where
  "write_direct_block fs inode fd_locator fd_offset src nbyte m =
     (let blankSpace = blank_space fd_offset nbyte in
      case write_direct_one fs inode fd_locator fd_offset src blankSpace m of
        (None, m1) \<Rightarrow> Some (0, inode, m1)
      | (Some inode1, m1) \<Rightarrow>
          (let nbyte1 = nbyte - blankSpace in
           if nbyte1 = 0 then Some (blankSpace, inode1, m1)
           else if fd_locator + 1 < NUM_DIRECT_PTR then
             map_option (\<lambda>(sum, r). (blankSpace + sum, r))
               (write_direct_block fs inode1 (fd_locator + 1) 0 (src_advance src blankSpace) nbyte1 m1)
           else
             (case indirect_block_of fs inode1 m1 of
                (None, inode2, m2) \<Rightarrow> Some (0, inode2, m2)
              | (Some indirectBlockID, inode2, m2) \<Rightarrow>
                  map_option (\<lambda>(sum, r). (blankSpace + sum, r))
                    (write_indirect_block fs inode2 (fd_locator + 1) 0 (src_advance src blankSpace) nbyte1
                       indirectBlockID m2))))"
  by pat_completeness auto
termination
  by (relation "measure (\<lambda>(fs, inode, fd_locator, fd_offset, src, nbyte, m). NUM_DIRECT_PTR - fd_locator)") auto

declare write_direct_block.simps [simp del]

definition fs_write ::
    "F19FS_t option \<Rightarrow> int \<Rightarrow> (nat \<Rightarrow> byte) option \<Rightarrow> nat \<Rightarrow> mem \<Rightarrow> (int \<times> mem) option" where
  "fs_write fso fd srco nbyte m =
     (if fso = None \<or> fd < 0 \<or> fd \<ge> 256 \<or> srco = None then Some (-1, m)
      else
        (let fs = the fso; src = the srco in
         if \<not> bitmap_test (bm_deref (block_store_get_bm (BlockStore_fd fs))) (nat fd) m then Some (-2, m)
         else
           (let fileDescriptor = snd (read_fd (BlockStore_fd fs) (nat fd) zero_fd m);
                fd_locator = unat (locate_order fileDescriptor);
                fd_offset = unat (locate_offset fileDescriptor);
                inode = snd (read_inode (BlockStore_inode fs) (unat (inodeNum fileDescriptor)) zero_inode m);
                finish = (\<lambda>(sumOfWrittenByte, inode1, m1).
                  let fileDescriptor1 = updateFD fileDescriptor (int sumOfWrittenByte);
                      m2 = snd (write_fd (BlockStore_fd fs) (nat fd) fileDescriptor1 m1);
                      inode2 = inode1\<lparr>fileSize := fileSize inode1 + of_nat sumOfWrittenByte\<rparr>;
                      m3 = snd (write_inode (BlockStore_inode fs) (unat (inodeNum fileDescriptor1)) inode2 m2)
                  in (int sumOfWrittenByte, m3))
            in
            if fd_locator < NUM_DIRECT_PTR then
              map_option finish (write_direct_block fs inode fd_locator fd_offset src nbyte m)
            else if fd_locator < NUM_INDIRECT_PTR + NUM_DIRECT_PTR then
              (case indirect_block_of fs inode m of
                 (None, _, m1) \<Rightarrow> Some (0, m1)
               | (Some indirectBlockID, inode1, m1) \<Rightarrow>
                   map_option finish
                     (write_indirect_block fs inode1 fd_locator fd_offset src nbyte indirectBlockID m1))
            else map_option finish (write_double_direct_block fs inode fd_locator fd_offset src nbyte m))))"

section \<open>Reading\<close>

text \<open>The loop of \<^verbatim>\<open>read_indirect_block\<close>; \<open>rs_hole\<close> is its early exit at a missing block.\<close>

record read_state =
  rs_index :: nat
  rs_locator :: nat
  rs_offset :: nat
  rs_nbyte :: nat
  rs_sum :: nat
  rs_dst :: "byte list"
  rs_hole :: bool

function indirect_read_loop :: "F19FS_t \<Rightarrow> mem \<Rightarrow> uint16_t list \<Rightarrow> read_state \<Rightarrow> read_state" where
  "indirect_read_loop fs m ptrs r =
     (if rs_index r < NUM_INDIRECT_PTR \<and> rs_nbyte r > 0 then
        (let blockID = unat (ptrs ! rs_index r) in
         if blockID = 0 then r\<lparr>rs_hole := True\<rparr>
         else
           (let blockBuffer = snd (read_block fs blockID zero_block m);
                blankSpace = blank_space (rs_offset r) (rs_nbyte r)
            in indirect_read_loop fs m ptrs
                 (r\<lparr>rs_dst := rs_dst r @ take blankSpace (drop (rs_offset r) blockBuffer),
                    rs_nbyte := rs_nbyte r - blankSpace,
                    rs_index := rs_index r + 1,
                    rs_sum := rs_sum r + blankSpace,
                    rs_locator := uint16_incr (rs_locator r),
                    rs_offset := 0\<rparr>)))
      else r)"
  by pat_completeness auto
termination
  by (relation "measure (\<lambda>(fs, m, ptrs, r). NUM_INDIRECT_PTR - rs_index r)") auto

declare indirect_read_loop.simps [simp del]

text \<open>The first part of \<^verbatim>\<open>read_doubleDirect_block\<close>: the indirect block of the locator, 0 when it is
  missing, \<open>None\<close> when the index is -1.\<close>

definition double_read_target :: "F19FS_t \<Rightarrow> inode_t \<Rightarrow> nat \<Rightarrow> mem \<Rightarrow> nat option" where
  "double_read_target fs inode fd_locator m =
     (if doubleIndirectPointer inode = 0 then Some 0
      else if double_index fd_locator < 0 then None
      else Some (unat (read_ptrs fs (unat (doubleIndirectPointer inode)) m ! nat (double_index fd_locator))))"

partial_function (option) read_indirect_block ::
    "F19FS_t \<Rightarrow> inode_t \<Rightarrow> nat \<Rightarrow> nat \<Rightarrow> nat \<Rightarrow> nat \<Rightarrow> mem \<Rightarrow> (nat \<times> byte list) option" where
  "read_indirect_block fs inode fd_locator fd_offset nbyte indirectBlockID m =
     (if indirectBlockID = 0 then Some (0, [])
      else
        (let r = indirect_read_loop fs m (read_ptrs fs indirectBlockID m)
                   \<lparr>rs_index = indirect_index fd_locator, rs_locator = fd_locator, rs_offset = fd_offset,
                    rs_nbyte = nbyte, rs_sum = 0, rs_dst = [], rs_hole = False\<rparr>
         in if rs_hole r \<or> rs_nbyte r = 0 then Some (rs_sum r, rs_dst r)
            else
              Option.bind (double_read_target fs inode (rs_locator r) m)
                (\<lambda>target.
                   if target = 0 then Some (rs_sum r, rs_dst r)
                   else Option.bind
                          (read_indirect_block fs inode (rs_locator r) (rs_offset r) (rs_nbyte r) target m)
                          (\<lambda>(sum, dst). Some (rs_sum r + sum, rs_dst r @ dst)))))"

definition read_doubleDirect_block ::
    "F19FS_t \<Rightarrow> inode_t \<Rightarrow> nat \<Rightarrow> nat \<Rightarrow> nat \<Rightarrow> mem \<Rightarrow> (nat \<times> byte list) option" where
  "read_doubleDirect_block fs inode fd_locator fd_offset nbyte m =
     (case double_read_target fs inode fd_locator m of
        None \<Rightarrow> None
      | Some target \<Rightarrow>
          if target = 0 then Some (0, [])
          else read_indirect_block fs inode fd_locator fd_offset nbyte target m)"

function read_direct_block ::
    "F19FS_t \<Rightarrow> inode_t \<Rightarrow> nat \<Rightarrow> nat \<Rightarrow> nat \<Rightarrow> mem \<Rightarrow> (nat \<times> byte list) option" where
  "read_direct_block fs inode fd_locator fd_offset nbyte m =
     (let blockId = unat (directPointer inode ! fd_locator) in
      if blockId = 0 then Some (0, [])
      else
        (let blankSpace = blank_space fd_offset nbyte;
             fileBlock = snd (read_block fs blockId zero_block m);
             dst = take blankSpace (drop fd_offset fileBlock);
             nbyte1 = nbyte - blankSpace
         in if nbyte1 = 0 then Some (blankSpace, dst)
            else if fd_locator + 1 < NUM_DIRECT_PTR then
              map_option (\<lambda>(sum, dst1). (blankSpace + sum, dst @ dst1))
                (read_direct_block fs inode (fd_locator + 1) 0 nbyte1 m)
            else
              map_option (\<lambda>(sum, dst1). (blankSpace + sum, dst @ dst1))
                (read_indirect_block fs inode (fd_locator + 1) 0 nbyte1 (unat (indirectPointer inode)) m)))"
  by pat_completeness auto
termination
  by (relation "measure (\<lambda>(fs, inode, fd_locator, fd_offset, nbyte, m). NUM_DIRECT_PTR - fd_locator)") auto

declare read_direct_block.simps [simp del]

text \<open>
  The end of file check: \<^verbatim>\<open>headToCurrent + nbyte > fileSize\<close> is evaluated in \<^verbatim>\<open>size_t\<close>.
\<close>

definition clamp_nbyte :: "uint64_t \<Rightarrow> int \<Rightarrow> nat \<Rightarrow> nat" where
  "clamp_nbyte file_size headToCurrent nbyte =
     (if of_int headToCurrent + of_nat nbyte > file_size then unat (file_size - of_int headToCurrent) else nbyte)"

definition fs_read ::
    "F19FS_t option \<Rightarrow> int \<Rightarrow> bool \<Rightarrow> nat \<Rightarrow> mem \<Rightarrow> (int \<times> byte list \<times> mem) option" where
  "fs_read fso fd has_dst nbyte m =
     (if fso = None \<or> fd < 0 \<or> fd \<ge> 256 \<or> \<not> has_dst then Some (-1, [], m)
      else
        (let fs = the fso in
         if \<not> bitmap_test (bm_deref (block_store_get_bm (BlockStore_fd fs))) (nat fd) m then Some (-2, [], m)
         else if nbyte = 0 then Some (0, [], m)
         else
           (let fileDescriptor = snd (read_fd (BlockStore_fd fs) (nat fd) zero_fd m);
                fd_locator = unat (locate_order fileDescriptor);
                fd_offset = unat (locate_offset fileDescriptor);
                fileInode = snd (read_inode (BlockStore_inode fs) (unat (inodeNum fileDescriptor)) zero_inode m);
                nbyte1 = clamp_nbyte (fileSize fileInode) (getPreviosOffset fileDescriptor) nbyte;
                result =
                  (if fd_locator < NUM_DIRECT_PTR then read_direct_block fs fileInode fd_locator fd_offset nbyte1 m
                   else if fd_locator < NUM_INDIRECT_PTR + NUM_DIRECT_PTR then
                     read_indirect_block fs fileInode fd_locator fd_offset nbyte1
                       (unat (indirectPointer fileInode)) m
                   else read_doubleDirect_block fs fileInode fd_locator fd_offset nbyte1 m)
            in map_option
                 (\<lambda>(sumOfReadByte, dst).
                    (int sumOfReadByte, dst,
                     snd (write_fd (BlockStore_fd fs) (nat fd) (updateFD fileDescriptor (int sumOfReadByte)) m)))
                 result)))"

section \<open>Seeking\<close>

datatype seek_t = FS_SEEK_SET | FS_SEEK_CUR | FS_SEEK_END | Other_whence

definition seek_offset :: "seek_t \<Rightarrow> uint64_t \<Rightarrow> fd_t \<Rightarrow> int \<Rightarrow> int" where
  "seek_offset whence file_size fileDescriptor offset =
     (let bound = as_int32 (uint file_size) in
      case whence of
        FS_SEEK_SET \<Rightarrow> cutBoundary bound offset
      | FS_SEEK_CUR \<Rightarrow> cutBoundary bound (as_int64 (offset + getPreviosOffset fileDescriptor))
      | FS_SEEK_END \<Rightarrow> cutBoundary bound (as_int64 (offset + uint file_size))
      | Other_whence \<Rightarrow> offset)"

definition fs_seek :: "F19FS_t option \<Rightarrow> int \<Rightarrow> int \<Rightarrow> seek_t \<Rightarrow> mem \<Rightarrow> int \<times> mem" where
  "fs_seek fso fd offset whence m =
     (if fso = None \<or> fd < 0 \<or> fd \<ge> 256 then (-1, m)
      else
        (let fs = the fso in
         if \<not> bitmap_test (bm_deref (block_store_get_bm (BlockStore_fd fs))) (nat fd) m then (-2, m)
         else if \<not> (whence = FS_SEEK_CUR \<or> whence = FS_SEEK_END \<or> whence = FS_SEEK_SET) then (-3, m)
         else
           (let fileDescriptor = snd (read_fd (BlockStore_fd fs) (nat fd) zero_fd m);
                fileInode = snd (read_inode (BlockStore_inode fs) (unat (inodeNum fileDescriptor)) zero_inode m);
                offset1 = seek_offset whence (fileSize fileInode) fileDescriptor offset;
                start = fileDescriptor\<lparr>locate_order := 0, locate_offset := 0\<rparr>;
                moved = updateFD start offset1
            in (offset1, snd (write_fd (BlockStore_fd fs) (nat fd) moved m)))))"

end
