(* ===== verification/FS_Read.thy ===== *)
theory FS_Read
  imports FS_IO
begin

text \<open>
  What \<^verbatim>\<open>fs_read\<close> and \<^verbatim>\<open>fs_seek\<close> do: the block map of a file (\<open>file_block\<close>, \<open>file_bytes\<close>), the
  proof that the three read functions return a piece of it, the results of the two calls,
  that a read always returns and that its number counts the bytes stored on every image.
\<close>

unbundle bit_operations_syntax

section \<open>Where the blocks of a file are\<close>

lemma smod_nat: "int a smod int b = int (a mod b)"
  by (cases "a = 0") (simp_all add: smod_int_alt_def zmod_int)

lemma sdiv_nat: "int a sdiv int b = int (a div b)"
  by (cases "a = 0"; cases "b = 0") (simp_all add: signed_divide_int_def zdiv_int)

lemma indirect_index_nat: "6 \<le> b \<Longrightarrow> indirect_index b = (b - 6) mod 512"
proof -
  assume "6 \<le> b"
  then have "(int b - 6) smod 512 = int ((b - 6) mod 512)" using smod_nat [of "b - 6" 512] by simp
  moreover have "(b - 6) mod 512 < 512" by simp
  then have "(b - 6) mod 512 mod 65536 = (b - 6) mod 512" by (intro mod_less) simp
  ultimately show ?thesis unfolding indirect_index_def
    by (metis nat_int of_nat_numeral zmod_int)
qed

lemma double_index_nat: "518 \<le> b \<Longrightarrow> double_index b = int ((b - 518) div 512)"
  using sdiv_nat [of "b - 518" 512] by (simp add: double_index_def)

lemma blank_space_eq: "off < 1024 \<Longrightarrow> blank_space off n = min (1024 - off) n"
  by (simp add: blank_space_def Let_def size_t_sub_le min_def)

text \<open>
  The block map of a file, as the on-disk format defines it: the number of the block that holds
  the bytes \<open>1024 * b\<close> to \<open>1024 * b + 1023\<close>, 0 for a hole; and the indirect block that a block
  from the seventh on is listed in.
\<close>

definition file_table :: "F19FS_t \<Rightarrow> inode_t \<Rightarrow> mem \<Rightarrow> nat \<Rightarrow> nat" where
  "file_table fs ino m b =
     (if b < 518 then unat (indirectPointer ino)
      else if doubleIndirectPointer ino = 0 then 0
      else unat (read_ptrs fs (unat (doubleIndirectPointer ino)) m ! ((b - 518) div 512)))"

definition file_block :: "F19FS_t \<Rightarrow> inode_t \<Rightarrow> mem \<Rightarrow> nat \<Rightarrow> nat" where
  "file_block fs ino m b =
     (if b < 6 then unat (directPointer ino ! b)
      else if file_table fs ino m b = 0 then 0
      else unat (read_ptrs fs (file_table fs ino m b) m ! ((b - 6) mod 512)))"

definition file_byte :: "F19FS_t \<Rightarrow> inode_t \<Rightarrow> mem \<Rightarrow> nat \<Rightarrow> byte" where
  "file_byte fs ino m pos = get_block m (file_block fs ino m (pos div 1024)) ! (pos mod 1024)"

definition file_bytes :: "F19FS_t \<Rightarrow> inode_t \<Rightarrow> mem \<Rightarrow> nat \<Rightarrow> nat \<Rightarrow> byte list" where
  "file_bytes fs ino m pos n = map (file_byte fs ino m) [pos..<pos + n]"

lemma length_file_bytes [simp]: "length (file_bytes fs ino m pos n) = n"
  by (simp add: file_bytes_def)

lemma file_bytes_0 [simp]: "file_bytes fs ino m pos 0 = []"
  by (simp add: file_bytes_def)

lemma file_bytes_append:
  "file_bytes fs ino m pos n @ file_bytes fs ino m (pos + n) k = file_bytes fs ino m pos (n + k)"
  by (simp add: file_bytes_def flip: map_append upt_add_eq_append add.assoc)

lemma file_bytes_in_block:
  assumes "off + k \<le> 1024" and "file_block fs ino m b = blk"
  shows "take k (drop off (get_block m blk)) = file_bytes fs ino m (b * 1024 + off) k"
proof (rule nth_equalityI)
  fix i assume "i < length (take k (drop off (get_block m blk)))"
  then have i: "i < k" by simp
  then have "(b * 1024 + off + i) div 1024 = b" "(b * 1024 + off + i) mod 1024 = off + i"
    using assms(1) by (auto simp: div_mult_self3 add.assoc)
  with i assms show "take k (drop off (get_block m blk)) ! i = file_bytes fs ino m (b * 1024 + off) k ! i"
    by (simp add: file_bytes_def file_byte_def)
qed (use assms in simp)

lemma double_read_target_table: "518 \<le> b \<Longrightarrow> double_read_target fs ino b m = Some (file_table fs ino m b)"
  by (simp add: double_read_target_def file_table_def double_index_nat)

section \<open>The loop of \<^verbatim>\<open>read_indirect_block\<close>\<close>

text \<open>
  \<open>present m b e\<close>: the blocks from \<open>b\<close> up to \<open>e\<close> are there. A read that starts in block \<open>b\<close>
  goes up to the end of the request or of block \<open>e - 1\<close>, when \<open>e\<close> is a hole.
\<close>

definition present :: "F19FS_t \<Rightarrow> inode_t \<Rightarrow> mem \<Rightarrow> nat \<Rightarrow> nat \<Rightarrow> bool" where
  "present fs ino m b e \<longleftrightarrow> b \<le> e \<and> e < 65536 \<and>
     (\<forall>i. b \<le> i \<and> i < e \<longrightarrow> file_block fs ino m i \<noteq> 0 \<and> file_block fs ino m i \<le> 65528)"

definition stops :: "F19FS_t \<Rightarrow> inode_t \<Rightarrow> mem \<Rightarrow> nat \<Rightarrow> nat \<Rightarrow> nat \<Rightarrow> bool" where
  "stops fs ino m pos n e \<longleftrightarrow> pos + n \<le> e * 1024 \<or> file_block fs ino m e = 0"

text \<open>One step of the position: what one block contributes.\<close>

lemma step_arith:
  assumes "off < 1024" and "b < e" and "0 < n"
  defines "k \<equiv> min (1024 - off) n"
  shows "min n (e * 1024 - (b * 1024 + off)) = k + min (n - k) (e * 1024 - (Suc b * 1024 + 0))"
    and "n - k \<noteq> 0 \<Longrightarrow> b * 1024 + off + k = Suc b * 1024 + 0"
    and "n - k = 0 \<Longrightarrow> min n (e * 1024 - (b * 1024 + off)) = k \<and> k = n"
proof -
  have "Suc b * 1024 \<le> e * 1024" using assms(2) by simp
  then show "min n (e * 1024 - (b * 1024 + off)) = k + min (n - k) (e * 1024 - (Suc b * 1024 + 0))"
    "n - k \<noteq> 0 \<Longrightarrow> b * 1024 + off + k = Suc b * 1024 + 0"
    "n - k = 0 \<Longrightarrow> min n (e * 1024 - (b * 1024 + off)) = k \<and> k = n"
    using assms(1) unfolding k_def by (auto simp: min_def)
qed

lemma table_blocks:
  assumes "i < 512"
  shows "file_table fs ino m (6 + 512 * q + i) = file_table fs ino m (6 + 512 * q)"
    and "file_block fs ino m (6 + 512 * q + i) = (if file_table fs ino m (6 + 512 * q) = 0 then 0
      else unat (read_ptrs fs (file_table fs ino m (6 + 512 * q)) m ! i))"
proof -
  show t: "file_table fs ino m (6 + 512 * q + i) = file_table fs ino m (6 + 512 * q)"
  proof (cases q)
    case (Suc p)
    then have "(6 + 512 * q + i - 518) div 512 = p" "(6 + 512 * q - 518) div 512 = p"
      "\<not> 6 + 512 * q + i < 518" "\<not> 6 + 512 * q < 518" using assms by (simp_all add: div_add1_eq)
    then show ?thesis by (simp add: file_table_def)
  qed (use assms in \<open>simp add: file_table_def\<close>)
  have "(6 + 512 * q + i - 6) mod 512 = i" using assms by simp
  then show "file_block fs ino m (6 + 512 * q + i) = (if file_table fs ino m (6 + 512 * q) = 0 then 0
      else unat (read_ptrs fs (file_table fs ino m (6 + 512 * q)) m ! i))"
    by (simp add: file_block_def t)
qed

definition read_step :: "F19FS_t \<Rightarrow> mem \<Rightarrow> uint16_t list \<Rightarrow> read_state \<Rightarrow> read_state" where
  "read_step fs m ptrs r =
     (let blankSpace = blank_space (rs_offset r) (rs_nbyte r) in
      r\<lparr>rs_dst := rs_dst r @ take blankSpace (drop (rs_offset r)
            (snd (read_block fs (unat (ptrs ! rs_index r)) zero_block m))),
        rs_nbyte := rs_nbyte r - blankSpace, rs_index := rs_index r + 1, rs_sum := rs_sum r + blankSpace,
        rs_locator := uint16_incr (rs_locator r), rs_offset := 0\<rparr>)"

lemma indirect_read_loop_cases:
  "\<not> (rs_index r < 512 \<and> rs_nbyte r > 0) \<Longrightarrow> indirect_read_loop fs m ptrs r = r"
  "rs_index r < 512 \<Longrightarrow> rs_nbyte r > 0 \<Longrightarrow> unat (ptrs ! rs_index r) = 0 \<Longrightarrow>
    indirect_read_loop fs m ptrs r = r\<lparr>rs_hole := True\<rparr>"
  "rs_index r < 512 \<Longrightarrow> rs_nbyte r > 0 \<Longrightarrow> unat (ptrs ! rs_index r) \<noteq> 0 \<Longrightarrow>
    indirect_read_loop fs m ptrs r = indirect_read_loop fs m ptrs (read_step fs m ptrs r)"
proof -
  show "\<not> (rs_index r < 512 \<and> rs_nbyte r > 0) \<Longrightarrow> indirect_read_loop fs m ptrs r = r"
    by (subst indirect_read_loop.simps) (rule if_not_P)
  assume r: "rs_index r < 512" "rs_nbyte r > 0"
  show "unat (ptrs ! rs_index r) = 0 \<Longrightarrow> indirect_read_loop fs m ptrs r = r\<lparr>rs_hole := True\<rparr>"
    using r by (subst indirect_read_loop.simps) (simp only: Let_def simp_thms if_True)
  assume "unat (ptrs ! rs_index r) \<noteq> 0"
  with r show "indirect_read_loop fs m ptrs r = indirect_read_loop fs m ptrs (read_step fs m ptrs r)"
    by (subst indirect_read_loop.simps) (simp only: Let_def simp_thms if_True if_False read_step_def)
qed

lemma indirect_read_loop_spec:
  fixes m :: mem and h :: int
  defines "fs \<equiv> the_fs h"
  assumes t: "t = file_table fs ino m (6 + 512 * q)" "t \<noteq> 0"
  shows "rs_locator r = 6 + 512 * q + rs_index r \<Longrightarrow> rs_index r \<le> 512 \<Longrightarrow> rs_offset r < 1024 \<Longrightarrow>
    (rs_index r = 512 \<Longrightarrow> rs_offset r = 0) \<Longrightarrow> present fs ino m (rs_locator r) e \<Longrightarrow> e \<le> 6 + 512 * q + 512 \<Longrightarrow>
    (e < 6 + 512 * q + 512 \<Longrightarrow> stops fs ino m (rs_locator r * 1024 + rs_offset r) (rs_nbyte r) e) \<Longrightarrow> \<not> rs_hole r \<Longrightarrow>
    (let r' = indirect_read_loop fs m (read_ptrs fs t m) r;
         pos = rs_locator r * 1024 + rs_offset r; k = min (rs_nbyte r) (e * 1024 - pos)
     in rs_sum r' = rs_sum r + k \<and> rs_dst r' = rs_dst r @ file_bytes fs ino m pos k \<and>
        rs_nbyte r' = rs_nbyte r - k \<and> (rs_hole r' \<longleftrightarrow> rs_nbyte r' \<noteq> 0 \<and> e < 6 + 512 * q + 512) \<and>
        (rs_nbyte r' \<noteq> 0 \<and> \<not> rs_hole r' \<longrightarrow> rs_locator r' = 6 + 512 * q + 512 \<and> rs_offset r' = 0))"
proof (induction "512 - rs_index r" arbitrary: r)
  case 0
  then have "rs_index r = 512" by simp
  with 0 show ?case by (simp add: indirect_read_loop_cases(1) Let_def present_def)
next
  case (Suc x)
  then have i: "rs_index r < 512" by simp
  let ?c = "rs_locator r" and ?n = "rs_nbyte r" and ?off = "rs_offset r"
  have fb: "file_block fs ino m ?c = unat (read_ptrs fs t m ! rs_index r)"
    using table_blocks(2) [OF i, of fs ino m q] Suc.prems(1) t by simp
  have ce: "?c \<le> e" using Suc.prems(5) by (simp add: present_def)
  show ?case
  proof (cases "?n = 0")
    case True
    then show ?thesis using Suc.prems by (simp add: indirect_read_loop_cases(1) Let_def)
  next
    case n: False
    show ?thesis
    proof (cases "unat (read_ptrs fs t m ! rs_index r) = 0")
      case True
      then have "e = ?c" using fb Suc.prems(5) ce by (auto simp: present_def)
      then show ?thesis using True i n Suc.prems(1) by (simp add: indirect_read_loop_cases(2) Let_def)
    next
      case False
      have "e \<noteq> ?c"
      proof
        assume "e = ?c"
        then have "stops fs ino m (?c * 1024 + ?off) ?n e" using Suc.prems(1,7) i by simp
        with \<open>e = ?c\<close> n False fb show False by (simp add: stops_def)
      qed
      with ce have c: "?c < e" by simp
      then have bound: "unat (read_ptrs fs t m ! rs_index r) \<le> 65528"
        using Suc.prems(5) fb by (auto simp: present_def)
      let ?s = "read_step fs m (read_ptrs fs t m) r"
      define k1 where "k1 = min (1024 - ?off) ?n"
      have bs: "blank_space ?off ?n = k1" using Suc.prems(3) by (simp add: blank_space_eq k1_def)
      have incr: "uint16_incr ?c = Suc ?c" using c Suc.prems(5) by (simp add: uint16_incr_def present_def)
      have s: "rs_index ?s = Suc (rs_index r)" "rs_locator ?s = Suc ?c" "rs_offset ?s = 0" "rs_nbyte ?s = ?n - k1"
        "rs_sum ?s = rs_sum r + k1" "\<not> rs_hole ?s"
        "rs_dst ?s = rs_dst r @ file_bytes fs ino m (?c * 1024 + ?off) k1"
        using bound Suc.prems(3,8) fb file_bytes_in_block [of ?off k1 fs ino m ?c]
        by (simp_all add: read_step_def Let_def bs incr fs_def k1_def)
      note ar = step_arith [OF Suc.prems(3) c, of ?n, folded k1_def]
      have n0: "0 < ?n" using n by simp
      have st: "stops fs ino m (Suc ?c * 1024 + 0) (?n - k1) e" if "e < 6 + 512 * q + 512"
      proof (cases "?n - k1 = 0")
        case True
        then show ?thesis using c by (simp add: stops_def)
      next
        case False
        with Suc.prems(7) [OF that] ar(2) [OF n0 False] show ?thesis by (auto simp: stops_def)
      qed
      have IH: "let r' = indirect_read_loop fs m (read_ptrs fs t m) ?s;
          pos = Suc ?c * 1024 + 0; k = min (?n - k1) (e * 1024 - pos)
        in rs_sum r' = rs_sum r + k1 + k \<and>
          rs_dst r' = (rs_dst r @ file_bytes fs ino m (?c * 1024 + ?off) k1) @ file_bytes fs ino m pos k \<and>
          rs_nbyte r' = ?n - k1 - k \<and> (rs_hole r' \<longleftrightarrow> rs_nbyte r' \<noteq> 0 \<and> e < 6 + 512 * q + 512) \<and>
          (rs_nbyte r' \<noteq> 0 \<and> \<not> rs_hole r' \<longrightarrow> rs_locator r' = 6 + 512 * q + 512 \<and> rs_offset r' = 0)"
        using Suc.hyps(1) [of ?s] Suc.hyps(2) Suc.prems i c st by (simp add: s present_def)
      have loop: "indirect_read_loop fs m (read_ptrs fs t m) r = indirect_read_loop fs m (read_ptrs fs t m) ?s"
        using i n False by (intro indirect_read_loop_cases(3)) simp_all
      show ?thesis
      proof (cases "?n - k1 = 0")
        case True
        with IH ar(3) [OF n0 True] show ?thesis unfolding loop Let_def by simp
      next
        case False
        have sp: "file_bytes fs ino m (?c * 1024 + ?off) (k1 + k) =
            file_bytes fs ino m (?c * 1024 + ?off) k1 @ file_bytes fs ino m (Suc ?c * 1024 + 0) k" for k
          using file_bytes_append [of fs ino m "?c * 1024 + ?off" k1 k] unfolding ar(2) [OF n0 False] by simp
        define R where "R = indirect_read_loop fs m (read_ptrs fs t m) ?s"
        define k2 where "k2 = min (?n - k1) (e * 1024 - (Suc ?c * 1024 + 0))"
        have "rs_sum R = rs_sum r + (k1 + k2)" "rs_nbyte R = ?n - (k1 + k2)"
          "rs_dst R = rs_dst r @ file_bytes fs ino m (?c * 1024 + ?off) (k1 + k2)"
          "rs_hole R \<longleftrightarrow> rs_nbyte R \<noteq> 0 \<and> e < 6 + 512 * q + 512"
          "rs_nbyte R \<noteq> 0 \<and> \<not> rs_hole R \<longrightarrow> rs_locator R = 6 + 512 * q + 512 \<and> rs_offset R = 0"
          using IH unfolding Let_def R_def [symmetric] k2_def [symmetric] sp by auto
        then show ?thesis unfolding loop Let_def ar(1) [OF n0] R_def [symmetric] k2_def [symmetric] by simp
      qed
    qed
  qed
qed

section \<open>The three read functions\<close>

lemma split_block: "6 \<le> (b :: nat) \<Longrightarrow> \<exists>q i. b = 6 + 512 * q + i \<and> i < 512"
proof -
  assume "6 \<le> b"
  moreover have "b - 6 = 512 * ((b - 6) div 512) + (b - 6) mod 512" by (rule mult_div_mod_eq [symmetric])
  ultimately have "b = 6 + 512 * ((b - 6) div 512) + (b - 6) mod 512 \<and> (b - 6) mod 512 < 512" by simp
  then show ?thesis by blast
qed

lemma read_indirect_spec:
  "6 \<le> b \<Longrightarrow> off < 1024 \<Longrightarrow> present (the_fs h) ino m b e \<Longrightarrow> stops (the_fs h) ino m (b * 1024 + off) n e \<Longrightarrow>
    read_indirect_block (the_fs h) ino b off n (file_table (the_fs h) ino m b) m =
      (let k = min n (e * 1024 - (b * 1024 + off)) in Some (k, file_bytes (the_fs h) ino m (b * 1024 + off) k))"
proof (induction n arbitrary: b off rule: less_induct)
  case (less n)
  let ?fs = "the_fs h"
  obtain q i where b: "b = 6 + 512 * q + i" and i: "i < 512" using split_block [OF less.prems(1)] by blast
  define t where "t = file_table ?fs ino m (6 + 512 * q)"
  have tb: "file_table ?fs ino m b = t" unfolding b t_def by (rule table_blocks(1) [OF i])
  have fb: "file_block ?fs ino m b = (if t = 0 then 0 else unat (read_ptrs ?fs t m ! i))"
    unfolding b t_def by (rule table_blocks(2) [OF i])
  have be: "b \<le> e" "e < 65536" using less.prems(3) by (simp_all add: present_def)
  show ?case
  proof (cases "t = 0")
    case True
    then have "file_block ?fs ino m b = 0" using fb by simp
    then have "e = b" using less.prems(3) be by (auto simp: present_def)
    with True show ?thesis by (simp add: tb read_indirect_block.simps [of _ _ _ _ _ 0])
  next
    case False
    define r where "r = \<lparr>rs_index = indirect_index b, rs_locator = b, rs_offset = off, rs_nbyte = n, rs_sum = 0,
      rs_dst = [], rs_hole = False\<rparr>"
    define lim where "lim = 6 + 512 * q + 512"
    have lim: "518 \<le> lim" "6 \<le> lim" "b \<le> lim" "b < lim" using i by (simp_all add: lim_def b)
    define e1 where "e1 = min e lim"
    define k1 where "k1 = min n (e1 * 1024 - (b * 1024 + off))"
    define r' where "r' = indirect_read_loop ?fs m (read_ptrs ?fs t m) r"
    have idx: "indirect_index b = i" using i by (simp add: indirect_index_nat b)
    have pr: "present ?fs ino m b e1" using less.prems(3) lim(3) by (auto simp: present_def e1_def)
    have st: "e1 < lim \<Longrightarrow> stops ?fs ino m (b * 1024 + off) n e1" using less.prems(4) by (simp add: e1_def min_def split: if_splits)
    have r: "rs_index r = i" "rs_locator r = b" "rs_offset r = off" "rs_nbyte r = n" "rs_sum r = 0" "rs_dst r = []"
      "\<not> rs_hole r"
      by (simp_all add: r_def idx)
    have "let r' = indirect_read_loop ?fs m (read_ptrs ?fs t m) r;
         pos = rs_locator r * 1024 + rs_offset r; k = min (rs_nbyte r) (e1 * 1024 - pos)
       in rs_sum r' = rs_sum r + k \<and> rs_dst r' = rs_dst r @ file_bytes ?fs ino m pos k \<and>
        rs_nbyte r' = rs_nbyte r - k \<and> (rs_hole r' \<longleftrightarrow> rs_nbyte r' \<noteq> 0 \<and> e1 < lim) \<and>
        (rs_nbyte r' \<noteq> 0 \<and> \<not> rs_hole r' \<longrightarrow> rs_locator r' = lim \<and> rs_offset r' = 0)"
      by (rule indirect_read_loop_spec [OF t_def False, folded lim_def]) (use r b i less.prems(2) pr st in \<open>auto simp: e1_def lim_def\<close>)
    then have R: "rs_sum r' = k1" "rs_dst r' = file_bytes ?fs ino m (b * 1024 + off) k1" "rs_nbyte r' = n - k1"
      "rs_hole r' \<longleftrightarrow> n - k1 \<noteq> 0 \<and> e1 < lim"
      "n - k1 \<noteq> 0 \<Longrightarrow> \<not> rs_hole r' \<Longrightarrow> rs_locator r' = lim \<and> rs_offset r' = 0"
      unfolding Let_def r k1_def [symmetric] r'_def [symmetric] by auto
    have unf: "read_indirect_block ?fs ino b off n t m =
        (if rs_hole r' \<or> rs_nbyte r' = 0 then Some (rs_sum r', rs_dst r')
         else Option.bind (double_read_target ?fs ino (rs_locator r') m) (\<lambda>target.
           if target = 0 then Some (rs_sum r', rs_dst r')
           else Option.bind (read_indirect_block ?fs ino (rs_locator r') (rs_offset r') (rs_nbyte r') target m)
                  (\<lambda>(sum, dst). Some (rs_sum r' + sum, rs_dst r' @ dst))))"
      using False by (subst read_indirect_block.simps) (simp add: r'_def [symmetric] r_def [symmetric] Let_def)
    show ?thesis
    proof (cases "rs_hole r' \<or> n - k1 = 0")
      case True
      then have "min n (e * 1024 - (b * 1024 + off)) = k1"
      proof
        assume "rs_hole r'"
        then have "e1 = e" using R(4) by (auto simp: e1_def)
        then show ?thesis by (simp add: k1_def)
      next
        assume "n - k1 = 0"
        moreover have "e1 * 1024 \<le> e * 1024" by (simp add: e1_def)
        ultimately show ?thesis by (auto simp: k1_def min_def split: if_splits)
      qed
      with True R show ?thesis by (auto simp: tb unf Let_def)
    next
      case more: False
      then have e1: "e1 = lim" "lim \<le> e" using R(4) by (auto simp: e1_def)
      have loc: "rs_locator r' = lim" "rs_offset r' = 0" using R(5) more by auto
      have k1: "k1 = lim * 1024 - (b * 1024 + off)" "0 < k1" "b * 1024 + off + k1 = lim * 1024" "k1 < n"
      proof -
        have lt: "b * 1024 + off < lim * 1024" using i less.prems(2) by (simp add: b lim_def)
        show k: "k1 = lim * 1024 - (b * 1024 + off)" using more e1 by (auto simp: k1_def min_def split: if_splits)
        show "0 < k1" "b * 1024 + off + k1 = lim * 1024" unfolding k using lt by simp_all
        show "k1 < n" using more by simp
      qed
      have whole: "min n (e * 1024 - (b * 1024 + off)) = k1 + min (n - k1) (e * 1024 - lim * 1024)"
        using k1 e1(2) by (auto simp: min_def)
      have tgt: "double_read_target ?fs ino lim m = Some (file_table ?fs ino m lim)"
        by (rule double_read_target_table [OF lim(1)])
      show ?thesis
      proof (cases "file_table ?fs ino m lim = 0")
        case True
        then have "file_block ?fs ino m lim = 0" using lim by (simp add: file_block_def)
        then have "e = lim" using less.prems(3) e1(2) lim(3) unfolding present_def by (metis le_neq_implies_less)
        then have "min n (e * 1024 - (b * 1024 + off)) = min n k1" by (simp only: k1(1))
        also have "\<dots> = k1" by (rule min_absorb2 [OF less_imp_le [OF k1(4)]])
        finally have "min n (e * 1024 - (b * 1024 + off)) = k1" .
        with True more R show ?thesis by (simp add: tb unf loc tgt Let_def)
      next
        case False
        have pr': "present ?fs ino m lim e" using less.prems(3) e1(2) lim by (auto simp: present_def)
        have st': "stops ?fs ino m (lim * 1024 + 0) (n - k1) e"
          using less.prems(4) k1 by (auto simp: stops_def)
        have IH: "read_indirect_block ?fs ino lim 0 (n - k1) (file_table ?fs ino m lim) m =
          (let k = min (n - k1) (e * 1024 - (lim * 1024 + 0)) in Some (k, file_bytes ?fs ino m (lim * 1024 + 0) k))"
          using k1 pr' st' lim less.IH [of "n - k1" lim 0] by simp
        have "file_bytes ?fs ino m (b * 1024 + off) k1 @ file_bytes ?fs ino m (lim * 1024) k =
            file_bytes ?fs ino m (b * 1024 + off) (k1 + k)" for k
          using file_bytes_append [of ?fs ino m "b * 1024 + off" k1 k] k1(3) by simp
        with False more R IH whole e1(1) show ?thesis by (simp add: tb unf loc tgt Let_def)
      qed
    qed
  qed
qed

definition read_at :: "F19FS_t \<Rightarrow> inode_t \<Rightarrow> nat \<Rightarrow> nat \<Rightarrow> nat \<Rightarrow> mem \<Rightarrow> (nat \<times> byte list) option" where
  "read_at fs ino b off n m =
     (if b < 6 then read_direct_block fs ino b off n m
      else if b < 518 then read_indirect_block fs ino b off n (unat (indirectPointer ino)) m
      else read_doubleDirect_block fs ino b off n m)"

lemma read_at_indirect:
  assumes "6 \<le> b" "off < 1024" "present (the_fs h) ino m b e" "stops (the_fs h) ino m (b * 1024 + off) n e"
  shows "read_at (the_fs h) ino b off n m =
    (let k = min n (e * 1024 - (b * 1024 + off)) in Some (k, file_bytes (the_fs h) ino m (b * 1024 + off) k))"
proof (cases "b < 518")
  case True
  then have "file_table (the_fs h) ino m b = unat (indirectPointer ino)" by (simp add: file_table_def)
  with True assms read_indirect_spec [OF assms] show ?thesis by (simp add: read_at_def)
next
  case False
  show ?thesis
  proof (cases "file_table (the_fs h) ino m b = 0")
    case True
    then have "file_block (the_fs h) ino m b = 0" using False by (simp add: file_block_def)
    then have "e = b" using assms(3) by (auto simp: present_def)
    with True False show ?thesis
      by (simp add: read_at_def read_doubleDirect_block_def double_read_target_table)
  next
    case t: False
    with False read_indirect_spec [OF assms] show ?thesis
      by (simp add: read_at_def read_doubleDirect_block_def double_read_target_table)
  qed
qed

lemma read_at_spec:
  assumes "off < 1024" "present (the_fs h) ino m b e" "stops (the_fs h) ino m (b * 1024 + off) n e"
  shows "read_at (the_fs h) ino b off n m =
    (let k = min n (e * 1024 - (b * 1024 + off)) in Some (k, file_bytes (the_fs h) ino m (b * 1024 + off) k))"
  using assms
proof (induction "6 - b" arbitrary: b off n)
  case 0
  then show ?case by (intro read_at_indirect) simp_all
next
  case (Suc x)
  let ?fs = "the_fs h"
  have b: "b < 6" using Suc.hyps(2) by simp
  have fb: "file_block ?fs ino m b = unat (directPointer ino ! b)" using b by (simp add: file_block_def)
  define k1 where "k1 = min (1024 - off) n"
  have bs: "blank_space off n = k1" using Suc.prems(1) by (simp add: blank_space_eq k1_def)
  show ?case
  proof (cases "unat (directPointer ino ! b) = 0")
    case True
    then have "e = b" using fb Suc.prems(2) by (auto simp: present_def)
    with True b show ?thesis by (simp add: read_at_def read_direct_block.simps [of _ _ b])
  next
    case False
    have n0: "e = b \<Longrightarrow> n = 0 \<and> off = 0"
      using Suc.prems(3) fb False by (simp add: stops_def)
    have bound: "unat (directPointer ino ! b) \<le> 65528 \<or> e = b" using Suc.prems(2) fb by (auto simp: present_def)
    show ?thesis
    proof (cases "n - k1 = 0")
      case True
      then have k: "k1 = n" by (auto simp: k1_def)
      have "read_direct_block ?fs ino b off n m =
          Some (n, take n (drop off (snd (read_block ?fs (unat (directPointer ino ! b)) zero_block m))))"
        using False True k by (subst read_direct_block.simps) (simp add: Let_def bs)
      moreover have "min n (e * 1024 - (b * 1024 + off)) = n"
      proof (cases "e = b")
        case False
        then have "Suc b * 1024 \<le> e * 1024" using Suc.prems(2) by (simp add: present_def)
        then show ?thesis using k Suc.prems(1) by (auto simp: k1_def min_def split: if_splits)
      qed (use n0 in simp)
      moreover have "take n (drop off (snd (read_block ?fs (unat (directPointer ino ! b)) zero_block m))) =
          file_bytes ?fs ino m (b * 1024 + off) n"
      proof (cases "n = 0")
        case False
        then have "off + n \<le> 1024" "unat (directPointer ino ! b) \<le> 65528" using k n0 bound by (auto simp: k1_def)
        then show ?thesis using fb by (simp add: file_bytes_in_block)
      qed simp
      ultimately show ?thesis using b by (simp add: read_at_def Let_def)
    next
      case more: False
      then have n: "0 < n" by simp
      then have "e \<noteq> b" using n0 by auto
      then have c: "b < e" using Suc.prems(2) by (simp add: present_def)
      have bnd: "unat (directPointer ino ! b) \<le> 65528" using bound c by auto
      note ar = step_arith [OF Suc.prems(1) c, of n, folded k1_def]
      have dst: "take k1 (drop off (snd (read_block ?fs (unat (directPointer ino ! b)) zero_block m))) =
          file_bytes ?fs ino m (b * 1024 + off) k1"
      proof -
        have "off + k1 \<le> 1024" using Suc.prems(1) by (simp add: k1_def)
        then show ?thesis using bnd fb by (simp add: file_bytes_in_block)
      qed
      have unf: "read_direct_block ?fs ino b off n m =
          map_option (\<lambda>(sum, dst1). (k1 + sum, file_bytes ?fs ino m (b * 1024 + off) k1 @ dst1))
            (read_at ?fs ino (b + 1) 0 (n - k1) m)"
        using False more b
        by (subst read_direct_block.simps) (simp add: Let_def bs dst read_at_def)
      have pr: "present ?fs ino m (b + 1) e" using Suc.prems(2) c by (simp add: present_def)
      have st: "stops ?fs ino m ((b + 1) * 1024 + 0) (n - k1) e"
        using Suc.prems(3) ar(2) [OF n more] more by (auto simp: stops_def)
      have IH: "read_at ?fs ino (b + 1) 0 (n - k1) m =
          (let k = min (n - k1) (e * 1024 - ((b + 1) * 1024 + 0))
           in Some (k, file_bytes ?fs ino m ((b + 1) * 1024 + 0) k))"
        using Suc.hyps pr st by (intro Suc.hyps(1)) simp_all
      have "file_bytes ?fs ino m (b * 1024 + off) k1 @ file_bytes ?fs ino m (Suc b * 1024 + 0) k =
          file_bytes ?fs ino m (b * 1024 + off) (k1 + k)" for k
        using file_bytes_append [of ?fs ino m "b * 1024 + off" k1 k] unfolding ar(2) [OF n more] by simp
      with IH ar(1) [OF n] b show ?thesis by (simp add: read_at_def [of _ _ b] unf Let_def)
    qed
  qed
qed

section \<open>\<^verbatim>\<open>fs_read\<close> and \<^verbatim>\<open>fs_seek\<close>\<close>

lemma clamp_nbyte_int:
  assumes "g + n < 2 ^ 64"
  shows "clamp_nbyte file_size (int g) n =
    (if g + n \<le> unat file_size then n else nat ((int (unat file_size) - int g) mod 2 ^ 64))"
proof -
  have g: "unat (of_nat g :: uint64_t) = g" and n: "unat (of_nat n :: uint64_t) = n"
    using assms by (simp_all add: unat_of_nat)
  have "unat (of_nat g + of_nat n :: uint64_t) = g + n" using assms g n by (simp add: unat_word_ariths)
  then have c: "of_int (int g) + of_nat n > file_size \<longleftrightarrow> \<not> g + n \<le> unat file_size" by (simp add: word_less_nat_alt not_le)
  have "uint (of_nat g :: uint64_t) = int g" using g by (metis of_nat_unat)
  then have "uint (file_size - of_nat g) = (uint file_size - int g) mod 2 ^ 64" by (subst uint_word_ariths(2)) simp
  then have "unat (file_size - of_nat g) = nat ((int (unat file_size) - int g) mod 2 ^ 64)" unfolding unat_eq_nat_uint by simp
  then show ?thesis using c by (simp add: clamp_nbyte_def)
qed

lemma clamp_nbyte_eq:
  assumes "g + n < 2 ^ 64" and "g \<le> unat file_size"
  shows "clamp_nbyte file_size (int g) n = min n (unat file_size - g)"
proof -
  define s where "s = unat file_size"
  have "s < 2 ^ 64" using unsigned_less [of file_size, where 'a = nat] by (simp add: s_def)
  then have "(int s - int g) mod 2 ^ 64 = int (s - g)"
    using assms(2) by (subst mod_pos_pos_trivial) (simp_all add: of_nat_diff s_def [symmetric])
  then show ?thesis using assms(2) unfolding clamp_nbyte_int [OF assms(1)] s_def [symmetric] by (auto simp: min_def)
qed

text \<open>Behind the end of the file the difference to its size wraps around.\<close>

lemma clamp_nbyte_behind:
  assumes "g + n < 2 ^ 64" and "unat file_size < g"
  shows "clamp_nbyte file_size (int g) n = 2 ^ 64 + unat file_size - g"
proof -
  define s where "s = unat file_size"
  have b: "s < g" "g < 2 ^ 64" using assms by (simp_all add: s_def)
  have "(int s - int g) mod 2 ^ 64 = (int s - int g + 2 ^ 64) mod 2 ^ 64" by simp
  also have "\<dots> = int (2 ^ 64 + s - g)" using b by (subst mod_pos_pos_trivial) (simp_all add: of_nat_diff)
  finally show ?thesis using b(1) unfolding clamp_nbyte_int [OF assms(1)] s_def [symmetric] by simp
qed

lemma as_int_id: "0 \<le> i \<Longrightarrow> i < 2 ^ 31 \<Longrightarrow> as_int32 i = i" "- (2 ^ 63) \<le> i \<Longrightarrow> i < 2 ^ 63 \<Longrightarrow> as_int64 i = i"
  by (simp_all add: as_int32_def as_int64_def signed_take_bit_int_eq_self)

text \<open>The bytes \<^verbatim>\<open>getPreviosOffset\<close> loses.\<close>

definition lost :: "fd_t \<Rightarrow> nat" where
  "lost f = (if locate_order f \<noteq> 0 \<and> locate_offset f \<noteq> 0 then 1024 else 0)"

lemma lost_le: "lost f \<le> cursor_pos f"
  by (auto simp: lost_def cursor_pos_def unat_eq_zero intro!: trans_le_add1 mult_le_mono1 [of 1, simplified])
    (metis One_nat_def Suc_leI gr0I mult.left_neutral mult_le_mono1 unat_eq_zero)

lemma getPreviosOffset_lost: "getPreviosOffset f = int (cursor_pos f - lost f)"
  using getPreviosOffset_pos [of f] lost_le [of f] by (auto simp: lost_def of_nat_diff)

lemma cursor_block: "cursor_ok f \<Longrightarrow> unat (locate_order f) * 1024 + unat (locate_offset f) = cursor_pos f"
  by (simp add: cursor_pos_def)

lemma fs_read_at:
  fixes m :: mem
  assumes "f < 256" and "bitmap_test fd_bm f m" and "0 < n"
  defines "d \<equiv> get_fd m f" and "ino \<equiv> get_inode m (unat (inodeNum (get_fd m f)))"
  shows "fs_read (Some (the_fs h)) (int f) True n m =
    map_option (\<lambda>(sum, dst). (int sum, dst, put_fd f (updateFD d (int sum)) m))
      (read_at (the_fs h) ino (unat (locate_order d)) (unat (locate_offset d))
         (clamp_nbyte (fileSize ino) (getPreviosOffset d) n) m)"
proof -
  have i: "unat (inodeNum d) < 256" using unsigned_less [of "inodeNum d", where 'a = nat] by simp
  have g: "\<not> (int f < 0 \<or> 256 \<le> int f)" using assms(1) by simp
  show ?thesis
    using assms(1-3) i
    by (simp add: fs_read_def block_store_get_bm_def d_def ino_def read_at_def Let_def)
qed

text \<open>A read goes up to the bound that the code computes or to the first hole.\<close>

lemma fs_read_clamped:
  fixes n :: nat and h :: int
  assumes f: "f < 256" "bitmap_test fd_bm f m"
  defines "d \<equiv> get_fd m f" and "ino \<equiv> get_inode m (unat (inodeNum (get_fd m f)))"
  defines "pos \<equiv> cursor_pos d" and "n1 \<equiv> clamp_nbyte (fileSize ino) (int (cursor_pos d - lost d)) n"
  assumes n: "0 < n" and cur: "cursor_ok d"
    and pr: "present (the_fs h) ino m (unat (locate_order d)) e" "stops (the_fs h) ino m pos n1 e"
  defines "k \<equiv> min n1 (e * 1024 - pos)"
  shows "\<exists>m'. fs_read (Some (the_fs h)) (int f) True n m = Some (int k, file_bytes (the_fs h) ino m pos k, m') \<and>
    m' Image = m Image \<and> cursor_pos (get_fd m' f) = pos + k \<and> cursor_ok (get_fd m' f) \<and>
    inodeNum (get_fd m' f) = inodeNum d \<and> (\<forall>g. bitmap_test fd_bm g m' = bitmap_test fd_bm g m) \<and>
    (\<forall>g<256. g \<noteq> f \<longrightarrow> get_fd m' g = get_fd m g)"
proof -
  have "read_at (the_fs h) ino (unat (locate_order d)) (unat (locate_offset d)) n1 m =
      Some (k, file_bytes (the_fs h) ino m pos k)"
    using read_at_spec [of "unat (locate_offset d)" h ino m "unat (locate_order d)" e n1] pr cur
    by (simp add: cursor_block cursor_ok_def k_def Let_def pos_def)
  then have "fs_read (Some (the_fs h)) (int f) True n m =
      Some (int k, file_bytes (the_fs h) ino m pos k, put_fd f (updateFD d (int k)) m)"
    using fs_read_at [OF f, of n h] n by (simp add: d_def ino_def n1_def getPreviosOffset_lost)
  moreover have "pos + k < 2 ^ 26"
  proof (cases "k = 0")
    case True
    have "unat (locate_order d) < 65536" using pr(1) by (simp add: present_def)
    then show ?thesis using True cur by (simp add: pos_def cursor_pos_def cursor_ok_def)
  next
    case False
    then have "pos + k \<le> e * 1024" by (auto simp: k_def)
    then show ?thesis using pr(1) by (simp add: present_def)
  qed
  ultimately show ?thesis
    using updateFD_advances [OF cur, of k] by (simp add: pos_def get_put_fd image_fd fd_test_put_fd)
qed

lemma fs_read_none:
  "f < 256 \<Longrightarrow> bitmap_test fd_bm f m \<Longrightarrow> fs_read (Some (the_fs h)) (int f) True 0 m = Some (0, [], m)"
  by (simp add: fs_read_def block_store_get_bm_def)

lemma fs_read_result:
  fixes n :: nat and h :: int
  assumes f: "f < 256" "bitmap_test fd_bm f m"
  defines "d \<equiv> get_fd m f" and "ino \<equiv> get_inode m (unat (inodeNum (get_fd m f)))"
  defines "pos \<equiv> cursor_pos d" and "n1 \<equiv> min n (unat (fileSize ino) - (cursor_pos d - lost d))"
  assumes cur: "cursor_ok d" "pos \<le> unat (fileSize ino)" "pos + n < 2 ^ 64"
    and pr: "present (the_fs h) ino m (unat (locate_order d)) e" "stops (the_fs h) ino m pos n1 e"
  defines "k \<equiv> min n1 (e * 1024 - pos)"
  shows "\<exists>m'. fs_read (Some (the_fs h)) (int f) True n m = Some (int k, file_bytes (the_fs h) ino m pos k, m') \<and>
    m' Image = m Image \<and> cursor_pos (get_fd m' f) = pos + k \<and> cursor_ok (get_fd m' f) \<and>
    inodeNum (get_fd m' f) = inodeNum d \<and> (\<forall>g. bitmap_test fd_bm g m' = bitmap_test fd_bm g m)"
proof (cases "n = 0")
  case True
  then show ?thesis using f cur(1) fs_read_none [OF f, of h] by (simp add: k_def n1_def d_def pos_def)
next
  case False
  have "clamp_nbyte (fileSize ino) (int (cursor_pos d - lost d)) n = n1"
    unfolding n1_def using cur lost_le [of d] by (intro clamp_nbyte_eq) (simp_all add: pos_def)
  then show ?thesis
    using fs_read_clamped [OF f, of n h e] False cur(1) pr unfolding d_def ino_def pos_def k_def by auto
qed

lemma seek_lands:
  assumes "cursor_pos d < 2 ^ 26" and "file_size < 2 ^ 26"
    and "- (2 ^ 62) \<le> offset" "offset < 2 ^ 62"
  shows "seek_offset FS_SEEK_SET (of_nat file_size) d offset = max 0 (min (int file_size) offset)"
    and "seek_offset FS_SEEK_CUR (of_nat file_size) d offset = max 0 (min (int file_size) (int (cursor_pos d - lost d) + offset))"
    and "seek_offset FS_SEEK_END (of_nat file_size) d offset = max 0 (min (int file_size) (int file_size + offset))"
proof -
  have u: "uint (of_nat file_size :: uint64_t) = int file_size"
    using assms(2) by (simp add: uint_nat unat_of_nat)
  have b: "as_int32 (int file_size) = int file_size" using assms(2) by (intro as_int_id) simp_all
  have g: "getPreviosOffset d < 2 ^ 26" "0 \<le> getPreviosOffset d" using assms(1) by (simp_all add: getPreviosOffset_lost)
  show "seek_offset FS_SEEK_SET (of_nat file_size) d offset = max 0 (min (int file_size) offset)"
    unfolding seek_offset_def Let_def u b by (simp add: cutBoundary_clamp)
  have "as_int64 (offset + getPreviosOffset d) = offset + getPreviosOffset d" using assms g by (intro as_int_id) simp_all
  then show "seek_offset FS_SEEK_CUR (of_nat file_size) d offset =
      max 0 (min (int file_size) (int (cursor_pos d - lost d) + offset))"
    unfolding seek_offset_def Let_def u b by (simp add: cutBoundary_clamp getPreviosOffset_lost add.commute)
  have "as_int64 (offset + int file_size) = offset + int file_size" using assms by (intro as_int_id) simp_all
  then show "seek_offset FS_SEEK_END (of_nat file_size) d offset = max 0 (min (int file_size) (int file_size + offset))"
    unfolding seek_offset_def Let_def u b by (simp add: cutBoundary_clamp add.commute)
qed

lemma fs_seek_moves:
  fixes offset :: int
  assumes f: "f < 256" "bitmap_test fd_bm f m" and w: "whence \<noteq> Other_whence"
  defines "d \<equiv> get_fd m f" and "ino \<equiv> get_inode m (unat (inodeNum (get_fd m f)))"
  defines "target \<equiv> seek_offset whence (fileSize ino) d offset"
  assumes t: "0 \<le> target" "target < 2 ^ 26"
  shows "\<exists>m'. fs_seek (Some (the_fs h)) (int f) offset whence m = (target, m') \<and> m' Image = m Image \<and>
    int (cursor_pos (get_fd m' f)) = target \<and> cursor_ok (get_fd m' f) \<and> inodeNum (get_fd m' f) = inodeNum d \<and>
    (\<forall>g<256. g \<noteq> f \<longrightarrow> get_fd m' g = get_fd m g) \<and> (\<forall>g. bitmap_test fd_bm g m' = bitmap_test fd_bm g m)"
proof -
  have i: "unat (inodeNum d) < 256" using unsigned_less [of "inodeNum d", where 'a = nat] by simp
  let ?s = "d\<lparr>locate_order := 0, locate_offset := 0\<rparr>"
  have s: "cursor_ok ?s" "cursor_pos ?s = 0" by (simp_all add: cursor_ok_def cursor_pos_def)
  have "whence = FS_SEEK_CUR \<or> whence = FS_SEEK_END \<or> whence = FS_SEEK_SET" using w by (cases whence) auto
  then have "fs_seek (Some (the_fs h)) (int f) offset whence m = (target, put_fd f (updateFD ?s target) m)"
    using f i by (simp add: fs_seek_def block_store_get_bm_def d_def ino_def target_def Let_def del: disj_not1)
  moreover have "int (nat target) = target" using t by simp
  ultimately show ?thesis
    using updateFD_advances [OF s(1), of "nat target"] s(2) t
    by (simp add: get_put_fd image_fd fd_test_put_fd)
qed

section \<open>Ranges of a file\<close>

text \<open>The file depends on the image alone.\<close>

lemma image_cong:
  fixes h :: int
  assumes "m' Image = m Image"
  shows "get_block m' j = get_block m j" "get_inode m' i = get_inode m i"
    "read_ptrs (the_fs h) t m' = read_ptrs (the_fs h) t m" "file_block (the_fs h) ino m' b = file_block (the_fs h) ino m b"
    "file_byte (the_fs h) ino m' p = file_byte (the_fs h) ino m p"
    "file_bytes (the_fs h) ino m' p n = file_bytes (the_fs h) ino m p n"
proof -
  show b: "get_block m' j = get_block m j" for j using assms by (simp add: get_block_def mread_def)
  show "get_inode m' i = get_inode m i" using assms by (simp add: get_inode_def mread_def)
  show r: "read_ptrs (the_fs h) t m' = read_ptrs (the_fs h) t m" for t
    using b by (cases "t \<le> 65528") (simp_all add: read_ptrs_def read_block_fails)
  show f: "file_block (the_fs h) ino m' b = file_block (the_fs h) ino m b" for b
    by (simp add: file_block_def file_table_def r)
  show y: "file_byte (the_fs h) ino m' p = file_byte (the_fs h) ino m p" for p
    by (simp add: file_byte_def f b)
  show "file_bytes (the_fs h) ino m' p n = file_bytes (the_fs h) ino m p n"
    by (simp add: file_bytes_def y)
qed

lemma cursor_split: "cursor_ok d \<Longrightarrow> unat (locate_order d) = cursor_pos d div 1024"
  "cursor_ok d \<Longrightarrow> unat (locate_offset d) = cursor_pos d mod 1024"
  by (simp_all add: cursor_ok_def cursor_pos_def)

text \<open>Reading a range whose blocks are there and that the size covers.\<close>

lemma fs_read_range:
  fixes h :: int
  assumes f: "f < 256" "bitmap_test fd_bm f m"
  defines "d \<equiv> get_fd m f" and "ino \<equiv> get_inode m (unat (inodeNum (get_fd m f)))"
  defines "pos \<equiv> cursor_pos d"
  assumes cur: "cursor_ok d" and size: "pos + n \<le> unat (fileSize ino)" "pos + n < 2 ^ 26 - 1024"
    and there: "\<And>p. pos \<le> p \<Longrightarrow> p < pos + n \<Longrightarrow>
      file_block (the_fs h) ino m (p div 1024) \<noteq> 0 \<and> file_block (the_fs h) ino m (p div 1024) \<le> 65528"
  shows "\<exists>m'. fs_read (Some (the_fs h)) (int f) True n m = Some (int n, file_bytes (the_fs h) ino m pos n, m') \<and>
    m' Image = m Image \<and> cursor_pos (get_fd m' f) = pos + n \<and> cursor_ok (get_fd m' f) \<and>
    inodeNum (get_fd m' f) = inodeNum d"
proof (cases "n = 0")
  case True
  then show ?thesis using cur fs_read_none [OF f, of h] by (simp add: d_def pos_def)
next
  case n: False
  define c where "c = pos div 1024"
  define e where "e = (pos + n + 1023) div 1024"
  have c: "unat (locate_order d) = c" using cursor_split(1) [OF cur] by (simp add: c_def pos_def)
  have e: "pos + n \<le> e * 1024" "e * 1024 \<le> pos + n + 1023" unfolding e_def by linarith+
  have ce: "c \<le> e" "e < 65536"
  proof -
    have "c * 1024 \<le> pos" by (simp add: c_def)
    then have "c * 1024 \<le> e * 1024" using e(1) by linarith
    then show "c \<le> e" by simp
    have "e * 1024 < 65536 * 1024" using e(2) size(2) by simp
    then show "e < 65536" by simp
  qed
  have "present (the_fs h) ino m c e"
    unfolding present_def
  proof (intro conjI allI impI; (elim conjE)?)
    fix b assume b: "c \<le> b" "b < e"
    define p where "p = max pos (b * 1024)"
    have "b * 1024 + 1024 \<le> e * 1024" using b(2) by (metis Suc_leI add.commute mult_Suc mult_le_mono1)
    moreover have "pos < c * 1024 + 1024" unfolding c_def using div_mult_mod_eq [of pos 1024] mod_less_divisor [of 1024 pos] by linarith
    moreover have "c * 1024 \<le> b * 1024" using b(1) by (intro mult_le_mono1)
    ultimately have "p div 1024 = b" "pos \<le> p" "p < pos + n"
      using e(2) n by (auto simp: p_def max_def intro!: div_nat_eqI)
    from there [OF this(2,3)] this(1)
    show "file_block (the_fs h) ino m b \<noteq> 0" "file_block (the_fs h) ino m b \<le> 65528" by simp_all
  qed (use ce in simp_all)
  moreover have "stops (the_fs h) ino m pos n e" using e(1) by (simp add: stops_def)
  moreover have "min n (unat (fileSize ino) - (pos - lost d)) = n" using size(1) by simp
  moreover have "min n (e * 1024 - pos) = n" using e(1) by simp
  ultimately show ?thesis
    using fs_read_result [OF f, folded d_def ino_def, folded pos_def, OF cur, of n h e] size c by auto
qed

section \<open>A read comes to its end\<close>

text \<open>
  The pointers of a file are in range: each block pointer and each pointer block that the block map
  goes through is a block of the store. (The code reads a block that is not one of the store's into
  an uninitialised buffer, where the model has zeros.)
\<close>

definition pointers_ok :: "F19FS_t \<Rightarrow> inode_t \<Rightarrow> mem \<Rightarrow> bool" where
  "pointers_ok fs ino m \<longleftrightarrow> unat (indirectPointer ino) \<le> 65528 \<and> unat (doubleIndirectPointer ino) \<le> 65528 \<and>
     (\<forall>b<65536. file_table fs ino m b \<le> 65528 \<and> file_block fs ino m b \<le> 65528)"

text \<open>Either the blocks from \<open>c\<close> on go up to a hole, or there is none.\<close>

lemma present_up_to:
  assumes "pointers_ok fs ino m" and "c < 65536"
  obtains (hole) e where "present fs ino m c e" "file_block fs ino m e = 0" | (all) "present fs ino m c 65535"
proof (cases "\<exists>e. c \<le> e \<and> e < 65536 \<and> file_block fs ino m e = 0")
  case True
  define e where "e = (LEAST e. c \<le> e \<and> e < 65536 \<and> file_block fs ino m e = 0)"
  have e: "c \<le> e \<and> e < 65536 \<and> file_block fs ino m e = 0" unfolding e_def using True by (rule LeastI_ex)
  have "file_block fs ino m i \<noteq> 0" if "c \<le> i" "i < e" for i
    using not_less_Least [of i "\<lambda>e. c \<le> e \<and> e < 65536 \<and> file_block fs ino m e = 0"] that e by (auto simp: e_def)
  then have "present fs ino m c e" using assms(1) e by (auto simp: present_def pointers_ok_def)
  with e that(1) show ?thesis by blast
next
  case False
  then have "present fs ino m c 65535" using assms by (auto simp: present_def pointers_ok_def)
  with that(2) show ?thesis by blast
qed

lemma fs_read_ends:
  fixes n :: nat and h :: int
  assumes f: "f < 256" "bitmap_test fd_bm f m"
  defines "d \<equiv> get_fd m f" and "ino \<equiv> get_inode m (unat (inodeNum (get_fd m f)))"
  defines "pos \<equiv> cursor_pos d" and "n1 \<equiv> clamp_nbyte (fileSize ino) (int (cursor_pos d - lost d)) n"
  assumes n: "0 < n" and cur: "cursor_ok d" and ptrs: "pointers_ok (the_fs h) ino m"
    and fit: "pos + n1 \<le> 65535 * 1024"
  shows "\<exists>k m'. fs_read (Some (the_fs h)) (int f) True n m = Some (int k, file_bytes (the_fs h) ino m pos k, m') \<and>
    k \<le> n1 \<and> (k < n1 \<longrightarrow> file_block (the_fs h) ino m ((pos + k) div 1024) = 0)"
proof -
  let ?c = "unat (locate_order d)"
  have c: "?c = pos div 1024" unfolding pos_def by (rule cursor_split(1) [OF cur])
  have "?c < 65536" using unsigned_less [of "locate_order d", where 'a = nat] by simp
  with ptrs obtain e where e: "present (the_fs h) ino m ?c e" "stops (the_fs h) ino m pos n1 e"
    "pos + n1 \<le> e * 1024 \<or> file_block (the_fs h) ino m e = 0"
    by (cases rule: present_up_to) (use fit in \<open>auto simp: stops_def\<close>)
  define k where "k = min n1 (e * 1024 - pos)"
  have "file_block (the_fs h) ino m ((pos + k) div 1024) = 0" if "k < n1"
  proof -
    have k: "k = e * 1024 - pos" using that by (simp add: k_def)
    have "file_block (the_fs h) ino m e = 0" using e(3) that k by auto
    moreover have "(pos + k) div 1024 = e"
    proof (cases "pos \<le> e * 1024")
      case False
      then have "e * 1024 div 1024 \<le> pos div 1024" by (intro div_le_mono) simp
      then show ?thesis using e(1) c k False by (simp add: present_def)
    qed (use k in simp)
    ultimately show ?thesis by simp
  qed
  moreover have "\<exists>m'. fs_read (Some (the_fs h)) (int f) True n m = Some (int k, file_bytes (the_fs h) ino m pos k, m')"
    using fs_read_clamped [OF f n cur [unfolded d_def], of h e] e(1,2)
    unfolding d_def ino_def pos_def n1_def k_def by blast
  moreover have "k \<le> n1" by (simp add: k_def)
  ultimately show ?thesis by blast
qed

section \<open>A read across block 65535\<close>

text \<open>
  The locator of the blocks is a 16 bit integer. A read that goes on after block 65535 takes the blocks
  0 to 5 of the next round from the pointer block at hand, and then computes the index -1 into the double
  indirect block.
\<close>

lemma indirect_read_loop_all:
  "rs_index r \<le> 512 \<Longrightarrow> rs_offset r < 1024 \<Longrightarrow> (rs_index r = 512 \<longrightarrow> rs_offset r = 0) \<Longrightarrow>
    (512 - rs_index r) * 1024 < rs_nbyte r + rs_offset r \<Longrightarrow> \<not> rs_hole r \<Longrightarrow>
    \<forall>i. rs_index r \<le> i \<and> i < 512 \<longrightarrow> unat (ptrs ! i) \<noteq> 0 \<Longrightarrow> rs_locator r < 65536 \<Longrightarrow>
    (let r' = indirect_read_loop fs m ptrs r
     in \<not> rs_hole r' \<and> rs_nbyte r' \<noteq> 0 \<and> rs_locator r' = (rs_locator r + (512 - rs_index r)) mod 65536)"
proof (induction "512 - rs_index r" arbitrary: r)
  case 0
  then show ?case by (simp add: indirect_read_loop_cases(1) Let_def)
next
  case (Suc x)
  let ?s = "read_step fs m ptrs r"
  have i: "rs_index r < 512" using Suc.hyps(2) by simp
  then have "1 * 1024 \<le> (512 - rs_index r) * 1024" by (intro mult_le_mono1) simp
  then have n: "1024 - rs_offset r < rs_nbyte r" using Suc.prems(2,4) by linarith
  have s: "rs_index ?s = Suc (rs_index r)" "rs_offset ?s = 0" "\<not> rs_hole ?s"
    "rs_nbyte ?s = rs_nbyte r - (1024 - rs_offset r)" "rs_locator ?s = uint16_incr (rs_locator r)"
    using Suc.prems(2,5) n by (simp_all add: read_step_def Let_def blank_space_eq)
  have k: "512 - rs_index r = Suc (512 - rs_index ?s)" using i s(1) by simp
  have "let r' = indirect_read_loop fs m ptrs ?s
     in \<not> rs_hole r' \<and> rs_nbyte r' \<noteq> 0 \<and> rs_locator r' = (rs_locator ?s + (512 - rs_index ?s)) mod 65536"
  proof (rule Suc.hyps(1))
    show "x = 512 - rs_index ?s" "rs_index ?s \<le> 512" using Suc.hyps(2) k s(1) i by simp_all
    show "(512 - rs_index ?s) * 1024 < rs_nbyte ?s + rs_offset ?s" using Suc.prems(2,4) n unfolding k s(2,4) by simp
    show "\<forall>j. rs_index ?s \<le> j \<and> j < 512 \<longrightarrow> unat (ptrs ! j) \<noteq> 0" using Suc.prems(6) s(1) by simp
  qed (simp_all add: s(2,3,5) uint16_incr_def)
  moreover have "indirect_read_loop fs m ptrs r = indirect_read_loop fs m ptrs ?s"
    using i n Suc.prems(6) by (intro indirect_read_loop_cases(3)) simp_all
  moreover have "(uint16_incr (rs_locator r) + (512 - rs_index ?s)) mod 65536 = (rs_locator r + (512 - rs_index r)) mod 65536"
    unfolding k by (simp add: uint16_incr_def mod_add_left_eq)
  ultimately show ?case unfolding s(5) by simp
qed

lemma fs_read_wraps:
  fixes n :: nat and h :: int
  assumes f: "f < 256" "bitmap_test fd_bm f m"
  defines "d \<equiv> get_fd m f" and "ino \<equiv> get_inode m (unat (inodeNum (get_fd m f)))"
  assumes n: "0 < n" and c: "locate_order d = 65535" "cursor_ok d"
    and big: "7 * 1024 - unat (locate_offset d) < clamp_nbyte (fileSize ino) (getPreviosOffset d) n"
    and t: "file_table (the_fs h) ino m 65535 \<noteq> 0"
    and p: "\<forall>i. 505 \<le> i \<and> i < 512 \<longrightarrow> unat (read_ptrs (the_fs h) (file_table (the_fs h) ino m 65535) m ! i) \<noteq> 0"
  shows "fs_read (Some (the_fs h)) (int f) True n m = None"
proof -
  let ?fs = "the_fs h" and ?off = "unat (locate_offset d)"
  define n1 where "n1 = clamp_nbyte (fileSize ino) (getPreviosOffset d) n"
  define tb where "tb = file_table ?fs ino m 65535"
  have t0: "tb \<noteq> 0" using t by (simp add: tb_def)
  then have dd: "doubleIndirectPointer ino \<noteq> 0" by (auto simp: tb_def file_table_def)
  define r where "r = \<lparr>rs_index = indirect_index 65535, rs_locator = 65535, rs_offset = ?off, rs_nbyte = n1, rs_sum = 0,
    rs_dst = [], rs_hole = False\<rparr>"
  define r' where "r' = indirect_read_loop ?fs m (read_ptrs ?fs tb m) r"
  have i: "indirect_index 65535 = 505" by (simp add: indirect_index_nat)
  have off: "?off < 1024" using c(2) by (simp add: cursor_ok_def)
  have "let r' = indirect_read_loop ?fs m (read_ptrs ?fs tb m) r
     in \<not> rs_hole r' \<and> rs_nbyte r' \<noteq> 0 \<and> rs_locator r' = (rs_locator r + (512 - rs_index r)) mod 65536"
    using off big p by (intro indirect_read_loop_all) (simp_all add: r_def i n1_def tb_def)
  then have R: "\<not> rs_hole r'" "rs_nbyte r' \<noteq> 0" "rs_locator r' = 6" by (simp_all add: Let_def r'_def [symmetric]) (simp add: r_def i)
  have "double_read_target ?fs ino 6 m = None" using dd by (simp add: double_read_target_def double_index_def)
  then have "read_indirect_block ?fs ino 65535 ?off n1 tb m = None"
    using R t0 by (subst read_indirect_block.simps) (simp add: r_def [symmetric] r'_def [symmetric] Let_def)
  moreover have "unat (locate_order d) = 65535" using c(1) by simp
  ultimately have "read_at ?fs ino (unat (locate_order d)) ?off n1 m = None"
    using t0 by (simp add: read_at_def read_doubleDirect_block_def double_read_target_table tb_def)
  then show ?thesis using fs_read_at [OF f n, of h] by (simp add: d_def ino_def n1_def)
qed

section \<open>The number returned is the number of bytes stored\<close>

lemma blank_space_fits: "off < 1024 \<Longrightarrow> blank_space off n \<le> 1024 - off"
  by (simp add: blank_space_eq)

lemma indirect_read_loop_length:
  "length (rs_dst r) = rs_sum r \<Longrightarrow> rs_offset r < 1024 \<Longrightarrow>
   length (rs_dst (indirect_read_loop (the_fs h) m ptrs r)) = rs_sum (indirect_read_loop (the_fs h) m ptrs r) \<and>
   rs_offset (indirect_read_loop (the_fs h) m ptrs r) < 1024"
proof (induction "the_fs h" m ptrs r rule: indirect_read_loop.induct)
  case (1 m ptrs r)
  show ?case
  proof (cases "rs_index r < 512 \<and> 0 < rs_nbyte r \<and> unat (ptrs ! rs_index r) \<noteq> 0")
    case True
    note le = blank_space_fits [OF 1(3), of "rs_nbyte r"]
    show ?thesis
      by (subst (1 2 3) indirect_read_loop.simps)
        (use True 1(2,3) le 1(1) length_read_block [OF length_zero_block] in \<open>simp add: Let_def\<close>)
  next
    case False
    then show ?thesis
      using 1(2,3) by (subst (1 2 3) indirect_read_loop.simps) (auto simp: Let_def)
  qed
qed

lemma read_indirect_length:
  assumes "read_indirect_block fs ino b off n t m = Some x" and "fs = the_fs h" and "off < 1024"
  shows "length (snd x) = fst x"
proof -
  have "fs = the_fs h \<longrightarrow> off < 1024 \<longrightarrow> length (snd x) = fst x"
  proof (rule read_indirect_block.raw_induct
      [where P = "\<lambda>fs ino b off n t m x. fs = the_fs h \<longrightarrow> off < 1024 \<longrightarrow> length (snd x) = fst x", OF _ assms(1)],
      intro impI)
    fix rec :: "F19FS_t \<Rightarrow> inode_t \<Rightarrow> nat \<Rightarrow> nat \<Rightarrow> nat \<Rightarrow> nat \<Rightarrow> mem \<Rightarrow> (nat \<times> byte list) option"
      and fs :: F19FS_t and ino :: inode_t and b off n t :: nat and m :: mem and x :: "nat \<times> byte list"
    assume IH: "\<And>fs (ino :: inode_t) (b :: nat) off (n :: nat) (t :: nat) (m :: mem) y. rec fs ino b off n t m = Some y \<Longrightarrow>
        fs = the_fs h \<longrightarrow> off < 1024 \<longrightarrow> length (snd y) = fst y"
      and fs: "fs = the_fs h" and off: "off < 1024"
    let ?s = "\<lparr>rs_index = indirect_index b, rs_locator = b, rs_offset = off, rs_nbyte = n, rs_sum = 0,
        rs_dst = [], rs_hole = False\<rparr>"
    define r where "r = indirect_read_loop fs m (read_ptrs fs t m) ?s"
    have r: "length (rs_dst r) = rs_sum r" "rs_offset r < 1024"
      using indirect_read_loop_length [of ?s h m "read_ptrs fs t m"] off by (simp_all add: r_def fs)
    assume "(if t = 0 then Some (0, [])
      else (let r = indirect_read_loop fs m (read_ptrs fs t m) ?s
         in if rs_hole r \<or> rs_nbyte r = 0 then Some (rs_sum r, rs_dst r)
            else Option.bind (double_read_target fs ino (rs_locator r) m) (\<lambda>target.
               if target = 0 then Some (rs_sum r, rs_dst r)
               else Option.bind (rec fs ino (rs_locator r) (rs_offset r) (rs_nbyte r) target m)
                      (\<lambda>(sum, dst). Some (rs_sum r + sum, rs_dst r @ dst))))) = Some x"
    then show "length (snd x) = fst x"
      unfolding r_def [symmetric] Let_def
      using r IH [of fs ino "rs_locator r" "rs_offset r" "rs_nbyte r"] fs
      by (auto split: if_splits bind_splits)
  qed
  with assms(2,3) show ?thesis by simp
qed

lemma read_direct_length:
  "read_direct_block (the_fs h) ino b off n m = Some x \<Longrightarrow> off < 1024 \<Longrightarrow> length (snd x) = fst x"
proof (induction "the_fs h" ino b off n m arbitrary: x rule: read_direct_block.induct)
  case (1 ino b off n m)
  note le = blank_space_fits [OF 1(3), of n]
  show ?case
    using 1(2) le 1(1) read_indirect_length [of "the_fs h" ino "b + 1" 0] 1(3)
    by (subst (asm) read_direct_block.simps)
      (auto simp: Let_def length_read_block [OF length_zero_block] split: if_splits)
qed

lemma read_at_length: "read_at (the_fs h) ino b off n m = Some x \<Longrightarrow> off < 1024 \<Longrightarrow> length (snd x) = fst x"
  using read_direct_length read_indirect_length [of "the_fs h" ino b off n _ m x h]
  by (fastforce simp: read_at_def read_doubleDirect_block_def split: if_splits option.splits)

end
