(* ===== verification/FS_Overwrite.thy ===== *)
theory FS_Overwrite
  imports FS_Read
begin

text \<open>
  The transfer of \<^verbatim>\<open>fs_write\<close> into blocks that exist, up to the double indirect ones: it is the
  block-by-block \<open>overwrite\<close> of the mapped blocks.
\<close>

unbundle bit_operations_syntax

section \<open>Overwriting mapped blocks\<close>

text \<open>
  The reference for a write into blocks that exist: block by block, from the cursor on, \<open>F\<close> being
  the block map of the file.
\<close>

function overwrite :: "(nat \<Rightarrow> nat) \<Rightarrow> nat \<Rightarrow> nat \<Rightarrow> (nat \<Rightarrow> byte) \<Rightarrow> nat \<Rightarrow> mem \<Rightarrow> mem" where
  "overwrite F b off src n m =
     (if n = 0 \<or> 1024 \<le> off then m
      else (let k = min (1024 - off) n in
            overwrite F (Suc b) 0 (src_advance src k) (n - k)
              (put_block (F b) (buf_write (get_block m (F b)) off (src_bytes src k)) m)))"
  by pat_completeness auto
termination by (relation "measure (\<lambda>(F, b, off, src, n, m). n)") auto

declare overwrite.simps [simp del]

lemma overwrite_0 [simp]: "overwrite F b off src 0 m = m"
  by (simp add: overwrite.simps)

lemma overwrite_step:
  "0 < n \<Longrightarrow> off < 1024 \<Longrightarrow> k = min (1024 - off) n \<Longrightarrow> overwrite F b off src n m =
    overwrite F (Suc b) 0 (src_advance src k) (n - k)
      (put_block (F b) (buf_write (get_block m (F b)) off (src_bytes src k)) m)"
  by (subst overwrite.simps) (simp add: Let_def)

lemma src_advance_add: "src_advance (src_advance src a) b = src_advance src (a + b)"
  by (simp add: src_advance_def add.assoc)

lemma src_advance_0 [simp]: "src_advance src 0 = src"
  by (simp add: src_advance_def)

lemma length_src_bytes [simp]: "length (src_bytes src n) = n"
  by (simp add: src_bytes_def)

lemma overwrite_split:
  "off < 1024 \<Longrightarrow> b * 1024 + off + k1 = b' * 1024 \<Longrightarrow>
    overwrite F b off src (k1 + k2) m = overwrite F b' 0 (src_advance src k1) k2 (overwrite F b off src k1 m)"
proof (induction k1 arbitrary: b off src m rule: less_induct)
  case (less k1)
  show ?case
  proof (cases "k1 = 0")
    case True
    with less.prems have eq: "b * 1024 + off = b' * 1024" by simp
    have "off = (b * 1024 + off) mod 1024" using less.prems(1) by simp
    also have "\<dots> = 0" unfolding eq by simp
    finally have "off = 0" .
    with eq True show ?thesis by simp
  next
    case False
    then have "b * 1024 < b' * 1024" using less.prems by simp
    then have "Suc b * 1024 \<le> b' * 1024" by simp
    then have k: "1024 - off \<le> k1" using less.prems by simp
    let ?s = "1024 - off"
    let ?m = "put_block (F b) (buf_write (get_block m (F b)) off (src_bytes src ?s)) m"
    have "overwrite F b off src (k1 + k2) m = overwrite F (Suc b) 0 (src_advance src ?s) (k1 + k2 - ?s) ?m"
      using False less.prems(1) k by (intro overwrite_step) simp_all
    also have "k1 + k2 - ?s = (k1 - ?s) + k2" using k by simp
    also have "overwrite F (Suc b) 0 (src_advance src ?s) ((k1 - ?s) + k2) ?m =
        overwrite F b' 0 (src_advance (src_advance src ?s) (k1 - ?s)) k2
          (overwrite F (Suc b) 0 (src_advance src ?s) (k1 - ?s) ?m)"
      using False less.prems k by (intro less.IH) simp_all
    also have "overwrite F (Suc b) 0 (src_advance src ?s) (k1 - ?s) ?m = overwrite F b off src k1 m"
      using False less.prems(1) k by (intro overwrite_step [symmetric]) simp_all
    also have "src_advance (src_advance src ?s) (k1 - ?s) = src_advance src k1"
      using k by (simp add: src_advance_add)
    finally show ?thesis .
  qed
qed

text \<open>What it does to the blocks: those of the map that the range covers, and no other.\<close>

lemma overwrite_other_block:
  "off < 1024 \<Longrightarrow> b * 1024 + off + n \<le> e * 1024 \<Longrightarrow> (\<forall>i. b \<le> i \<and> i < e \<longrightarrow> F i \<noteq> j) \<Longrightarrow>
    get_block (overwrite F b off src n m) j = get_block m j"
proof (induction n arbitrary: b off src m rule: less_induct)
  case (less n)
  show ?case
  proof (cases "n = 0")
    case False
    let ?k = "min (1024 - off) n"
    let ?m = "put_block (F b) (buf_write (get_block m (F b)) off (src_bytes src ?k)) m"
    have be: "b < e"
    proof (rule ccontr)
      assume "\<not> b < e"
      then have "e * 1024 \<le> b * 1024" by simp
      with less.prems(2) False show False by simp
    qed
    have len: "length (buf_write (get_block m (F b)) off (src_bytes src ?k)) = 1024" using less.prems(1) by simp
    have "get_block (overwrite F (Suc b) 0 (src_advance src ?k) (n - ?k) ?m) j = get_block ?m j"
    proof (rule less.IH)
      show "n - ?k < n" using False less.prems(1) by simp
      show "Suc b * 1024 + 0 + (n - ?k) \<le> e * 1024"
      proof (cases "n \<le> 1024 - off")
        case True
        have "Suc b * 1024 \<le> e * 1024" using be by simp
        with True show ?thesis by simp
      next
        case False
        with less.prems show ?thesis by simp
      qed
    qed (use less.prems(3) in auto)
    moreover have "get_block ?m j = get_block m j" using get_put_block [OF len] less.prems(3) be by auto
    ultimately show ?thesis using overwrite_step [OF _ less.prems(1) refl, of n] False by simp
  qed simp
qed

lemma overwrite_objects: "ob \<noteq> Image \<Longrightarrow> overwrite F b off src n m ob = m ob"
proof (induction n arbitrary: b off src m rule: less_induct)
  case (less n)
  show ?case
  proof (cases "n = 0 \<or> 1024 \<le> off")
    case True
    then show ?thesis by (subst overwrite.simps) simp
  next
    case False
    then have "n - min (1024 - off) n < n" by simp
    from less.IH [OF this less.prems] False show ?thesis
      using less.prems by (subst overwrite_step [OF _ _ refl]) (simp_all add: put_block_def mwrite_def)
  qed
qed

lemma overwrite_bytes:
  "off < 1024 \<Longrightarrow> b * 1024 + off + n \<le> e * 1024 \<Longrightarrow> inj_on F {b..<e} \<Longrightarrow> b * 1024 \<le> p \<Longrightarrow> p < e * 1024 \<Longrightarrow>
    get_block (overwrite F b off src n m) (F (p div 1024)) ! (p mod 1024) =
    (if b * 1024 + off \<le> p \<and> p < b * 1024 + off + n then src (p - (b * 1024 + off))
     else get_block m (F (p div 1024)) ! (p mod 1024))"
proof (induction n arbitrary: b off src m rule: less_induct)
  case (less n)
  show ?case
  proof (cases "n = 0")
    case True
    then have "\<not> (b * 1024 + off \<le> p \<and> p < b * 1024 + off + n)" by simp
    then show ?thesis unfolding True overwrite_0 by (rule if_not_P [symmetric])
  next
    case False
    let ?k = "min (1024 - off) n"
    let ?buf = "buf_write (get_block m (F b)) off (src_bytes src ?k)"
    let ?m = "put_block (F b) ?buf m"
    have be: "b < e"
    proof (rule ccontr)
      assume "\<not> b < e"
      then have "e * 1024 \<le> b * 1024" by simp
      with less.prems(2) False show False by simp
    qed
    have len: "length ?buf = 1024" using less.prems(1) by simp
    have st: "overwrite F b off src n m = overwrite F (Suc b) 0 (src_advance src ?k) (n - ?k) ?m"
      using overwrite_step [OF _ less.prems(1) refl, of n] False by simp
    have rest: "Suc b * 1024 + 0 + (n - ?k) \<le> e * 1024"
    proof (cases "n \<le> 1024 - off")
      case True
      have "Suc b * 1024 \<le> e * 1024" using be by simp
      with True show ?thesis by simp
    next
      case False
      with less.prems show ?thesis by simp
    qed
    have inj: "inj_on F {Suc b..<e}" using less.prems(3) by (rule inj_on_subset) auto
    show ?thesis
    proof (cases "p < Suc b * 1024")
      case True
      then have pd1: "p div 1024 = b" using less.prems(4) by (simp add: div_nat_eqI)
      then have pd: "p div 1024 = b" "p mod 1024 = p - b * 1024" by (simp_all add: modulo_nat_def)
      have "get_block (overwrite F (Suc b) 0 (src_advance src ?k) (n - ?k) ?m) (F b) = get_block ?m (F b)"
      proof (rule overwrite_other_block [OF _ rest])
        show "\<forall>i. Suc b \<le> i \<and> i < e \<longrightarrow> F i \<noteq> F b"
          using less.prems(3) be by (metis Suc_le_eq atLeastLessThan_iff inj_on_contraD less_imp_le nat_less_le order_refl)
      qed simp
      then have "get_block (overwrite F b off src n m) (F b) = ?buf" using get_put_block [OF len] by (simp add: st)
      then show ?thesis
        using True less.prems(1,4) unfolding pd by (auto simp: nth_buf_write src_bytes_def min_def)
    next
      case after: False
      then have pge: "Suc b * 1024 \<le> p" by simp
      have lt: "n - ?k < n" using False less.prems(1) by simp
      have other: "get_block ?m (F (p div 1024)) = get_block m (F (p div 1024))"
      proof -
        have "b < p div 1024" "p div 1024 < e" using pge less.prems(5) by (simp_all add: less_eq_div_iff_mult_less_eq Suc_le_eq [symmetric] div_less_iff_less_mult)
        then have "F (p div 1024) \<noteq> F b" using less.prems(3) be by (metis atLeastLessThan_iff inj_on_contraD less_imp_le nat_less_le order_refl)
        then show ?thesis using get_put_block [OF len] by auto
      qed
      have IH: "get_block (overwrite F (Suc b) 0 (src_advance src ?k) (n - ?k) ?m) (F (p div 1024)) ! (p mod 1024) =
        (if Suc b * 1024 + 0 \<le> p \<and> p < Suc b * 1024 + 0 + (n - ?k)
         then src_advance src ?k (p - (Suc b * 1024 + 0)) else get_block ?m (F (p div 1024)) ! (p mod 1024))"
        using less.IH [OF lt _ rest inj pge less.prems(5), of "src_advance src ?k" ?m] by simp
      show ?thesis
      proof (cases "n \<le> 1024 - off")
        case True
        then have out: "\<not> (b * 1024 + off \<le> p \<and> p < b * 1024 + off + n)" using pge less.prems(1) by (simp add: not_le not_less)
        from True have "n - ?k = 0" by simp
        with IH have "get_block (overwrite F b off src n m) (F (p div 1024)) ! (p mod 1024) =
            get_block ?m (F (p div 1024)) ! (p mod 1024)" unfolding st by simp
        then show ?thesis unfolding other if_not_P [OF out] .
      next
        case big: False
        then have k: "?k = 1024 - off" by simp
        have "src_advance src ?k (p - Suc b * 1024) = src (p - (b * 1024 + off))"
        proof -
          have "?k + (p - Suc b * 1024) = p - (b * 1024 + off)" using k pge less.prems(1) by simp
          then show ?thesis by (simp add: src_advance_def)
        qed
        moreover have "Suc b * 1024 + (n - ?k) = b * 1024 + off + n" using k big less.prems(1) by simp
        ultimately show ?thesis using IH pge other less.prems(1) unfolding st by simp
      qed
    qed
  qed
qed

section \<open>The write functions on mapped blocks\<close>

text \<open>
  \<open>mapped\<close>: the blocks from \<open>b\<close> up to \<open>e\<close> exist, are different data blocks, and none of them is
  one of the file's pointer blocks.
\<close>

definition file_tables :: "F19FS_t \<Rightarrow> inode_t \<Rightarrow> mem \<Rightarrow> nat \<Rightarrow> nat set" where
  "file_tables fs ino m e =
     {unat (indirectPointer ino), unat (doubleIndirectPointer ino)} \<union> file_table fs ino m ` {518..<e}"

definition mapped :: "F19FS_t \<Rightarrow> inode_t \<Rightarrow> mem \<Rightarrow> nat \<Rightarrow> nat \<Rightarrow> bool" where
  "mapped fs ino m b e \<longleftrightarrow> b \<le> e \<and> e < 65536 \<and> inj_on (file_block fs ino m) {b..<e} \<and>
     (\<forall>i. b \<le> i \<and> i < e \<longrightarrow> 17 \<le> file_block fs ino m i \<and> file_block fs ino m i < 65528 \<and>
        file_block fs ino m i \<notin> file_tables fs ino m e) \<and>
     (\<forall>t \<in> file_tables fs ino m e. t \<le> 65528)"

definition same_tables :: "F19FS_t \<Rightarrow> inode_t \<Rightarrow> mem \<Rightarrow> nat \<Rightarrow> mem \<Rightarrow> bool" where
  "same_tables fs ino m e m' \<longleftrightarrow> (\<forall>t \<in> file_tables fs ino m e. get_block m' t = get_block m t)"

lemma read_ptrs_same: "get_block m' t = get_block m t \<Longrightarrow> t \<le> 65528 \<Longrightarrow>
    read_ptrs (the_fs h) t m' = read_ptrs (the_fs h) t m"
  by (simp add: read_ptrs_def)

lemma same_tables_block:
  assumes "mapped (the_fs h) ino m b e" and "same_tables (the_fs h) ino m e m'" and "i < e"
  shows "file_table (the_fs h) ino m' i = file_table (the_fs h) ino m i"
    and "file_block (the_fs h) ino m' i = file_block (the_fs h) ino m i"
proof -
  let ?fs = "the_fs h"
  have tab: "t \<in> file_tables ?fs ino m e \<Longrightarrow> read_ptrs ?fs t m' = read_ptrs ?fs t m" for t
    using assms(1,2) by (intro read_ptrs_same) (auto simp: mapped_def same_tables_def)
  have d: "read_ptrs ?fs (unat (doubleIndirectPointer ino)) m' = read_ptrs ?fs (unat (doubleIndirectPointer ino)) m"
    by (rule tab) (simp add: file_tables_def)
  then show t: "file_table ?fs ino m' i = file_table ?fs ino m i" by (simp add: file_table_def)
  have "file_table ?fs ino m i \<in> file_tables ?fs ino m e"
    using assms(3) by (cases "i < 518") (auto simp: file_tables_def file_table_def)
  then show "file_block ?fs ino m' i = file_block ?fs ino m i" using tab by (simp add: file_block_def t)
qed

lemma write_ptrs_read_ptrs: "t \<le> 65528 \<Longrightarrow> write_ptrs (the_fs h) t (read_ptrs (the_fs h) t m) m = m"
  by (simp add: write_ptrs_def read_ptrs_def codec_simps put_block_def get_block_def)

lemma same_tables_overwrite:
  assumes "mapped (the_fs h) ino m b e" and "off < 1024" and "b \<le> c" and "c * 1024 + off + n \<le> e * 1024"
    and "same_tables (the_fs h) ino m e m'"
  shows "same_tables (the_fs h) ino m e (overwrite (file_block (the_fs h) ino m) c off src n m')"
  unfolding same_tables_def
proof
  fix t assume t: "t \<in> file_tables (the_fs h) ino m e"
  have "get_block (overwrite (file_block (the_fs h) ino m) c off src n m') t = get_block m' t"
    using assms(1-4) t by (intro overwrite_other_block) (auto simp: mapped_def)
  with assms(5) t show "get_block (overwrite (file_block (the_fs h) ino m) c off src n m') t = get_block m t"
    by (simp add: same_tables_def)
qed

text \<open>The loop over one indirect block.\<close>

definition write_step :: "F19FS_t \<Rightarrow> write_state \<Rightarrow> write_state" where
  "write_step fs w = indirect_store fs (unat (ws_ptrs w ! ws_index w)) w"

lemma indirect_write_loop_cases:
  "\<not> (ws_index w < 512 \<and> ws_nbyte w > 0) \<Longrightarrow> indirect_write_loop fs w = w"
  "ws_index w < 512 \<Longrightarrow> ws_nbyte w > 0 \<Longrightarrow> ws_ptrs w ! ws_index w \<noteq> 0 \<Longrightarrow> \<not> ws_full w \<Longrightarrow>
    indirect_write_loop fs w = indirect_write_loop fs (write_step fs w)"
proof -
  show "\<not> (ws_index w < 512 \<and> ws_nbyte w > 0) \<Longrightarrow> indirect_write_loop fs w = w"
    by (subst indirect_write_loop.simps) (rule if_not_P)
  assume "ws_index w < 512" "ws_nbyte w > 0" "ws_ptrs w ! ws_index w \<noteq> 0" "\<not> ws_full w"
  then show "indirect_write_loop fs w = indirect_write_loop fs (write_step fs w)"
    by (subst indirect_write_loop.simps) (simp add: Let_def indirect_target_def write_step_def)
qed

lemma indirect_write_loop_spec:
  fixes h :: int
  assumes F: "\<forall>i<512. b \<le> c0 + i \<and> c0 + i < e \<longrightarrow> F (c0 + i) = unat (ptrs ! i) \<and> 17 \<le> F (c0 + i) \<and> F (c0 + i) < 65528"
    and e: "e < 65536"
  shows "ws_locator w = c0 + ws_index w \<Longrightarrow> b \<le> ws_locator w \<Longrightarrow> ws_index w \<le> 512 \<Longrightarrow> ws_offset w < 1024 \<Longrightarrow>
    (ws_index w = 512 \<Longrightarrow> ws_offset w = 0) \<Longrightarrow> ws_ptrs w = ptrs \<Longrightarrow> \<not> ws_full w \<Longrightarrow>
    ws_locator w * 1024 + ws_offset w + ws_nbyte w \<le> e * 1024 \<Longrightarrow>
    (let w' = indirect_write_loop (the_fs h) w;
         k = min (ws_nbyte w) ((c0 + 512) * 1024 - (ws_locator w * 1024 + ws_offset w))
     in ws_sum w' = ws_sum w + k \<and> ws_nbyte w' = ws_nbyte w - k \<and> ws_ptrs w' = ptrs \<and> \<not> ws_full w' \<and>
        ws_src w' = src_advance (ws_src w) k \<and>
        ws_mem w' = overwrite F (ws_locator w) (ws_offset w) (ws_src w) k (ws_mem w) \<and>
        (ws_nbyte w' \<noteq> 0 \<longrightarrow> ws_locator w' = c0 + 512 \<and> ws_offset w' = 0))"
proof (induction "512 - ws_index w" arbitrary: w)
  case 0
  then have "ws_index w = 512" by simp
  with 0 show ?case by (simp add: indirect_write_loop_cases(1) Let_def)
next
  case (Suc x)
  then have i: "ws_index w < 512" by simp
  let ?c = "ws_locator w" and ?n = "ws_nbyte w" and ?off = "ws_offset w"
  show ?case
  proof (cases "?n = 0")
    case True
    then show ?thesis using Suc.prems by (simp add: indirect_write_loop_cases(1) Let_def)
  next
    case n: False
    then have n0: "0 < ?n" by simp
    have c: "?c < e"
    proof (rule ccontr)
      assume "\<not> ?c < e"
      then have "e * 1024 \<le> ?c * 1024" by simp
      with Suc.prems(8) n show False by simp
    qed
    then have Fi: "F ?c = unat (ptrs ! ws_index w)" "17 \<le> F ?c" "F ?c < 65528" using F i Suc.prems(1,2) by auto
    then have ne: "ws_ptrs w ! ws_index w \<noteq> 0" using Suc.prems(6) by auto
    let ?s = "write_step (the_fs h) w"
    define k1 where "k1 = min (1024 - ?off) ?n"
    have bs: "blank_space ?off ?n = k1" using Suc.prems(4) by (simp add: blank_space_eq k1_def)
    have incr: "uint16_incr ?c = Suc ?c" using c e by (simp add: uint16_incr_def)
    let ?m = "put_block (F ?c) (buf_write (get_block (ws_mem w) (F ?c)) ?off (src_bytes (ws_src w) k1)) (ws_mem w)"
    have s: "ws_index ?s = Suc (ws_index w)" "ws_locator ?s = Suc ?c" "ws_offset ?s = 0" "ws_nbyte ?s = ?n - k1"
      "ws_sum ?s = ws_sum w + k1" "\<not> ws_full ?s" "ws_ptrs ?s = ptrs" "ws_src ?s = src_advance (ws_src w) k1"
      "ws_mem ?s = ?m"
      using Fi Suc.prems(6,7) by (simp_all add: write_step_def indirect_store_def Let_def bs incr)
    have lim: "Suc ?c * 1024 \<le> (c0 + 512) * 1024" using Suc.prems(1) i by simp
    have fit: "Suc ?c * 1024 + 0 + (?n - k1) \<le> e * 1024"
    proof (cases "?n \<le> 1024 - ?off")
      case True
      have "Suc ?c * 1024 \<le> e * 1024" using c by simp
      with True show ?thesis by (simp add: k1_def)
    next
      case False
      with Suc.prems(4,8) show ?thesis by (simp add: k1_def)
    qed
    define w' where "w' = indirect_write_loop (the_fs h) ?s"
    define k2 where "k2 = min (?n - k1) ((c0 + 512) * 1024 - (Suc ?c * 1024 + 0))"
    have "let w' = indirect_write_loop (the_fs h) ?s;
         k = min (ws_nbyte ?s) ((c0 + 512) * 1024 - (ws_locator ?s * 1024 + ws_offset ?s))
     in ws_sum w' = ws_sum ?s + k \<and> ws_nbyte w' = ws_nbyte ?s - k \<and> ws_ptrs w' = ptrs \<and> \<not> ws_full w' \<and>
        ws_src w' = src_advance (ws_src ?s) k \<and>
        ws_mem w' = overwrite F (ws_locator ?s) (ws_offset ?s) (ws_src ?s) k (ws_mem ?s) \<and>
        (ws_nbyte w' \<noteq> 0 \<longrightarrow> ws_locator w' = c0 + 512 \<and> ws_offset w' = 0)"
      using Suc.hyps(2) Suc.prems i fit by (intro Suc.hyps(1)) (simp_all add: s)
    then have IH: "ws_sum w' = ws_sum w + k1 + k2" "ws_nbyte w' = ?n - k1 - k2" "ws_ptrs w' = ptrs" "\<not> ws_full w'"
      "ws_src w' = src_advance (src_advance (ws_src w) k1) k2"
      "ws_mem w' = overwrite F (Suc ?c) 0 (src_advance (ws_src w) k1) k2 ?m"
      "ws_nbyte w' \<noteq> 0 \<longrightarrow> ws_locator w' = c0 + 512 \<and> ws_offset w' = 0"
      unfolding Let_def s w'_def [symmetric] k2_def [symmetric] by auto
    have loop: "indirect_write_loop (the_fs h) w = w'"
      unfolding w'_def using i n0 ne Suc.prems(7) by (intro indirect_write_loop_cases(2))
    have k: "min ?n ((c0 + 512) * 1024 - (?c * 1024 + ?off)) = k1 + k2"
      using lim Suc.prems(4) unfolding k1_def k2_def by (auto simp: min_def)
    have k1': "0 < k1 + k2" "k1 = min (1024 - ?off) (k1 + k2)"
      using n0 Suc.prems(4) lim by (auto simp: k1_def k2_def min_def)
    have "overwrite F ?c ?off (ws_src w) (k1 + k2) (ws_mem w) = overwrite F (Suc ?c) 0 (src_advance (ws_src w) k1) k2 ?m"
      using overwrite_step [OF k1'(1) Suc.prems(4) k1'(2)] by simp
    then show ?thesis
      unfolding loop Let_def k using IH by (simp add: src_advance_add diff_diff_left)
  qed
qed

lemma mapped_block:
  assumes "mapped fs ino m b e" and "b \<le> i" and "i < e"
  shows "17 \<le> file_block fs ino m i" "file_block fs ino m i < 65528" "6 \<le> i \<Longrightarrow> file_table fs ino m i \<noteq> 0"
    "6 \<le> i \<Longrightarrow> file_table fs ino m i \<in> file_tables fs ino m e" "i < 518 \<Longrightarrow> 6 \<le> i \<Longrightarrow> indirectPointer ino \<noteq> 0"
    "518 \<le> i \<Longrightarrow> doubleIndirectPointer ino \<noteq> 0"
proof -
  show F: "17 \<le> file_block fs ino m i" "file_block fs ino m i < 65528" using assms by (simp_all add: mapped_def)
  then show t: "6 \<le> i \<Longrightarrow> file_table fs ino m i \<noteq> 0"
    by (cases "file_table fs ino m i = 0") (simp_all add: file_block_def)
  show "6 \<le> i \<Longrightarrow> file_table fs ino m i \<in> file_tables fs ino m e"
    using assms(3) by (cases "i < 518") (auto simp: file_tables_def file_table_def)
  show "i < 518 \<Longrightarrow> 6 \<le> i \<Longrightarrow> indirectPointer ino \<noteq> 0" "518 \<le> i \<Longrightarrow> doubleIndirectPointer ino \<noteq> 0"
    using t by (auto simp: file_table_def)
qed

lemma double_direct_target_mapped:
  fixes h :: int
  assumes "mapped (the_fs h) ino m b e" and "same_tables (the_fs h) ino m e m'" and "b \<le> i" "i < e" "518 \<le> i"
  shows "double_direct_target (the_fs h) ino i m' = Some (Some (file_table (the_fs h) ino m i), ino, m')"
proof -
  note blk = mapped_block [OF assms(1,3,4)]
  have t: "file_table (the_fs h) ino m' i = file_table (the_fs h) ino m i"
    by (rule same_tables_block(1) [OF assms(1,2,4)])
  have d: "doubleIndirectPointer ino \<noteq> 0" using blk(6) assms(5) by blast
  have "file_table (the_fs h) ino m' i \<noteq> 0" using blk(3) assms(5) t by simp
  then have "read_ptrs (the_fs h) (unat (doubleIndirectPointer ino)) m' ! ((i - 518) div 512) \<noteq> 0"
    using assms(5) d by (auto simp: file_table_def)
  moreover have "unat (doubleIndirectPointer ino) \<noteq> SIZE_MAX"
    using unsigned_less [of "doubleIndirectPointer ino", where 'a = nat] by simp
  ultimately show ?thesis
    using d assms(5) t by (simp add: double_direct_target_def Let_def double_index_nat file_table_def)
qed

lemma write_indirect_spec:
  fixes h :: int
  assumes M: "mapped (the_fs h) ino m0 b e"
  defines "F \<equiv> file_block (the_fs h) ino m0"
  shows "6 \<le> c \<Longrightarrow> b \<le> c \<Longrightarrow> off < 1024 \<Longrightarrow> 0 < n \<Longrightarrow> c * 1024 + off + n \<le> e * 1024 \<Longrightarrow>
    same_tables (the_fs h) ino m0 e m \<Longrightarrow>
    write_indirect_block (the_fs h) ino c off src n (file_table (the_fs h) ino m0 c) m =
      Some (n, ino, overwrite F c off src n m)"
proof (induction n arbitrary: c off src m rule: less_induct)
  case (less n)
  let ?fs = "the_fs h"
  obtain q i where c: "c = 6 + 512 * q + i" and i: "i < 512" using split_block [OF less.prems(1)] by blast
  define c0 where "c0 = 6 + 512 * q"
  have cc: "c = c0 + i" by (simp add: c c0_def)
  have ce: "c < e"
  proof (rule ccontr)
    assume "\<not> c < e"
    then have "e * 1024 \<le> c * 1024" by simp
    with less.prems(4,5) show False by simp
  qed
  note blk = mapped_block [OF M less.prems(2) ce]
  define t where "t = file_table ?fs ino m0 c"
  have t0: "t \<noteq> 0" "t \<in> file_tables ?fs ino m0 e" using blk(3,4) less.prems(1) by (simp_all add: t_def)
  then have tb: "t \<le> 65528" using M by (simp add: mapped_def)
  have tq: "file_table ?fs ino m0 (6 + 512 * q) = t" unfolding t_def c by (rule table_blocks(1) [OF i, symmetric])
  define ptrs where "ptrs = read_ptrs ?fs t m"
  have ptrs: "ptrs = read_ptrs ?fs t m0"
    unfolding ptrs_def using less.prems(6) t0 tb by (intro read_ptrs_same) (auto simp: same_tables_def)
  have Fj: "F (c0 + j) = unat (ptrs ! j)" if "j < 512" for j
    using table_blocks(2) [OF that, of ?fs ino m0 q] t0 by (simp add: F_def c0_def tq ptrs)
  define w where "w = indirect_write_start ?fs c off src n t m"
  define w' where "w' = indirect_write_loop ?fs w"
  define L where "L = c0 + 512"
  define k where "k = min n (L * 1024 - (c * 1024 + off))"
  have idx: "indirect_index c = i" using i by (simp add: indirect_index_nat c)
  have w: "ws_locator w = c" "ws_index w = i" "ws_offset w = off" "ws_src w = src" "ws_nbyte w = n" "ws_sum w = 0"
    "\<not> ws_full w" "ws_mem w = m" "ws_ptrs w = ptrs"
    by (simp_all add: w_def indirect_write_start_def idx ptrs_def)
  have e: "e < 65536" using M by (simp add: mapped_def)
  have "\<forall>j<512. b \<le> c0 + j \<and> c0 + j < e \<longrightarrow> F (c0 + j) = unat (ptrs ! j) \<and> 17 \<le> F (c0 + j) \<and> F (c0 + j) < 65528"
    using Fj M by (auto simp: F_def mapped_def)
  from indirect_write_loop_spec [OF this e, of w h]
  have W: "ws_sum w' = k" "ws_nbyte w' = n - k" "ws_ptrs w' = ptrs" "\<not> ws_full w'" "ws_src w' = src_advance src k"
    "ws_mem w' = overwrite F c off src k m" "ws_nbyte w' \<noteq> 0 \<Longrightarrow> ws_locator w' = L \<and> ws_offset w' = 0"
    using less.prems i cc w(7) unfolding Let_def w w'_def [symmetric] L_def [symmetric] k_def [symmetric] by auto
  have kn: "c * 1024 + off + k \<le> e * 1024" using less.prems(5) by (simp add: k_def)
  have same: "same_tables ?fs ino m0 e (overwrite F c off src k m)"
    unfolding F_def by (rule same_tables_overwrite [OF M less.prems(3,2) kn less.prems(6)])
  have "ptrs = read_ptrs ?fs t (ws_mem w')"
    unfolding ptrs W(6) using same t0(2) tb by (intro read_ptrs_same [symmetric]) (auto simp: same_tables_def)
  then have stored: "write_ptrs ?fs t (ws_ptrs w') (ws_mem w') = overwrite F c off src k m"
    using write_ptrs_read_ptrs [OF tb] W(3,6) by metis
  show ?case
  proof (cases "n - k = 0")
    case True
    then have "k = n" by (simp add: k_def)
    then show ?thesis
      using W stored True by (subst write_indirect_block.simps) (simp add: w_def [symmetric] w'_def [symmetric] t_def [symmetric])
  next
    case False
    then have kL: "c * 1024 + off + k = L * 1024" "k < n" "0 < k"
    proof -
      have "c * 1024 + off < L * 1024" using i less.prems(3) by (simp add: cc L_def)
      with False show "c * 1024 + off + k = L * 1024" "k < n" "0 < k" by (auto simp: k_def min_def split: if_splits)
    qed
    have loc: "ws_locator w' = L" "ws_offset w' = 0" using W(2,7) False by auto
    have fit: "L * 1024 + 0 + (n - k) \<le> e * 1024" using less.prems(5) kL by simp
    have Le: "L < e"
    proof (rule ccontr)
      assume "\<not> L < e"
      then have "e * 1024 \<le> L * 1024" by simp
      with fit False show False by simp
    qed
    have bL: "b \<le> L" "518 \<le> L" "6 \<le> L" using less.prems(2) i by (simp_all add: cc L_def c0_def)
    have tgt: "double_direct_target ?fs ino L (overwrite F c off src k m) =
        Some (Some (file_table ?fs ino m0 L), ino, overwrite F c off src k m)"
      by (rule double_direct_target_mapped [OF M same bL(1) Le bL(2)])
    have IH: "write_indirect_block ?fs ino L 0 (src_advance src k) (n - k) (file_table ?fs ino m0 L)
        (overwrite F c off src k m) =
        Some (n - k, ino, overwrite F L 0 (src_advance src k) (n - k) (overwrite F c off src k m))"
      using kL False fit bL same by (intro less.IH) simp_all
    have "overwrite F L 0 (src_advance src k) (n - k) (overwrite F c off src k m) = overwrite F c off src n m"
      using overwrite_split [OF less.prems(3) kL(1), of F src "n - k" m] kL(2) by simp
    then show ?thesis
      using False W stored loc tgt IH kL(2)
      by (subst write_indirect_block.simps) (simp add: w_def [symmetric] w'_def [symmetric] t_def [symmetric] Let_def)
  qed
qed

text \<open>The three starting points of \<^verbatim>\<open>fs_write\<close> for a file whose pointer blocks exist.\<close>

definition write_at ::
    "F19FS_t \<Rightarrow> inode_t \<Rightarrow> nat \<Rightarrow> nat \<Rightarrow> (nat \<Rightarrow> byte) \<Rightarrow> nat \<Rightarrow> mem \<Rightarrow> (nat \<times> inode_t \<times> mem) option" where
  "write_at fs ino b off src n m =
     (if b < 6 then write_direct_block fs ino b off src n m
      else if b < 518 then write_indirect_block fs ino b off src n (unat (indirectPointer ino)) m
      else write_double_direct_block fs ino b off src n m)"

lemma write_at_indirect:
  fixes h :: int
  assumes M: "mapped (the_fs h) ino m0 b e"
    and "6 \<le> c" "b \<le> c" "off < 1024" "0 < n" "c * 1024 + off + n \<le> e * 1024" "same_tables (the_fs h) ino m0 e m"
  shows "write_at (the_fs h) ino c off src n m =
    Some (n, ino, overwrite (file_block (the_fs h) ino m0) c off src n m)"
proof (cases "c < 518")
  case True
  then have "file_table (the_fs h) ino m0 c = unat (indirectPointer ino)" by (simp add: file_table_def)
  with True assms(2) write_indirect_spec [OF assms] show ?thesis by (simp add: write_at_def)
next
  case False
  have "c < e"
  proof (rule ccontr)
    assume "\<not> c < e"
    then have "e * 1024 \<le> c * 1024" by simp
    with assms(5,6) show False by simp
  qed
  then have "double_direct_target (the_fs h) ino c m = Some (Some (file_table (the_fs h) ino m0 c), ino, m)"
    using False by (intro double_direct_target_mapped [OF M assms(7,3)]) simp_all
  with False write_indirect_spec [OF assms] show ?thesis by (simp add: write_at_def write_double_direct_block_def)
qed

lemma write_at_spec:
  fixes h :: int
  assumes M: "mapped (the_fs h) ino m0 b e"
  shows "b \<le> c \<Longrightarrow> off < 1024 \<Longrightarrow> 0 < n \<Longrightarrow> c * 1024 + off + n \<le> e * 1024 \<Longrightarrow>
    same_tables (the_fs h) ino m0 e m \<Longrightarrow> write_at (the_fs h) ino c off src n m =
    Some (n, ino, overwrite (file_block (the_fs h) ino m0) c off src n m)"
proof (induction "6 - c" arbitrary: c off src n m)
  case 0
  then show ?case by (intro write_at_indirect [OF M]) simp_all
next
  case (Suc x)
  let ?fs = "the_fs h" and ?F = "file_block (the_fs h) ino m0"
  have c: "c < 6" using Suc.hyps(2) by simp
  have ce: "c < e"
  proof (rule ccontr)
    assume "\<not> c < e"
    then have "e * 1024 \<le> c * 1024" by simp
    with Suc.prems(3,4) show False by simp
  qed
  note blk = mapped_block [OF M Suc.prems(1) ce]
  have fb: "?F c = unat (directPointer ino ! c)" using c by (simp add: file_block_def)
  define k where "k = min (1024 - off) n"
  have bs: "blank_space off n = k" using Suc.prems(2) by (simp add: blank_space_eq k_def)
  let ?m = "put_block (?F c) (buf_write (get_block m (?F c)) off (src_bytes src k)) m"
  have one: "write_direct_one ?fs ino c off src k m = (Some ino, ?m)"
    using blk(1,2) fb by (auto simp: write_direct_one_def Let_def)
  have step: "overwrite ?F c off src n m = overwrite ?F (Suc c) 0 (src_advance src k) (n - k) ?m"
    by (rule overwrite_step [OF Suc.prems(3,2) k_def])
  show ?case
  proof (cases "n - k = 0")
    case True
    then have kn: "k = n" by (simp add: k_def)
    show ?thesis
      using c step by (simp add: write_at_def write_direct_block.simps [of _ _ c] bs [unfolded kn] one [unfolded kn] kn)
  next
    case False
    have k: "k = 1024 - off" using False by (simp add: k_def min_def split: if_splits)
    have m: "?m = overwrite ?F c off src k m"
    proof -
      have "0 < k" "k = min (1024 - off) k" using Suc.prems(2) k by simp_all
      from overwrite_step [OF this(1) Suc.prems(2) this(2), of ?F c src m] show ?thesis by simp
    qed
    have fit: "(c + 1) * 1024 + 0 + (n - k) \<le> e * 1024" using Suc.prems(2,4) k False by simp
    have kfit: "c * 1024 + off + k \<le> e * 1024" using Suc.prems(4) by (simp add: k_def)
    have same: "same_tables ?fs ino m0 e ?m"
      unfolding m by (rule same_tables_overwrite [OF M Suc.prems(2,1) kfit Suc.prems(5)])
    have c1e: "c + 1 < e"
    proof (rule ccontr)
      assume "\<not> c + 1 < e"
      then have "e * 1024 \<le> (c + 1) * 1024" by simp
      with fit False show False by simp
    qed
    have ind: "c + 1 = 6 \<Longrightarrow> indirectPointer ino \<noteq> 0"
      using mapped_block(5) [OF M _ c1e] Suc.prems(1) by simp
    have IH: "write_at ?fs ino (c + 1) 0 (src_advance src k) (n - k) ?m =
        Some (n - k, ino, overwrite ?F (c + 1) 0 (src_advance src k) (n - k) ?m)"
      using Suc.hyps(2) Suc.prems(1) fit False same by (intro Suc.hyps(1)) simp_all
    have "k < n" using False by simp
    with False c IH ind step show ?thesis
      by (auto simp: write_at_def write_direct_block.simps [of _ _ c] bs one Let_def indirect_block_of_def)
  qed
qed

end
