(* ===== verification/FS_Wrote.thy ===== *)
theory FS_Wrote
  imports FS_Overwrite
begin

text \<open>
  The specification of a write that may allocate: \<open>wrote\<close> relates the block map and the pointer
  blocks of a file before and after. Storing into one block, present or new, and adding a pointer
  block satisfy it, and it composes.
\<close>

unbundle bit_operations_syntax

section \<open>Writes that allocate: one block\<close>

text \<open>
  A file is seen as its block map \<open>B\<close> (0 for a hole) and the set \<open>T\<close> of its pointer blocks, up to
  the 518 blocks that the direct and the indirect pointers reach.
\<close>

definition blocks_ok :: "nat set \<Rightarrow> (nat \<Rightarrow> nat) \<Rightarrow> mem \<Rightarrow> bool" where
  "blocks_ok T B m \<longleftrightarrow>
     (\<forall>b<518. B b \<noteq> 0 \<longrightarrow> 17 \<le> B b \<and> B b < 65528 \<and> bitmap_test whole_bm (B b) m \<and> B b \<notin> T) \<and>
     (\<forall>b<518. \<forall>b'<518. B b \<noteq> 0 \<and> B b = B b' \<longrightarrow> b = b') \<and>
     (\<forall>t\<in>T. 17 \<le> t \<and> t < 65528 \<and> bitmap_test whole_bm t m) \<and> (\<forall>j<17. bitmap_test whole_bm j m)"

definition block_byte :: "(nat \<Rightarrow> nat) \<Rightarrow> mem \<Rightarrow> nat \<Rightarrow> byte" where
  "block_byte B m p = get_block m (B (p div 1024)) ! (p mod 1024)"

text \<open>
  \<open>wrote T B m lo hi data T' B' m'\<close>: the step from \<open>m\<close> to \<open>m'\<close> stores \<open>data\<close> at the positions from
  \<open>lo\<close> up to \<open>hi\<close>; it keeps every other byte of the file, gives new blocks only to holes in the
  range, takes them from the free ones, and leaves every other allocated block, the inode table
  and the descriptors alone.
\<close>

definition wrote :: "nat set \<Rightarrow> (nat \<Rightarrow> nat) \<Rightarrow> mem \<Rightarrow> nat \<Rightarrow> nat \<Rightarrow> (nat \<Rightarrow> byte) \<Rightarrow>
    nat set \<Rightarrow> (nat \<Rightarrow> nat) \<Rightarrow> mem \<Rightarrow> bool" where
  "wrote T B m lo hi data T' B' m' \<longleftrightarrow> blocks_ok T' B' m' \<and> T \<subseteq> T' \<and>
     (\<forall>b<518. B b \<noteq> 0 \<longrightarrow> B' b = B b) \<and>
     (\<forall>b<518. B' b \<noteq> B b \<longrightarrow> \<not> bitmap_test whole_bm (B' b) m \<and> (\<exists>p. lo \<le> p \<and> p < hi \<and> p div 1024 = b)) \<and>
     (\<forall>t\<in>T'. t \<notin> T \<longrightarrow> \<not> bitmap_test whole_bm t m) \<and>
     (\<forall>p. lo \<le> p \<and> p < hi \<longrightarrow> B' (p div 1024) \<noteq> 0 \<and> block_byte B' m' p = data p) \<and>
     (\<forall>p<518 * 1024. \<not> (lo \<le> p \<and> p < hi) \<and> B (p div 1024) \<noteq> 0 \<longrightarrow> block_byte B' m' p = block_byte B m p) \<and>
     (\<forall>j<65528. bitmap_test whole_bm j m' \<longleftrightarrow>
        bitmap_test whole_bm j m \<or> j \<in> T' \<or> (\<exists>b<518. B' b \<noteq> 0 \<and> B' b = j)) \<and>
     (\<forall>j<65528. bitmap_test whole_bm j m \<and> j \<notin> T \<and> (\<forall>b<518. B b \<noteq> j) \<and> 17 \<le> j \<longrightarrow> get_block m' j = get_block m j) \<and>
     (\<forall>i<256. get_inode m' i = get_inode m i \<and> (bitmap_test inode_bm i m' \<longleftrightarrow> bitmap_test inode_bm i m)) \<and>
     (\<forall>ob. ob \<noteq> Image \<longrightarrow> m' ob = m ob)"

lemma wroteI:
  assumes "blocks_ok T' B' m'" "T \<subseteq> T'" "\<And>b. b < 518 \<Longrightarrow> B b \<noteq> 0 \<Longrightarrow> B' b = B b"
    "\<And>b. b < 518 \<Longrightarrow> B' b \<noteq> B b \<Longrightarrow> \<not> bitmap_test whole_bm (B' b) m \<and> (\<exists>p. lo \<le> p \<and> p < hi \<and> p div 1024 = b)"
    "\<And>t. t \<in> T' \<Longrightarrow> t \<notin> T \<Longrightarrow> \<not> bitmap_test whole_bm t m"
    "\<And>p. lo \<le> p \<Longrightarrow> p < hi \<Longrightarrow> B' (p div 1024) \<noteq> 0 \<and> block_byte B' m' p = data p"
    "\<And>p. p < 518 * 1024 \<Longrightarrow> \<not> (lo \<le> p \<and> p < hi) \<Longrightarrow> B (p div 1024) \<noteq> 0 \<Longrightarrow> block_byte B' m' p = block_byte B m p"
    "\<And>j. j < 65528 \<Longrightarrow> bitmap_test whole_bm j m' \<longleftrightarrow>
        bitmap_test whole_bm j m \<or> j \<in> T' \<or> (\<exists>b<518. B' b \<noteq> 0 \<and> B' b = j)"
    "\<And>j. j < 65528 \<Longrightarrow> bitmap_test whole_bm j m \<Longrightarrow> j \<notin> T \<Longrightarrow> \<forall>b<518. B b \<noteq> j \<Longrightarrow> 17 \<le> j \<Longrightarrow>
       get_block m' j = get_block m j"
    "\<And>i. i < 256 \<Longrightarrow> get_inode m' i = get_inode m i \<and> (bitmap_test inode_bm i m' \<longleftrightarrow> bitmap_test inode_bm i m)"
    "\<And>ob. ob \<noteq> Image \<Longrightarrow> m' ob = m ob"
  shows "wrote T B m lo hi data T' B' m'"
proof -
  have r1: "blocks_ok T' B' m'"
    using assms(1) by this
  have r2: "T \<subseteq> T'"
    using assms(2) by this
  have r3: "\<forall>b<518. B b \<noteq> 0 \<longrightarrow> B' b = B b"
    using assms(3) by blast
  have r4: "\<forall>b<518. B' b \<noteq> B b \<longrightarrow> \<not> bitmap_test whole_bm (B' b) m \<and> (\<exists>p. lo \<le> p \<and> p < hi \<and> p div 1024 = b)"
    using assms(4) by blast
  have r5: "\<forall>t\<in>T'. t \<notin> T \<longrightarrow> \<not> bitmap_test whole_bm t m"
    using assms(5) by blast
  have r6: "\<forall>p. lo \<le> p \<and> p < hi \<longrightarrow> B' (p div 1024) \<noteq> 0 \<and> block_byte B' m' p = data p"
    using assms(6) by blast
  have r7: "\<forall>p<518 * 1024. \<not> (lo \<le> p \<and> p < hi) \<and> B (p div 1024) \<noteq> 0 \<longrightarrow> block_byte B' m' p = block_byte B m p"
    using assms(7) by blast
  have r8: "\<forall>j<65528. bitmap_test whole_bm j m' \<longleftrightarrow>
        bitmap_test whole_bm j m \<or> j \<in> T' \<or> (\<exists>b<518. B' b \<noteq> 0 \<and> B' b = j)"
    using assms(8) by simp
  have r9: "\<forall>j<65528. bitmap_test whole_bm j m \<and> j \<notin> T \<and> (\<forall>b<518. B b \<noteq> j) \<and> 17 \<le> j \<longrightarrow> get_block m' j = get_block m j"
    using assms(9) by blast
  have r10: "\<forall>i<256. get_inode m' i = get_inode m i \<and> (bitmap_test inode_bm i m' \<longleftrightarrow> bitmap_test inode_bm i m)"
    using assms(10) by blast
  have r11: "\<forall>ob. ob \<noteq> Image \<longrightarrow> m' ob = m ob"
    using assms(11) by blast
  show ?thesis unfolding wrote_def by (intro conjI) (rule r1 r2 r3 r4 r5 r6 r7 r8 r9 r10 r11)+
qed

lemma wroteD:
  assumes "wrote T B m lo hi data T' B' m'"
  shows wrote_ok: "blocks_ok T' B' m'" and wrote_T: "T \<subseteq> T'"
    and wrote_keeps: "b < 518 \<Longrightarrow> B b \<noteq> 0 \<Longrightarrow> B' b = B b"
    and wrote_new: "b < 518 \<Longrightarrow> B' b \<noteq> B b \<Longrightarrow> \<not> bitmap_test whole_bm (B' b) m"
    and wrote_in_range: "b < 518 \<Longrightarrow> B' b \<noteq> B b \<Longrightarrow> \<exists>p. lo \<le> p \<and> p < hi \<and> p div 1024 = b"
    and wrote_T_new: "t \<in> T' \<Longrightarrow> t \<notin> T \<Longrightarrow> \<not> bitmap_test whole_bm t m"
    and wrote_data: "lo \<le> p \<Longrightarrow> p < hi \<Longrightarrow> B' (p div 1024) \<noteq> 0 \<and> block_byte B' m' p = data p"
    and wrote_rest: "p < 518 * 1024 \<Longrightarrow> \<not> (lo \<le> p \<and> p < hi) \<Longrightarrow> B (p div 1024) \<noteq> 0 \<Longrightarrow> block_byte B' m' p = block_byte B m p"
    and wrote_bits: "j < 65528 \<Longrightarrow> bitmap_test whole_bm j m' \<longleftrightarrow>
        bitmap_test whole_bm j m \<or> j \<in> T' \<or> (\<exists>b<518. B' b \<noteq> 0 \<and> B' b = j)"
    and wrote_frame: "j < 65528 \<Longrightarrow> bitmap_test whole_bm j m \<Longrightarrow> j \<notin> T \<Longrightarrow> \<forall>b<518. B b \<noteq> j \<Longrightarrow> 17 \<le> j \<Longrightarrow>
       get_block m' j = get_block m j"
    and wrote_inodes: "i < 256 \<Longrightarrow> get_inode m' i = get_inode m i"
      "i < 256 \<Longrightarrow> bitmap_test inode_bm i m' \<longleftrightarrow> bitmap_test inode_bm i m"
    and wrote_objects: "ob \<noteq> Image \<Longrightarrow> m' ob = m ob"
proof -
  have r: "blocks_ok T' B' m'" "T \<subseteq> T'" "\<forall>b<518. B b \<noteq> 0 \<longrightarrow> B' b = B b"
    "\<forall>b<518. B' b \<noteq> B b \<longrightarrow> \<not> bitmap_test whole_bm (B' b) m \<and> (\<exists>p. lo \<le> p \<and> p < hi \<and> p div 1024 = b)"
    "\<forall>t\<in>T'. t \<notin> T \<longrightarrow> \<not> bitmap_test whole_bm t m"
    "\<forall>p. lo \<le> p \<and> p < hi \<longrightarrow> B' (p div 1024) \<noteq> 0 \<and> block_byte B' m' p = data p"
    "\<forall>p<518 * 1024. \<not> (lo \<le> p \<and> p < hi) \<and> B (p div 1024) \<noteq> 0 \<longrightarrow> block_byte B' m' p = block_byte B m p"
    "\<forall>j<65528. bitmap_test whole_bm j m' \<longleftrightarrow>
        bitmap_test whole_bm j m \<or> j \<in> T' \<or> (\<exists>b<518. B' b \<noteq> 0 \<and> B' b = j)"
    "\<forall>j<65528. bitmap_test whole_bm j m \<and> j \<notin> T \<and> (\<forall>b<518. B b \<noteq> j) \<and> 17 \<le> j \<longrightarrow> get_block m' j = get_block m j"
    "\<forall>i<256. get_inode m' i = get_inode m i \<and> (bitmap_test inode_bm i m' \<longleftrightarrow> bitmap_test inode_bm i m)"
    "\<forall>ob. ob \<noteq> Image \<longrightarrow> m' ob = m ob"
    using assms unfolding wrote_def by - (elim conjE, assumption)+
  show "blocks_ok T' B' m'" "T \<subseteq> T'" by (rule r)+
  show "b < 518 \<Longrightarrow> B b \<noteq> 0 \<Longrightarrow> B' b = B b" using r(3) by blast
  show "b < 518 \<Longrightarrow> B' b \<noteq> B b \<Longrightarrow> \<not> bitmap_test whole_bm (B' b) m"
    "b < 518 \<Longrightarrow> B' b \<noteq> B b \<Longrightarrow> \<exists>p. lo \<le> p \<and> p < hi \<and> p div 1024 = b" using r(4) by blast+
  show "t \<in> T' \<Longrightarrow> t \<notin> T \<Longrightarrow> \<not> bitmap_test whole_bm t m" using r(5) by blast
  show "lo \<le> p \<Longrightarrow> p < hi \<Longrightarrow> B' (p div 1024) \<noteq> 0 \<and> block_byte B' m' p = data p" using r(6) by blast
  show "p < 518 * 1024 \<Longrightarrow> \<not> (lo \<le> p \<and> p < hi) \<Longrightarrow> B (p div 1024) \<noteq> 0 \<Longrightarrow> block_byte B' m' p = block_byte B m p"
    using r(7) by blast
  show "j < 65528 \<Longrightarrow> bitmap_test whole_bm j m' \<longleftrightarrow>
      bitmap_test whole_bm j m \<or> j \<in> T' \<or> (\<exists>b<518. B' b \<noteq> 0 \<and> B' b = j)"
    by (rule r(8) [rule_format])
  show "j < 65528 \<Longrightarrow> bitmap_test whole_bm j m \<Longrightarrow> j \<notin> T \<Longrightarrow> \<forall>b<518. B b \<noteq> j \<Longrightarrow> 17 \<le> j \<Longrightarrow>
      get_block m' j = get_block m j" using r(9) by blast
  show "i < 256 \<Longrightarrow> get_inode m' i = get_inode m i" "i < 256 \<Longrightarrow> bitmap_test inode_bm i m' \<longleftrightarrow> bitmap_test inode_bm i m"
    using r(10) by blast+
  show "ob \<noteq> Image \<Longrightarrow> m' ob = m ob" using r(11) by blast
qed

lemma blocks_okD:
  assumes "blocks_ok T B m"
  shows "b < 518 \<Longrightarrow> B b \<noteq> 0 \<Longrightarrow> 17 \<le> B b \<and> B b < 65528 \<and> bitmap_test whole_bm (B b) m \<and> B b \<notin> T"
    and "b < 518 \<Longrightarrow> b' < 518 \<Longrightarrow> B b \<noteq> 0 \<Longrightarrow> B b = B b' \<Longrightarrow> b = b'"
    and "t \<in> T \<Longrightarrow> 17 \<le> t \<and> t < 65528 \<and> bitmap_test whole_bm t m" and "j < 17 \<Longrightarrow> bitmap_test whole_bm j m"
  using assms unfolding blocks_ok_def by blast+

lemma div_block: "off + i < 1024 \<Longrightarrow> (c * 1024 + off + i) div 1024 = c" "off + i < 1024 \<Longrightarrow> (c * 1024 + off + i) mod 1024 = off + i"
  for c :: nat
  by (simp_all add: add.assoc)

lemma block_range: "lo = c * 1024 + off \<Longrightarrow> off + k \<le> 1024 \<Longrightarrow> lo \<le> p \<Longrightarrow> p < lo + k \<Longrightarrow>
    p div 1024 = c \<and> p mod 1024 = off + (p - lo) \<and> p - lo < k" for c :: nat
proof -
  assume a: "lo = c * 1024 + off" "off + k \<le> 1024" "lo \<le> p" "p < lo + k"
  then have "p = c * 1024 + off + (p - lo)" "off + (p - lo) < 1024" by simp_all
  with div_block [OF this(2), of c] a show ?thesis by simp
qed

lemma get_inode_bits_block:
  "i < 256 \<Longrightarrow> 17 \<le> j \<Longrightarrow> get_inode (put_block j bs (bitmap_set whole_bm j' m)) i = get_inode m i"
  by (simp add: get_inode_put_block get_inode_alloc)

lemma wrote_present:
  assumes ok: "blocks_ok T B m" and c: "c < 518" "B c \<noteq> 0" and k: "0 < k" "off + k \<le> 1024"
    and lo: "lo = c * 1024 + off" and bytes: "\<And>i. i < k \<Longrightarrow> bytes ! i = data (lo + i)" "length bytes = k"
  shows "wrote T B m lo (lo + k) data T B (put_block (B c) (buf_write (get_block m (B c)) off bytes) m)"
proof (rule wroteI)
  let ?buf = "buf_write (get_block m (B c)) off bytes"
  let ?m' = "put_block (B c) ?buf m"
  have Bc: "17 \<le> B c" "B c < 65528" "B c \<notin> T" using blocks_okD(1) [OF ok c] by auto
  have len: "length ?buf = 1024" using k bytes by simp
  have bit: "bitmap_test whole_bm j ?m' = bitmap_test whole_bm j m" for j
    using Bc by (simp add: whole_test_put_block)
  show "blocks_ok T B ?m'" using ok unfolding blocks_ok_def bit .
  show "bitmap_test whole_bm j ?m' \<longleftrightarrow> bitmap_test whole_bm j m \<or> j \<in> T \<or> (\<exists>b<518. B b \<noteq> 0 \<and> B b = j)" for j
    using blocks_okD(1,3) [OF ok] unfolding bit by blast
  show "B (p div 1024) \<noteq> 0 \<and> block_byte B ?m' p = data p" if "lo \<le> p" "p < lo + k" for p
  proof -
    define i where "i = p - lo"
    have i: "p = lo + i" "i < k" "p div 1024 = c" "p mod 1024 = off + i"
      using block_range [OF lo k(2) that] that by (simp_all add: i_def)
    then show ?thesis
      using c k(2) bytes get_put_block [OF len, of "B c" m "B c"] by (simp add: block_byte_def nth_buf_write)
  qed
  show "block_byte B ?m' p = block_byte B m p"
    if p: "p < 518 * 1024" "\<not> (lo \<le> p \<and> p < lo + k)" "B (p div 1024) \<noteq> 0" for p
  proof (cases "p div 1024 = c")
    case True
    then have "p = c * 1024 + p mod 1024" by (metis div_mult_mod_eq)
    then have "\<not> (off \<le> p mod 1024 \<and> p mod 1024 < off + k)" using p(2) lo by linarith
    then show ?thesis using True get_put_block [OF len, of "B c" m "B c"] k bytes(2)
      by (auto simp: block_byte_def nth_buf_write)
  next
    case False
    have "p div 1024 < 518" using p(1) by (simp add: less_mult_imp_div_less)
    then have "B c \<noteq> B (p div 1024)" using blocks_okD(2) [OF ok c(1) _ c(2)] False by metis
    then show ?thesis by (simp add: block_byte_def get_put_block [OF len])
  qed
  show "get_block ?m' j = get_block m j" if "\<forall>b<518. B b \<noteq> j" for j
    using that c by (simp add: get_put_block [OF len])
  show "get_inode ?m' i = get_inode m i \<and> (bitmap_test inode_bm i ?m' \<longleftrightarrow> bitmap_test inode_bm i m)" if "i < 256" for i
    using that Bc by (simp add: get_inode_put_block inode_test_put_block)
  show "ob \<noteq> Image \<Longrightarrow> ?m' ob = m ob" for ob by (simp add: put_block_def mwrite_def)
qed simp_all

lemma wrote_hole:
  fixes nid :: nat
  assumes ok: "blocks_ok T B m" and c: "c < 518" "B c = 0" and k: "0 < k" "off + k \<le> 1024"
    and lo: "lo = c * 1024 + off" and nid: "nid < 65528" "\<not> bitmap_test whole_bm nid m"
    and buf: "length buf = 1024" "\<And>i. i < k \<Longrightarrow> buf ! (off + i) = data (lo + i)"
  shows "wrote T B m lo (lo + k) data T (B(c := nid)) (put_block nid buf (bitmap_set whole_bm nid m))"
proof (rule wroteI)
  let ?m' = "put_block nid buf (bitmap_set whole_bm nid m)" and ?B' = "B(c := nid)"
  have id17: "17 \<le> nid" using blocks_okD(4) [OF ok, of nid] nid(2) by (meson not_le)
  have idT: "nid \<notin> T" using blocks_okD(3) [OF ok, of nid] nid(2) by blast
  have idB: "B b \<noteq> nid" if "b < 518" for b
    using blocks_okD(1) [OF ok that] nid(2) id17 by (cases "B b = 0") auto
  have bit: "bitmap_test whole_bm j ?m' \<longleftrightarrow> j = nid \<or> bitmap_test whole_bm j m" if "j < 65528" for j
    using that nid by (simp add: whole_test_put_block bitmap_test_set)
  show "blocks_ok T ?B' ?m'"
    unfolding blocks_ok_def
  proof (intro conjI allI impI ballI)
    fix b assume "b < 518" "?B' b \<noteq> 0"
    then show "17 \<le> ?B' b" "?B' b < 65528" "bitmap_test whole_bm (?B' b) ?m'" "?B' b \<notin> T"
      using blocks_okD(1) [OF ok, of b] id17 nid(1) idT bit by (auto split: if_splits)
  next
    fix b b' assume "b < 518" "b' < 518" "?B' b \<noteq> 0 \<and> ?B' b = ?B' b'"
    then show "b = b'" using blocks_okD(2) [OF ok, of b b'] idB by (auto split: if_splits)
  next
    fix t assume "t \<in> T"
    then show "17 \<le> t" "t < 65528" "bitmap_test whole_bm t ?m'" using blocks_okD(3) [OF ok, of t] bit by auto
  next
    fix j :: nat assume "j < 17"
    then show "bitmap_test whole_bm j ?m'" using blocks_okD(4) [OF ok, of j] bit by auto
  qed
  show "?B' b = B b" if "b < 518" "B b \<noteq> 0" for b using that c by auto
  show "\<not> bitmap_test whole_bm (?B' b) m \<and> (\<exists>p. lo \<le> p \<and> p < lo + k \<and> p div 1024 = b)" if "b < 518" "?B' b \<noteq> B b" for b
  proof -
    have "b = c" using that by (auto split: if_splits)
    moreover have "lo div 1024 = c" using k div_block(1) [of off 0 c] by (simp add: lo)
    ultimately show ?thesis using nid k by auto
  qed
  have lenB: "get_block ?m' j = (if j = nid then buf else get_block m j)" if "j < 65528" for j
    using that by (simp add: get_put_block [OF buf(1)] get_block_alloc)
  show "?B' (p div 1024) \<noteq> 0 \<and> block_byte ?B' ?m' p = data p" if "lo \<le> p" "p < lo + k" for p
    using block_range [OF lo k(2) that] id17 nid(1) that buf(2) [of "p - lo"] lenB [of nid] by (simp add: block_byte_def)
  show "block_byte ?B' ?m' p = block_byte B m p" if "p < 518 * 1024" "B (p div 1024) \<noteq> 0" for p
  proof -
    have p: "p div 1024 < 518" using that(1) by (simp add: less_mult_imp_div_less)
    then have "B (p div 1024) < 65528" "B (p div 1024) \<noteq> nid" "p div 1024 \<noteq> c"
      using blocks_okD(1) [OF ok p that(2)] idB that(2) c by auto
    then show ?thesis using lenB by (simp add: block_byte_def)
  qed
  show "bitmap_test whole_bm j ?m' \<longleftrightarrow> bitmap_test whole_bm j m \<or> j \<in> T \<or> (\<exists>b<518. ?B' b \<noteq> 0 \<and> ?B' b = j)"
    if "j < 65528" for j
  proof -
    have "\<exists>b<518. ?B' b \<noteq> 0 \<and> ?B' b = nid" using c id17 by (intro exI [of _ c]) simp
    then show ?thesis using bit [OF that] blocks_okD(3) [OF ok, of j] blocks_okD(1) [OF ok]
      by (auto split: if_splits)
  qed
  show "get_block ?m' j = get_block m j" if "j < 65528" "bitmap_test whole_bm j m" for j
    using that nid lenB by auto
  show "get_inode ?m' i = get_inode m i \<and> (bitmap_test inode_bm i ?m' \<longleftrightarrow> bitmap_test inode_bm i m)" if "i < 256" for i
    using that id17 by (simp add: get_inode_bits_block inode_test_put_block bitmap_test_set_other)
  show "ob \<noteq> Image \<Longrightarrow> ?m' ob = m ob" for ob
    by (simp add: put_block_def mwrite_def bitmap_set_def bitmap_byte_def Let_def whole_bm_def bitmap_struct_def)
qed simp_all

lemma wrote_range: "wrote T B m lo hi data T' B' m' \<Longrightarrow> b < 518 \<Longrightarrow> hi \<le> b * 1024 \<or> Suc b * 1024 \<le> lo \<Longrightarrow> B' b = B b"
proof (rule ccontr)
  assume w: "wrote T B m lo hi data T' B' m'" and b: "b < 518" "hi \<le> b * 1024 \<or> Suc b * 1024 \<le> lo" "B' b \<noteq> B b"
  obtain p where p: "lo \<le> p" "p < hi" "p div 1024 = b" using wrote_in_range [OF w b(1,3)] by blast
  then have "b * 1024 \<le> p" "p < Suc b * 1024" using div_mult_mod_eq [of p 1024] mod_less_divisor [of 1024 p] by simp_all
  with p b(2) show False by linarith
qed

lemma wrote_cong:
  assumes w: "wrote T B m lo hi data T' B' m'" and hi: "hi \<le> 518 * 1024"
    and B: "\<And>b. b < 518 \<Longrightarrow> C b = B b" "\<And>b. b < 518 \<Longrightarrow> C' b = B' b"
  shows "wrote T C m lo hi data T' C' m'"
proof -
  have d: "p < 518 * 1024 \<Longrightarrow> p div 1024 < 518" for p :: nat by (simp add: less_mult_imp_div_less)
  show ?thesis
  proof (rule wroteI)
    show "blocks_ok T' C' m'" using wrote_ok [OF w] B(2) unfolding blocks_ok_def by (simp cong: conj_cong)
    show "\<not> bitmap_test whole_bm (C' b) m \<and> (\<exists>p. lo \<le> p \<and> p < hi \<and> p div 1024 = b)" if "b < 518" "C' b \<noteq> C b" for b
      using wrote_new [OF w] wrote_in_range [OF w] that B by simp
    show "C' (p div 1024) \<noteq> 0 \<and> block_byte C' m' p = data p" if "lo \<le> p" "p < hi" for p
      using wrote_data [OF w that] B(2) [of "p div 1024"] d [of p] hi that by (simp add: block_byte_def)
    show "block_byte C' m' p = block_byte C m p" if "p < 518 * 1024" "\<not> (lo \<le> p \<and> p < hi)" "C (p div 1024) \<noteq> 0" for p
      using wrote_rest [OF w that(1,2)] that B d [of p] by (simp add: block_byte_def)
    show "bitmap_test whole_bm j m' \<longleftrightarrow> bitmap_test whole_bm j m \<or> j \<in> T' \<or> (\<exists>b<518. C' b \<noteq> 0 \<and> C' b = j)"
      if "j < 65528" for j using wrote_bits [OF w that] B(2) by (simp cong: conj_cong)
    show "get_block m' j = get_block m j"
      if "j < 65528" "bitmap_test whole_bm j m" "j \<notin> T" "\<forall>b<518. C b \<noteq> j" "17 \<le> j" for j
      using that B(1) by (intro wrote_frame [OF w]) simp_all
  qed (use wrote_T [OF w] wrote_keeps [OF w] wrote_T_new [OF w] wrote_inodes [OF w] wrote_objects [OF w] B in simp_all)
qed

lemma wrote_mono: "wrote T B m lo hi data T' B' m' \<Longrightarrow> j < 65528 \<Longrightarrow> bitmap_test whole_bm j m \<Longrightarrow> bitmap_test whole_bm j m'"
  by (drule (1) wrote_bits) simp

lemma wrote_fresh:
  assumes w: "wrote T B m lo hi data T' B' m'" and "b < 518" "B' b \<noteq> B b"
  shows "B b = 0" "B' b \<noteq> 0" "B' b < 65528"
proof -
  show b: "B b = 0" using wrote_keeps [OF w assms(2)] assms(3) by blast
  then show "B' b \<noteq> 0" using assms(3) by simp
  then show "B' b < 65528" using blocks_okD(1) [OF wrote_ok [OF w] assms(2)] by blast
qed

lemma wrote_trans:
  assumes w1: "wrote T B m lo mid data T1 Ba m1" and w2: "wrote T1 Ba m1 mid hi data T2 Bb m2"
    and le: "lo \<le> mid" "mid \<le> hi" "hi \<le> 518 * 1024"
  shows "wrote T B m lo hi data T2 Bb m2"
proof (rule wroteI)
  have d: "p < 518 * 1024 \<Longrightarrow> p div 1024 < 518" for p :: nat by (simp add: less_mult_imp_div_less)
  note f1 = wrote_fresh [OF w1] and f2 = wrote_fresh [OF w2]
  have step: "Ba b \<noteq> B b \<and> Bb b = Ba b \<or> Ba b = B b \<and> Bb b \<noteq> Ba b" if "b < 518" "Bb b \<noteq> B b" for b
    using f1(2) [OF that(1)] wrote_keeps [OF w2 that(1)] that(2) by metis
  show "blocks_ok T2 Bb m2" by (rule wrote_ok [OF w2])
  show "T \<subseteq> T2" using wrote_T [OF w1] wrote_T [OF w2] by (rule subset_trans)
  show "Bb b = B b" if "b < 518" "B b \<noteq> 0" for b
    using wrote_keeps [OF w1 that] wrote_keeps [OF w2 that(1)] that(2) by simp
  show "\<not> bitmap_test whole_bm (Bb b) m \<and> (\<exists>p. lo \<le> p \<and> p < hi \<and> p div 1024 = b)" if b: "b < 518" "Bb b \<noteq> B b" for b
    using step [OF b]
  proof (elim disjE conjE)
    assume "Ba b \<noteq> B b" "Bb b = Ba b"
    then show ?thesis using wrote_new [OF w1 b(1)] wrote_in_range [OF w1 b(1)] le by (metis order_less_le_trans)
  next
    assume e: "Ba b = B b" "Bb b \<noteq> Ba b"
    then have "\<not> bitmap_test whole_bm (Bb b) m" using wrote_new [OF w2 b(1) e(2)] wrote_mono [OF w1] f2(3) [OF b(1) e(2)] by blast
    then show ?thesis using wrote_in_range [OF w2 b(1) e(2)] le by (metis order_trans)
  qed
  show "\<not> bitmap_test whole_bm t m" if "t \<in> T2" "t \<notin> T" for t
  proof (cases "t \<in> T1")
    case False
    have "t < 65528" using blocks_okD(3) [OF wrote_ok [OF w2] that(1)] by simp
    then show ?thesis using wrote_T_new [OF w2 that(1) False] wrote_mono [OF w1] by blast
  qed (use that wrote_T_new [OF w1] in blast)
  show "Bb (p div 1024) \<noteq> 0 \<and> block_byte Bb m2 p = data p" if p: "lo \<le> p" "p < hi" for p
  proof (cases "p < mid")
    case True
    note b1 = wrote_data [OF w1 p(1) True]
    have "p < 518 * 1024" using p le by simp
    then show ?thesis
      using wrote_rest [OF w2, of p] wrote_keeps [OF w2 d, of p] True b1 by simp
  qed (use wrote_data [OF w2] p in simp)
  show "block_byte Bb m2 p = block_byte B m p" if p: "p < 518 * 1024" "\<not> (lo \<le> p \<and> p < hi)" "B (p div 1024) \<noteq> 0" for p
    using wrote_rest [OF w1 p(1) _ p(3)] wrote_rest [OF w2 p(1)] wrote_keeps [OF w1 d [OF p(1)] p(3)] p le by auto
  show "bitmap_test whole_bm j m2 \<longleftrightarrow> bitmap_test whole_bm j m \<or> j \<in> T2 \<or> (\<exists>b<518. Bb b \<noteq> 0 \<and> Bb b = j)"
    if "j < 65528" for j
    using wrote_bits [OF w2 that] wrote_bits [OF w1 that] wrote_T [OF w2] wrote_keeps [OF w2] by (metis subsetD)
  show "get_block m2 j = get_block m j"
    if j: "j < 65528" "bitmap_test whole_bm j m" "j \<notin> T" "\<forall>b<518. B b \<noteq> j" "17 \<le> j" for j
  proof -
    have "j \<notin> T1" using wrote_T_new [OF w1] j by blast
    moreover have "\<forall>b<518. Ba b \<noteq> j" using wrote_new [OF w1] j by metis
    ultimately have "get_block m2 j = get_block m1 j"
      using j wrote_mono [OF w1] by (intro wrote_frame [OF w2]) simp_all
    also have "\<dots> = get_block m j" using j by (intro wrote_frame [OF w1]) simp_all
    finally show ?thesis .
  qed
  show "get_inode m2 i = get_inode m i \<and> (bitmap_test inode_bm i m2 \<longleftrightarrow> bitmap_test inode_bm i m)" if "i < 256" for i
    using wrote_inodes [OF w1 that] wrote_inodes [OF w2 that] by simp
  show "ob \<noteq> Image \<Longrightarrow> m2 ob = m ob" for ob using wrote_objects [OF w1] wrote_objects [OF w2] by simp
qed

lemma wrote_table:
  fixes nid :: nat
  assumes ok: "blocks_ok T B m" and nid: "nid < 65528" "\<not> bitmap_test whole_bm nid m" and buf: "length buf = 1024"
  shows "wrote T B m lo lo data (insert nid T) B (put_block nid buf (bitmap_set whole_bm nid m))"
proof (rule wroteI)
  let ?m' = "put_block nid buf (bitmap_set whole_bm nid m)"
  have nid17: "17 \<le> nid" using blocks_okD(4) [OF ok, of nid] nid(2) by (meson not_le)
  have nidB: "B b \<noteq> nid" if "b < 518" for b
    using blocks_okD(1) [OF ok that] nid(2) nid17 by (cases "B b = 0") auto
  have bit: "bitmap_test whole_bm j ?m' \<longleftrightarrow> j = nid \<or> bitmap_test whole_bm j m" if "j < 65528" for j
    using that nid by (simp add: whole_test_put_block bitmap_test_set)
  have blk: "get_block ?m' j = (if j = nid then buf else get_block m j)" if "j < 65528" for j
    using that by (simp add: get_put_block [OF buf] get_block_alloc)
  show "blocks_ok (insert nid T) B ?m'"
    unfolding blocks_ok_def
    using blocks_okD(1) [OF ok] blocks_okD(2) [OF ok] blocks_okD(3) [OF ok] blocks_okD(4) [OF ok] bit nid nid17 nidB by auto
  show "block_byte B ?m' p = block_byte B m p" if "p < 518 * 1024" "B (p div 1024) \<noteq> 0" for p
  proof -
    have p: "p div 1024 < 518" using that(1) by (simp add: less_mult_imp_div_less)
    then have "B (p div 1024) < 65528" "B (p div 1024) \<noteq> nid" using blocks_okD(1) [OF ok p that(2)] nidB by auto
    then show ?thesis using blk by (simp add: block_byte_def)
  qed
  show "bitmap_test whole_bm j ?m' \<longleftrightarrow> bitmap_test whole_bm j m \<or> j \<in> insert nid T \<or> (\<exists>b<518. B b \<noteq> 0 \<and> B b = j)"
    if "j < 65528" for j
    using bit [OF that] blocks_okD(3) [OF ok, of j] blocks_okD(1) [OF ok] by auto
  show "get_block ?m' j = get_block m j" if "j < 65528" "bitmap_test whole_bm j m" for j
    using that nid blk by auto
  show "get_inode ?m' i = get_inode m i \<and> (bitmap_test inode_bm i ?m' \<longleftrightarrow> bitmap_test inode_bm i m)" if "i < 256" for i
    using that nid17 by (simp add: get_inode_bits_block inode_test_put_block bitmap_test_set_other)
  show "ob \<noteq> Image \<Longrightarrow> ?m' ob = m ob" for ob
    by (simp add: put_block_def mwrite_def bitmap_set_def bitmap_byte_def Let_def whole_bm_def bitmap_struct_def)
qed (use nid in auto)

lemma wrote_table_store:
  assumes ok: "blocks_ok T B m" and t: "t \<in> T" and buf: "length buf = 1024"
  shows "wrote T B m lo lo data T B (put_block t buf m)"
proof (rule wroteI)
  let ?m' = "put_block t buf m"
  have t17: "17 \<le> t" "t < 65528" using blocks_okD(3) [OF ok t] by auto
  have tB: "B b \<noteq> t" if "b < 518" "B b \<noteq> 0" for b using blocks_okD(1) [OF ok that] t by auto
  have bit: "bitmap_test whole_bm j ?m' \<longleftrightarrow> bitmap_test whole_bm j m" for j
    using t17 by (simp add: whole_test_put_block)
  show "blocks_ok T B ?m'" using ok unfolding blocks_ok_def bit .
  show "block_byte B ?m' p = block_byte B m p" if "p < 518 * 1024" "B (p div 1024) \<noteq> 0" for p
    using that tB [of "p div 1024"] by (simp add: block_byte_def get_put_block [OF buf] less_mult_imp_div_less)
  show "bitmap_test whole_bm j ?m' \<longleftrightarrow> bitmap_test whole_bm j m \<or> j \<in> T \<or> (\<exists>b<518. B b \<noteq> 0 \<and> B b = j)" for j
    using blocks_okD(3) [OF ok, of j] blocks_okD(1) [OF ok] unfolding bit by auto
  show "get_block ?m' j = get_block m j" if "j \<notin> T" for j
    using that t by (auto simp: get_put_block [OF buf])
  show "get_inode ?m' i = get_inode m i \<and> (bitmap_test inode_bm i ?m' \<longleftrightarrow> bitmap_test inode_bm i m)" if "i < 256" for i
    using that t17 by (simp add: get_inode_put_block inode_test_put_block)
  show "ob \<noteq> Image \<Longrightarrow> ?m' ob = m ob" for ob
    by (simp add: put_block_def mwrite_def)
qed auto

lemma wrote_refl: "blocks_ok T B m \<Longrightarrow> wrote T B m lo lo data T B m"
  by (rule wroteI) (auto dest: blocks_okD)

section \<open>Free blocks and holes\<close>

definition free_blocks :: "mem \<Rightarrow> nat" where
  "free_blocks m = card {j. j < 65528 \<and> \<not> bitmap_test whole_bm j m}"

definition holes :: "(nat \<Rightarrow> nat) \<Rightarrow> nat \<Rightarrow> nat \<Rightarrow> nat" where
  "holes B c e = card {b. c \<le> b \<and> b < e \<and> B b = 0}"

lemma allocate_free:
  assumes "0 < free_blocks m"
  obtains nid where "block_store_allocate (Some (whole_store h)) m = (nid, bitmap_set whole_bm nid m)"
    "nid < 65528" "\<not> bitmap_test whole_bm nid m"
proof (cases rule: allocate_whole_cases [of h m])
  case full
  then have "{j. j < 65528 \<and> \<not> bitmap_test whole_bm j m} = {}" by blast
  with assms show ?thesis by (simp add: free_blocks_def)
qed (use that in blast)

lemma free_blocks_set:
  assumes "nid < 65528" and "\<not> bitmap_test whole_bm nid m"
  shows "free_blocks (bitmap_set whole_bm nid m) = free_blocks m - 1" "0 < free_blocks m"
proof -
  let ?F = "{j. j < 65528 \<and> \<not> bitmap_test whole_bm j m}"
  have "{j. j < 65528 \<and> \<not> bitmap_test whole_bm j (bitmap_set whole_bm nid m)} = ?F - {nid}"
    by (auto simp: bitmap_test_set assms(1))
  then show "free_blocks (bitmap_set whole_bm nid m) = free_blocks m - 1"
    using assms by (simp add: free_blocks_def)
  show "0 < free_blocks m" using assms by (auto simp: free_blocks_def card_gt_0_iff)
qed

lemma free_blocks_put_block [simp]: "i < 65528 \<Longrightarrow> free_blocks (put_block i buf m) = free_blocks m"
  by (simp add: free_blocks_def whole_test_put_block)

lemma holes_step: "c < e \<Longrightarrow> holes B c e = (if B c = 0 then 1 else 0) + holes B (Suc c) e"
proof -
  assume "c < e"
  then have "{b. c \<le> b \<and> b < e \<and> B b = 0} = (if B c = 0 then {c} else {}) \<union> {b. Suc c \<le> b \<and> b < e \<and> B b = 0}"
    by (auto simp: Suc_le_eq le_less)
  moreover have "c \<notin> {b. Suc c \<le> b \<and> b < e \<and> B b = 0}" "finite {b. Suc c \<le> b \<and> b < e \<and> B b = 0}" by auto
  ultimately show ?thesis by (simp add: holes_def)
qed

lemma holes_cong: "(\<And>b. c \<le> b \<Longrightarrow> b < e \<Longrightarrow> B' b = B b) \<Longrightarrow> holes B' c e = holes B c e"
  unfolding holes_def by (rule arg_cong [where f = card]) auto

lemma holes_empty [simp]: "holes B e e = 0"
  by (simp add: holes_def)

end
