(* ===== verification/FS_Write.thy ===== *)
theory FS_Write
  imports FS_Wrote
begin

text \<open>
  What \<^verbatim>\<open>fs_write\<close> does, allocation included: each round of the transfer functions satisfies
  \<open>wrote\<close>, and so they satisfy it for the 518 blocks that the direct and the indirect pointers
  reach, when enough blocks are free; into blocks that exist, for the whole file. Then the bytes of
  the file after the call, the round trip with \<^verbatim>\<open>fs_seek\<close> and \<^verbatim>\<open>fs_read\<close>, and the proof that
  the call returns.
\<close>

unbundle bit_operations_syntax

section \<open>The write functions with allocation, up to the indirect block\<close>

text \<open>The block map of a file whose indirect block holds \<open>ptrs\<close>.\<close>

definition file_map :: "inode_t \<Rightarrow> uint16_t list \<Rightarrow> nat \<Rightarrow> nat" where
  "file_map ino ptrs b = (if b < 6 then unat (directPointer ino ! b) else unat (ptrs ! (b - 6)))"

lemma src_advance_fun: "src_advance (\<lambda>i. data (pos + i)) k = (\<lambda>i. data (pos + k + i))"
  by (simp add: src_advance_def add.assoc)

lemma nth_src_bytes: "i < k \<Longrightarrow> src_bytes (\<lambda>i. data (pos + i)) k ! i = data (pos + i)"
  by (simp add: src_bytes_def)

lemma indirect_write_loop_step:
  "ws_index w < 512 \<Longrightarrow> 0 < ws_nbyte w \<Longrightarrow> \<not> ws_full (snd (indirect_target fs w)) \<Longrightarrow>
    indirect_write_loop fs w =
      indirect_write_loop fs (indirect_store fs (fst (indirect_target fs w)) (snd (indirect_target fs w)))"
  by (subst indirect_write_loop.simps) (simp add: Let_def)

text \<open>One round of the loop of \<^verbatim>\<open>write_indirect_block\<close>, for a pointer that is set or not.\<close>

lemma indirect_round:
  fixes h :: int
  assumes ok: "blocks_ok T (file_map ino (ws_ptrs w)) (ws_mem w)" and len: "length (ws_ptrs w) = 512"
    and i: "ws_index w < 512" "c = 6 + ws_index w" and off: "ws_offset w < 1024" and n: "0 < ws_nbyte w"
    and free: "file_map ino (ws_ptrs w) c = 0 \<Longrightarrow> 0 < free_blocks (ws_mem w)"
    and src: "ws_src w = (\<lambda>i. data (c * 1024 + ws_offset w + i))" and full: "\<not> ws_full w"
  defines "t \<equiv> indirect_target (the_fs h) w" and "k \<equiv> min (1024 - ws_offset w) (ws_nbyte w)"
  defines "w' \<equiv> indirect_store (the_fs h) (fst t) (snd t)"
  shows "\<not> ws_full (snd t) \<and> length (ws_ptrs w') = 512 \<and> ws_index w' = Suc (ws_index w) \<and> ws_offset w' = 0 \<and>
    ws_nbyte w' = ws_nbyte w - k \<and> ws_sum w' = ws_sum w + k \<and> \<not> ws_full w' \<and>
    ws_src w' = (\<lambda>i. data (c * 1024 + ws_offset w + k + i)) \<and> ws_locator w' = uint16_incr (ws_locator w) \<and>
    free_blocks (ws_mem w') = free_blocks (ws_mem w) - (if file_map ino (ws_ptrs w) c = 0 then 1 else 0) \<and>
    wrote T (file_map ino (ws_ptrs w)) (ws_mem w) (c * 1024 + ws_offset w) (c * 1024 + ws_offset w + k) data
      T (file_map ino (ws_ptrs w')) (ws_mem w')"
proof -
  let ?fs = "the_fs h" and ?off = "ws_offset w" and ?m = "ws_mem w" and ?B = "file_map ino (ws_ptrs w)"
  have c: "c < 518" using i by simp
  have Bc: "?B c = unat (ws_ptrs w ! ws_index w)" by (simp add: file_map_def i)
  have bs: "blank_space ?off (ws_nbyte w) = k" using off by (simp add: blank_space_eq k_def)
  have k: "0 < k" "?off + k \<le> 1024" using off n by (auto simp: k_def)
  have bytes: "src_bytes (ws_src w) k ! j = data (c * 1024 + ?off + j)" if "j < k" for j
    using that by (simp add: src nth_src_bytes)
  show ?thesis
  proof (cases "?B c = 0")
    case False
    then have t: "t = (?B c, w)" by (auto simp: t_def indirect_target_def Bc)
    have lt: "?B c < 65528" using blocks_okD(1) [OF ok c False] by simp
    show ?thesis
      using wrote_present [OF ok c False k refl bytes] lt len full False
      by (simp add: t w'_def indirect_store_def Let_def bs src src_advance_fun)
  next
    case True
    then have z: "ws_ptrs w ! ws_index w = 0" using Bc by (simp add: unat_eq_zero)
    obtain nid where nid: "block_store_allocate (Some (whole_store h)) ?m = (nid, bitmap_set whole_bm nid ?m)"
      "nid < 65528" "\<not> bitmap_test whole_bm nid ?m"
      using allocate_free [OF free [OF True]] by blast
    let ?ptrs = "(ws_ptrs w)[ws_index w := of_nat nid]"
    have t: "t = (nid, w\<lparr>ws_ptrs := ?ptrs, ws_mem := bitmap_set whole_bm nid ?m\<rparr>)"
      using nid z by (simp add: t_def indirect_target_def)
    let ?buf = "buf_write (get_block (bitmap_set whole_bm nid ?m) nid) ?off (src_bytes (ws_src w) k)"
    have buf: "length ?buf = 1024" "\<And>j. j < k \<Longrightarrow> ?buf ! (?off + j) = data (c * 1024 + ?off + j)"
      using k bytes by (simp_all add: nth_buf_write)
    have B: "(file_map ino (ws_ptrs w))(c := nid) = file_map ino ?ptrs" if "c < 518"
    proof
      fix b show "((file_map ino (ws_ptrs w))(c := nid)) b = file_map ino ?ptrs b"
        using nid(2) len i by (cases "b = c") (auto simp: file_map_def unat_of_nat nth_list_update)
    qed
    have fr: "free_blocks (put_block nid ?buf (bitmap_set whole_bm nid ?m)) = free_blocks ?m - 1"
      using nid by (simp add: free_blocks_set)
    show ?thesis
      using wrote_hole [OF ok c True k refl nid(2,3) buf] nid(2) len full True fr
      by (simp add: t w'_def indirect_store_def Let_def bs src src_advance_fun B [OF c])
  qed
qed

lemma indirect_write_loop_alloc:
  fixes h :: int
  assumes e: "e \<le> 518"
  shows "blocks_ok T (file_map ino (ws_ptrs w)) (ws_mem w) \<Longrightarrow> length (ws_ptrs w) = 512 \<Longrightarrow>
    ws_locator w = 6 + ws_index w \<Longrightarrow> ws_index w \<le> 512 \<Longrightarrow> ws_offset w < 1024 \<Longrightarrow> \<not> ws_full w \<Longrightarrow>
    pos = ws_locator w * 1024 + ws_offset w \<Longrightarrow> pos + ws_nbyte w \<le> e * 1024 \<Longrightarrow>
    holes (file_map ino (ws_ptrs w)) (ws_locator w) e \<le> free_blocks (ws_mem w) \<Longrightarrow>
    ws_src w = (\<lambda>i. data (pos + i)) \<Longrightarrow>
    (let w' = indirect_write_loop (the_fs h) w
     in ws_sum w' = ws_sum w + ws_nbyte w \<and> ws_nbyte w' = 0 \<and> \<not> ws_full w' \<and> length (ws_ptrs w') = 512 \<and>
        wrote T (file_map ino (ws_ptrs w)) (ws_mem w) pos (pos + ws_nbyte w) data
          T (file_map ino (ws_ptrs w')) (ws_mem w'))"
proof (induction "512 - ws_index w" arbitrary: w pos)
  case 0
  then have "ws_index w = 512" by simp
  with 0 e have "ws_nbyte w = 0" by simp
  with 0 show ?case
    using wrote_refl by (simp add: indirect_write_loop_cases(1) Let_def)
next
  case (Suc x)
  let ?B = "file_map ino (ws_ptrs w)" and ?c = "ws_locator w" and ?off = "ws_offset w" and ?n = "ws_nbyte w"
  have i: "ws_index w < 512" using Suc.hyps(2) by simp
  show ?case
  proof (cases "?n = 0")
    case True
    then show ?thesis using Suc.prems wrote_refl by (simp add: indirect_write_loop_cases(1) Let_def)
  next
    case False
    then have n: "0 < ?n" by simp
    have c: "?c < e" "?c < 518"
    proof -
      show "?c < e"
      proof (rule ccontr)
        assume "\<not> ?c < e"
        then have "e * 1024 \<le> ?c * 1024" by simp
        with Suc.prems(7,8) n show False by simp
      qed
      with e show "?c < 518" by simp
    qed
    define t where "t = indirect_target (the_fs h) w"
    define k where "k = min (1024 - ?off) ?n"
    define v where "v = indirect_store (the_fs h) (fst t) (snd t)"
    have fr: "?B ?c = 0 \<Longrightarrow> 0 < free_blocks (ws_mem w)" using Suc.prems(9) holes_step [OF c(1), of ?B] by simp
    note R = indirect_round [OF Suc.prems(1,2) i Suc.prems(3,5) n fr _ Suc.prems(6), of data h,
        folded t_def k_def, folded v_def]
    have R: "\<not> ws_full (snd t)" "length (ws_ptrs v) = 512" "ws_index v = Suc (ws_index w)" "ws_offset v = 0"
      "ws_nbyte v = ?n - k" "ws_sum v = ws_sum w + k" "\<not> ws_full v" "ws_src v = (\<lambda>i. data (pos + k + i))"
      "ws_locator v = Suc ?c"
      "free_blocks (ws_mem v) = free_blocks (ws_mem w) - (if ?B ?c = 0 then 1 else 0)"
      "wrote T ?B (ws_mem w) pos (pos + k) data T (file_map ino (ws_ptrs v)) (ws_mem v)"
      using R Suc.prems(7,10) c(2) by (auto simp: uint16_incr_def)
    have kn: "k \<le> ?n" by (simp add: k_def)
    have loop: "indirect_write_loop (the_fs h) w = indirect_write_loop (the_fs h) v"
      unfolding v_def t_def using i n R(1) unfolding t_def by (rule indirect_write_loop_step)
    have hs: "holes (file_map ino (ws_ptrs v)) (Suc ?c) e = holes ?B (Suc ?c) e"
    proof (rule holes_cong)
      fix b assume b: "Suc ?c \<le> b" "b < e"
      have "pos + k \<le> Suc ?c * 1024" using Suc.prems(5,7) by (simp add: k_def)
      also have "Suc ?c * 1024 \<le> b * 1024" using b(1) by simp
      finally show "file_map ino (ws_ptrs v) b = ?B b" using b e by (intro wrote_range [OF R(11)]) simp_all
    qed
    have hv: "holes (file_map ino (ws_ptrs v)) (ws_locator v) e \<le> free_blocks (ws_mem v)"
      using Suc.prems(9) holes_step [OF c(1), of ?B] unfolding R(9) hs R(10) by auto
    show ?thesis
    proof (cases "?n - k = 0")
      case True
      then have "k = ?n" using kn by simp
      with R True show ?thesis
        unfolding loop by (simp add: indirect_write_loop_cases(1) Let_def)
    next
      case False
      have k: "k = 1024 - ?off" using False by (auto simp: k_def min_def split: if_splits)
      have pos: "pos + k = Suc ?c * 1024 + 0" using Suc.prems(5,7) k by simp
      have "let w' = indirect_write_loop (the_fs h) v
         in ws_sum w' = ws_sum v + ws_nbyte v \<and> ws_nbyte w' = 0 \<and> \<not> ws_full w' \<and> length (ws_ptrs w') = 512 \<and>
          wrote T (file_map ino (ws_ptrs v)) (ws_mem v) (pos + k) (pos + k + ws_nbyte v) data
            T (file_map ino (ws_ptrs w')) (ws_mem w')"
        using Suc.hyps(2) Suc.prems(3,8) R hv i pos kn wrote_ok [OF R(11)]
        by (intro Suc.hyps(1)) simp_all
      then have I: "ws_sum (indirect_write_loop (the_fs h) v) = ws_sum w + ?n"
        "ws_nbyte (indirect_write_loop (the_fs h) v) = 0" "\<not> ws_full (indirect_write_loop (the_fs h) v)"
        "length (ws_ptrs (indirect_write_loop (the_fs h) v)) = 512"
        "wrote T (file_map ino (ws_ptrs v)) (ws_mem v) (pos + k) (pos + ?n) data
            T (file_map ino (ws_ptrs (indirect_write_loop (the_fs h) v))) (ws_mem (indirect_write_loop (the_fs h) v))"
        using R(5,6) kn by (simp_all add: Let_def)
      have "wrote T ?B (ws_mem w) pos (pos + ?n) data
          T (file_map ino (ws_ptrs (indirect_write_loop (the_fs h) v))) (ws_mem (indirect_write_loop (the_fs h) v))"
      proof (rule wrote_trans [OF R(11) I(5)])
        show "pos \<le> pos + k" "pos + k \<le> pos + ?n" using kn by simp_all
        have "e * 1024 \<le> 518 * 1024" using e by (intro mult_le_mono1)
        with Suc.prems(8) show "pos + ?n \<le> 518 * 1024" by (rule order_trans)
      qed
      with I show ?thesis unfolding loop Let_def by blast
    qed
  qed
qed

definition indirect_ptrs :: "F19FS_t \<Rightarrow> inode_t \<Rightarrow> mem \<Rightarrow> uint16_t list" where
  "indirect_ptrs fs ino m =
     (if indirectPointer ino = 0 then replicate 512 0 else read_ptrs fs (unat (indirectPointer ino)) m)"

definition tables :: "inode_t \<Rightarrow> nat set" where
  "tables ino = (if indirectPointer ino = 0 then {} else {unat (indirectPointer ino)})"

lemma length_indirect_ptrs [simp]: "length (indirect_ptrs fs ino m) = 512"
  by (simp add: indirect_ptrs_def read_ptrs_def)

lemma file_block_map: "b < 518 \<Longrightarrow> file_block fs ino m b = file_map ino (indirect_ptrs fs ino m) b"
  by (auto simp: file_block_def file_map_def indirect_ptrs_def file_table_def unat_eq_zero)

lemma zero_block_ptrs: "bytes_ptrs 512 zero_block = replicate 512 0"
proof -
  have "ptrs_bytes (replicate 512 0) = zero_block"
    by (simp add: ptrs_bytes_def zero_block_def le_def upt_rec numeral_eq_Suc)
  then show ?thesis using bytes_ptrs_bytes [of "replicate 512 0" 512] by simp
qed

lemma read_ptrs_put:
  "length ptrs = 512 \<Longrightarrow> t \<le> 65528 \<Longrightarrow> read_ptrs (the_fs h) t (put_block t (ptrs_bytes ptrs) m) = ptrs"
  by (simp add: read_ptrs_def get_put_block codec_simps)

lemma indirect_ptrs_same:
  "(indirectPointer ino \<noteq> 0 \<Longrightarrow> get_block m' (unat (indirectPointer ino)) = get_block m (unat (indirectPointer ino))) \<Longrightarrow>
    tables ino \<subseteq> {..65528} \<Longrightarrow> indirectPointer ino' = indirectPointer ino \<Longrightarrow>
    indirect_ptrs (the_fs h) ino' m' = indirect_ptrs (the_fs h) ino m"
  by (auto simp: indirect_ptrs_def tables_def intro: read_ptrs_same split: if_splits)

lemma blocks_ok_tables: "blocks_ok T B m \<Longrightarrow> T \<subseteq> {..65528}"
  using blocks_okD(3) by force

section \<open>\<^verbatim>\<open>write_indirect_block\<close>\<close>

lemma write_indirect_alloc:
  fixes h :: int
  assumes ok: "blocks_ok T (file_map ino (read_ptrs (the_fs h) t m)) m" and t: "t \<in> T" and c: "6 \<le> c" and off: "off < 1024"
    and n: "0 < n" and e: "e \<le> 518" and pos: "pos = c * 1024 + off" "pos + n \<le> e * 1024"
    and free: "holes (file_map ino (read_ptrs (the_fs h) t m)) c e \<le> free_blocks m"
  shows "\<exists>m'. write_indirect_block (the_fs h) ino c off (\<lambda>i. data (pos + i)) n t m = Some (n, ino, m') \<and>
    wrote T (file_map ino (read_ptrs (the_fs h) t m)) m pos (pos + n) data
      T (file_map ino (read_ptrs (the_fs h) t m')) m'"
proof -
  let ?fs = "the_fs h" and ?src = "\<lambda>i. data (pos + i)"
  have le: "e * 1024 \<le> 518 * 1024" using e by (intro mult_le_mono1)
  have c518: "c < 518"
  proof (rule ccontr)
    assume "\<not> c < 518"
    then have "518 * 1024 \<le> c * 1024" by simp
    with pos n le show False by linarith
  qed
  define w where "w = indirect_write_start ?fs c off ?src n t m"
  have idx: "indirect_index c = c - 6" using c c518 by (simp add: indirect_index_nat)
  have w: "ws_locator w = c" "ws_index w = c - 6" "ws_offset w = off" "ws_src w = ?src" "ws_nbyte w = n" "ws_sum w = 0"
    "\<not> ws_full w" "ws_mem w = m" "ws_ptrs w = read_ptrs ?fs t m"
    by (simp_all add: w_def indirect_write_start_def idx)
  define w' where "w' = indirect_write_loop ?fs w"
  have "let w' = indirect_write_loop ?fs w
     in ws_sum w' = ws_sum w + ws_nbyte w \<and> ws_nbyte w' = 0 \<and> \<not> ws_full w' \<and> length (ws_ptrs w') = 512 \<and>
        wrote T (file_map ino (ws_ptrs w)) (ws_mem w) pos (pos + ws_nbyte w) data
          T (file_map ino (ws_ptrs w')) (ws_mem w')"
    by (rule indirect_write_loop_alloc [OF e]) (use w ok c c518 off pos free in \<open>simp_all add: read_ptrs_def\<close>)
  then have W: "ws_sum w' = n" "ws_nbyte w' = 0" "length (ws_ptrs w') = 512"
    "wrote T (file_map ino (read_ptrs ?fs t m)) m pos (pos + n) data T (file_map ino (ws_ptrs w')) (ws_mem w')"
    using w by (simp_all add: Let_def w'_def)
  have t65: "t < 65528" using blocks_okD(3) [OF ok t] by simp
  let ?m' = "put_block t (ptrs_bytes (ws_ptrs w')) (ws_mem w')"
  have "wrote T (file_map ino (ws_ptrs w')) (ws_mem w') (pos + n) (pos + n) data T (file_map ino (ws_ptrs w')) ?m'"
    using W(3) by (intro wrote_table_store [OF wrote_ok [OF W(4)] t]) simp
  with W(4) have "wrote T (file_map ino (read_ptrs ?fs t m)) m pos (pos + n) data T (file_map ino (ws_ptrs w')) ?m'"
    by (rule wrote_trans) (use pos le in simp_all)
  moreover have "read_ptrs ?fs t ?m' = ws_ptrs w'" using W(3) t65 by (simp add: read_ptrs_put)
  moreover have "write_indirect_block ?fs ino c off ?src n t m = Some (n, ino, ?m')"
    using W t65 by (subst write_indirect_block.simps)
      (simp add: w_def [symmetric] w'_def [symmetric] Let_def write_ptrs_def)
  ultimately show ?thesis by metis
qed

section \<open>\<^verbatim>\<open>write_direct_block\<close>\<close>

definition map_of_file :: "F19FS_t \<Rightarrow> inode_t \<Rightarrow> mem \<Rightarrow> nat \<Rightarrow> nat" where
  "map_of_file fs ino m = file_map ino (indirect_ptrs fs ino m)"

lemma direct_round:
  fixes h :: int
  assumes wf: "inode_wf ino" and ok: "blocks_ok (tables ino) (map_of_file (the_fs h) ino m) m"
    and c: "c < 6" and off: "off < 1024" and n: "0 < n" and pos: "pos = c * 1024 + off"
    and hole: "map_of_file (the_fs h) ino m c = 0 \<Longrightarrow> off = 0 \<and> 0 < free_blocks m"
  defines "k \<equiv> min (1024 - off) n"
  shows "\<exists>dp m1. write_direct_one (the_fs h) ino c off (\<lambda>i. data (pos + i)) k m = (Some (ino\<lparr>directPointer := dp\<rparr>), m1) \<and>
    length dp = 6 \<and>
    wrote (tables ino) (map_of_file (the_fs h) ino m) m pos (pos + k) data
      (tables ino) (map_of_file (the_fs h) (ino\<lparr>directPointer := dp\<rparr>) m1) m1 \<and>
    free_blocks m1 = free_blocks m - (if map_of_file (the_fs h) ino m c = 0 then 1 else 0)"
proof -
  let ?fs = "the_fs h" and ?B = "map_of_file (the_fs h) ino m"
  have c518: "c < 518" using c by simp
  have Bc: "?B c = unat (directPointer ino ! c)" by (simp add: map_of_file_def file_map_def c)
  have len: "length (directPointer ino) = 6" using wf by (simp add: inode_wf_def)
  have k: "0 < k" "off + k \<le> 1024" using off n by (auto simp: k_def)
  note tb = blocks_ok_tables [OF ok]
  have bytes: "src_bytes (\<lambda>i. data (pos + i)) k ! i = data (pos + i)" if "i < k" for i
    using that by (rule nth_src_bytes)
  show ?thesis
  proof (cases "?B c = 0")
    case False
    have lt: "?B c < 65528" "?B c \<notin> tables ino" using blocks_okD(1) [OF ok c518 False] by simp_all
    let ?m1 = "put_block (?B c) (buf_write (get_block m (?B c)) off (src_bytes (\<lambda>i. data (pos + i)) k)) m"
    have len': "length (buf_write (get_block m (?B c)) off (src_bytes (\<lambda>i. data (pos + i)) k)) = 1024" using k by simp
    have one: "write_direct_one ?fs ino c off (\<lambda>i. data (pos + i)) k m = (Some (ino\<lparr>directPointer := directPointer ino\<rparr>), ?m1)"
      using False lt Bc by (auto simp: write_direct_one_def Let_def)
    have "indirect_ptrs ?fs ino ?m1 = indirect_ptrs ?fs ino m"
      using lt tb by (intro indirect_ptrs_same) (auto simp: tables_def get_put_block [OF len'])
    then have "map_of_file ?fs (ino\<lparr>directPointer := directPointer ino\<rparr>) ?m1 = ?B" by (simp add: map_of_file_def)
    then show ?thesis
      using one len False lt wrote_present [OF ok c518 False k pos bytes length_src_bytes]
      by (intro exI [of _ "directPointer ino"] exI [of _ ?m1]) simp
  next
    case True
    then have z: "directPointer ino ! c = 0" and off0: "off = 0" using Bc hole by (simp_all add: unat_eq_zero)
    obtain nid where nid: "block_store_allocate (Some (whole_store h)) m = (nid, bitmap_set whole_bm nid m)"
      "nid < 65528" "\<not> bitmap_test whole_bm nid m"
      using allocate_free hole True by blast
    let ?dp = "(directPointer ino)[c := of_nat nid]" and ?buf = "src_bytes (\<lambda>i. data (pos + i)) 1024"
    let ?m1 = "put_block nid ?buf (bitmap_set whole_bm nid m)"
    have one: "write_direct_one ?fs ino c off (\<lambda>i. data (pos + i)) k m = (Some (ino\<lparr>directPointer := ?dp\<rparr>), ?m1)"
      using nid z by (simp add: write_direct_one_def Let_def)
    have nt: "nid \<notin> tables ino" using blocks_okD(3) [OF ok, of nid] nid(3) by blast
    have "indirect_ptrs ?fs (ino\<lparr>directPointer := ?dp\<rparr>) ?m1 = indirect_ptrs ?fs ino m"
      using nt tb blocks_okD(3) [OF ok] by (intro indirect_ptrs_same) (auto simp: tables_def get_put_block get_block_alloc)
    then have "map_of_file ?fs (ino\<lparr>directPointer := ?dp\<rparr>) ?m1 = ?B(c := nid)"
      using len c nid(2) by (auto simp: map_of_file_def file_map_def fun_eq_iff unat_of_nat nth_list_update)
    moreover have "?buf ! (off + i) = data (pos + i)" if "i < k" for i
      using that k off0 by (simp add: nth_src_bytes)
    ultimately show ?thesis
      using one len nid True wrote_hole [OF ok c518 True k pos nid(2,3), of ?buf data]
      by (intro exI [of _ ?dp] exI [of _ ?m1]) (simp add: free_blocks_set)
  qed
qed

text \<open>The three starting points of \<^verbatim>\<open>fs_write\<close>.\<close>

definition write_from ::
    "F19FS_t \<Rightarrow> inode_t \<Rightarrow> nat \<Rightarrow> nat \<Rightarrow> (nat \<Rightarrow> byte) \<Rightarrow> nat \<Rightarrow> mem \<Rightarrow> (nat \<times> inode_t \<times> mem) option" where
  "write_from fs ino c off src n m =
     (if c < 6 then write_direct_block fs ino c off src n m
      else if 518 \<le> c then write_double_direct_block fs ino c off src n m
      else (case indirect_block_of fs ino m of
              (None, ino1, m1) \<Rightarrow> Some (0, ino1, m1)
            | (Some t, ino1, m1) \<Rightarrow> write_indirect_block fs ino1 c off src n t m1))"

definition blocks_needed :: "F19FS_t \<Rightarrow> inode_t \<Rightarrow> mem \<Rightarrow> nat \<Rightarrow> nat \<Rightarrow> nat" where
  "blocks_needed fs ino m c e =
     holes (map_of_file fs ino m) c e + (if indirectPointer ino = 0 \<and> 6 < e then 1 else 0)"

definition same_but_blocks :: "inode_t \<Rightarrow> inode_t \<Rightarrow> bool" where
  "same_but_blocks ino ino' \<longleftrightarrow> inode_wf ino' \<and>
     (\<exists>dp ip. ino' = ino\<lparr>directPointer := dp, indirectPointer := ip\<rparr>)"

lemma write_from_indirect:
  fixes h :: int
  assumes wf: "inode_wf ino" and ok: "blocks_ok (tables ino) (map_of_file (the_fs h) ino m) m" and c: "6 \<le> c" and off: "off < 1024"
    and n: "0 < n" and e: "e \<le> 518" and pos: "pos = c * 1024 + off" "pos + n \<le> e * 1024"
    and free: "blocks_needed (the_fs h) ino m c e \<le> free_blocks m"
  shows "\<exists>ino' m'. write_from (the_fs h) ino c off (\<lambda>i. data (pos + i)) n m = Some (n, ino', m') \<and>
    same_but_blocks ino ino' \<and>
    wrote (tables ino) (map_of_file (the_fs h) ino m) m pos (pos + n) data
      (tables ino') (map_of_file (the_fs h) ino' m') m'"
proof -
  let ?fs = "the_fs h" and ?B = "map_of_file (the_fs h) ino m"
  have le: "e * 1024 \<le> 518 * 1024" using e by (intro mult_le_mono1)
  have c518: "c < 518"
  proof (rule ccontr)
    assume "\<not> c < 518"
    then have "518 * 1024 \<le> c * 1024" by simp
    with pos n le show False by linarith
  qed
  show ?thesis
  proof (cases "indirectPointer ino = 0")
    case False
    let ?t = "unat (indirectPointer ino)"
    have B: "map_of_file ?fs ino m' = file_map ino (read_ptrs ?fs ?t m')" for m'
      using False by (simp add: map_of_file_def indirect_ptrs_def)
    have t: "tables ino = {?t}" using False by (simp add: tables_def)
    have hs: "holes (file_map ino (read_ptrs ?fs ?t m)) c e \<le> free_blocks m"
      using free unfolding blocks_needed_def B by simp
    obtain m' where m': "write_indirect_block ?fs ino c off (\<lambda>i. data (pos + i)) n ?t m = Some (n, ino, m')"
      "wrote (tables ino) ?B m pos (pos + n) data (tables ino) (map_of_file ?fs ino m') m'"
      using write_indirect_alloc [OF ok [unfolded B] _ c off n e pos hs, of data] t unfolding B by blast
    have "same_but_blocks ino ino" unfolding same_but_blocks_def
      using wf by (intro conjI exI [of _ "directPointer ino"] exI [of _ "indirectPointer ino"]) simp_all
    with False c c518 m' show ?thesis
      by (intro exI [of _ ino] exI [of _ m']) (simp add: write_from_def indirect_block_of_def)
  next
    case True
    have "6 < e"
    proof (rule ccontr)
      assume "\<not> 6 < e"
      then have "e * 1024 \<le> c * 1024" using c by simp
      with pos n show False by linarith
    qed
    then have need: "holes ?B c e + 1 \<le> free_blocks m" using True free by (simp add: blocks_needed_def)
    then have f0: "0 < free_blocks m" by simp
    obtain nid where nid: "block_store_allocate (Some (whole_store h)) m = (nid, bitmap_set whole_bm nid m)"
      "nid < 65528" "\<not> bitmap_test whole_bm nid m"
      using allocate_free [OF f0] by blast
    let ?m1 = "put_block nid zero_block (bitmap_set whole_bm nid m)" and ?ino1 = "ino\<lparr>indirectPointer := of_nat nid\<rparr>"
    have "nid \<noteq> 0" using blocks_okD(4) [OF ok, of 0] nid(3) by (metis zero_less_numeral)
    then have p0: "of_nat nid \<noteq> (0 :: uint16_t)" and un: "unat (of_nat nid :: uint16_t) = nid"
      using nid(2) by (simp_all add: word_unat_eq_iff unat_of_nat)
    have rp: "read_ptrs ?fs nid ?m1 = replicate 512 0"
      using nid(2) by (simp add: read_ptrs_def get_put_block zero_block_ptrs)
    have T1: "tables ?ino1 = {nid}" "tables ino = {}" using p0 un True by (simp_all add: tables_def)
    have B1: "map_of_file ?fs ?ino1 m' = file_map ?ino1 (read_ptrs ?fs nid m')" for m'
      using p0 un by (simp add: map_of_file_def indirect_ptrs_def)
    have BB: "file_map ?ino1 (read_ptrs ?fs nid ?m1) = ?B"
      using True by (simp add: rp map_of_file_def indirect_ptrs_def file_map_def fun_eq_iff)
    have w1: "wrote (tables ino) ?B m pos pos data (tables ?ino1) (file_map ?ino1 (read_ptrs ?fs nid ?m1)) ?m1"
      unfolding BB T1 by (rule wrote_table [OF ok [unfolded T1] nid(2,3)]) simp
    have hs: "holes (file_map ?ino1 (read_ptrs ?fs nid ?m1)) c e \<le> free_blocks ?m1"
      unfolding BB using need nid by (simp add: free_blocks_set)
    have nT: "nid \<in> tables ?ino1" by (simp add: T1)
    obtain m' where m': "write_indirect_block ?fs ?ino1 c off (\<lambda>i. data (pos + i)) n nid ?m1 = Some (n, ?ino1, m')"
      "wrote (tables ?ino1) (file_map ?ino1 (read_ptrs ?fs nid ?m1)) ?m1 pos (pos + n) data (tables ?ino1)
        (map_of_file ?fs ?ino1 m') m'"
      using write_indirect_alloc [OF wrote_ok [OF w1] nT c off n e pos hs, of data] unfolding B1 by blast
    have "wrote (tables ino) ?B m pos (pos + n) data (tables ?ino1) (map_of_file ?fs ?ino1 m') m'"
      by (rule wrote_trans [OF w1 m'(2)]) (use pos le in simp_all)
    moreover have "same_but_blocks ino ?ino1" unfolding same_but_blocks_def
      using wf by (intro conjI exI [of _ "directPointer ino"] exI [of _ "of_nat nid"]) (simp_all add: inode_wf_def)
    moreover have "nid \<noteq> SIZE_MAX" using nid(2) by simp
    ultimately show ?thesis
      using True c c518 m' nid
      by (intro exI [of _ ?ino1] exI [of _ m'])
        (simp add: write_from_def indirect_block_of_def allocate_indirectPtr_block_def Let_def)
  qed
qed

lemma same_but_blocks_trans:
  "same_but_blocks (ino\<lparr>directPointer := dp\<rparr>) ino' \<Longrightarrow> same_but_blocks ino ino'"
  unfolding same_but_blocks_def by auto

lemma write_from_alloc:
  fixes h :: int
  assumes e: "e \<le> 518"
  shows "inode_wf ino \<Longrightarrow> blocks_ok (tables ino) (map_of_file (the_fs h) ino m) m \<Longrightarrow> off < 1024 \<Longrightarrow>
    0 < n \<Longrightarrow> pos = c * 1024 + off \<Longrightarrow> pos + n \<le> e * 1024 \<Longrightarrow> blocks_needed (the_fs h) ino m c e \<le> free_blocks m \<Longrightarrow>
    (c < 6 \<Longrightarrow> map_of_file (the_fs h) ino m c = 0 \<Longrightarrow> off = 0) \<Longrightarrow>
    \<exists>ino' m'. write_from (the_fs h) ino c off (\<lambda>i. data (pos + i)) n m = Some (n, ino', m') \<and>
      same_but_blocks ino ino' \<and>
      wrote (tables ino) (map_of_file (the_fs h) ino m) m pos (pos + n) data
        (tables ino') (map_of_file (the_fs h) ino' m') m'"
proof (induction "6 - c" arbitrary: c off n ino m pos)
  case 0
  then show ?case by (intro write_from_indirect [OF _ _ _ _ _ e]) simp_all
next
  case (Suc x)
  let ?fs = "the_fs h" and ?B = "map_of_file (the_fs h) ino m" and ?src = "\<lambda>i. data (pos + i)"
  have c: "c < 6" "c < 518" using Suc.hyps(2) by simp_all
  have ce: "c < e"
  proof (rule ccontr)
    assume "\<not> c < e"
    then have "e * 1024 \<le> c * 1024" by simp
    with Suc.prems(4,5,6) show False by linarith
  qed
  have le: "e * 1024 \<le> 518 * 1024" using e by (intro mult_le_mono1)
  have hole: "?B c = 0 \<Longrightarrow> off = 0 \<and> 0 < free_blocks m"
    using Suc.prems(7,8) c holes_step [OF ce, of ?B] by (auto simp: blocks_needed_def)
  define k where "k = min (1024 - off) n"
  have bs: "blank_space off n = k" using Suc.prems(3) by (simp add: blank_space_eq k_def)
  obtain dp m1 where R: "write_direct_one ?fs ino c off ?src k m = (Some (ino\<lparr>directPointer := dp\<rparr>), m1)"
    "length dp = 6"
    "wrote (tables ino) ?B m pos (pos + k) data (tables ino) (map_of_file ?fs (ino\<lparr>directPointer := dp\<rparr>) m1) m1"
    "free_blocks m1 = free_blocks m - (if ?B c = 0 then 1 else 0)"
    using direct_round [OF Suc.prems(1,2) c(1) Suc.prems(3,4,5) hole, of data, folded k_def] by blast
  let ?ino1 = "ino\<lparr>directPointer := dp\<rparr>"
  have wf1: "inode_wf ?ino1" using Suc.prems(1) R(2) by (simp add: inode_wf_def)
  have T1: "tables ?ino1 = tables ino" by (simp add: tables_def)
  show ?case
  proof (cases "n - k = 0")
    case True
    then have kn: "k = n" by (simp add: k_def)
    have "write_from ?fs ino c off ?src n m = Some (n, ?ino1, m1)"
      using c R(1) by (simp add: write_from_def write_direct_block.simps [of _ _ c] bs [unfolded kn] kn)
    moreover have "same_but_blocks ino ?ino1" unfolding same_but_blocks_def
      using wf1 by (intro conjI exI [of _ dp] exI [of _ "indirectPointer ino"]) simp_all
    ultimately show ?thesis using R(3) unfolding kn T1 [symmetric] by (intro exI [of _ ?ino1] exI [of _ m1]) simp
  next
    case False
    have k: "k = 1024 - off" "k < n" using False by (auto simp: k_def min_def split: if_splits)
    have pos: "pos + k = (c + 1) * 1024 + 0" using Suc.prems(3,5) k by simp
    have fit: "pos + k + (n - k) \<le> e * 1024" using Suc.prems(6) k by simp
    have hs: "holes (map_of_file ?fs ?ino1 m1) (Suc c) e = holes ?B (Suc c) e"
    proof (rule holes_cong)
      fix b assume b: "Suc c \<le> b" "b < e"
      have "pos + k = Suc c * 1024" using pos by simp
      also have "\<dots> \<le> b * 1024" using b(1) by (intro mult_le_mono1)
      finally show "map_of_file ?fs ?ino1 m1 b = ?B b" using b e by (intro wrote_range [OF R(3)]) simp_all
    qed
    have need: "blocks_needed ?fs ?ino1 m1 (c + 1) e \<le> free_blocks m1"
      using Suc.prems(7) holes_step [OF ce, of ?B] unfolding R(4) blocks_needed_def Suc_eq_plus1 [symmetric] hs by auto
    have IH: "\<exists>ino' m'. write_from ?fs ?ino1 (c + 1) 0 (\<lambda>i. data (pos + k + i)) (n - k) m1 = Some (n - k, ino', m') \<and>
      same_but_blocks ?ino1 ino' \<and>
      wrote (tables ?ino1) (map_of_file ?fs ?ino1 m1) m1 (pos + k) (pos + k + (n - k)) data
        (tables ino') (map_of_file ?fs ino' m') m'"
      using Suc.hyps(2) k by (intro Suc.hyps(1) [OF _ wf1 _ _ _ pos fit need]) (simp_all add: T1 wrote_ok [OF R(3)])
    then obtain ino' m' where I:
      "write_from ?fs ?ino1 (c + 1) 0 (\<lambda>i. data (pos + k + i)) (n - k) m1 = Some (n - k, ino', m')"
      "same_but_blocks ?ino1 ino'"
      "wrote (tables ino) (map_of_file ?fs ?ino1 m1) m1 (pos + k) (pos + n) data (tables ino') (map_of_file ?fs ino' m') m'"
      unfolding T1 using k by auto
    have "wrote (tables ino) ?B m pos (pos + n) data (tables ino') (map_of_file ?fs ino' m') m'"
      by (rule wrote_trans [OF R(3) I(3)]) (use Suc.prems(6) k le in simp_all)
    moreover have "write_from ?fs ino c off ?src n m = Some (n, ino', m')"
      using c k(2) R(1) I(1)
      by (auto simp: write_from_def write_direct_block.simps [of _ _ c] bs src_advance_fun Let_def
          split: option.splits prod.splits if_splits)
    ultimately show ?thesis using same_but_blocks_trans [OF I(2)] by blast
  qed
qed

section \<open>\<^verbatim>\<open>fs_write\<close>\<close>

text \<open>What \<^verbatim>\<open>fs_write\<close> leaves behind, from the result of the transfer.\<close>

definition write_done :: "nat \<Rightarrow> nat \<Rightarrow> inode_t \<Rightarrow> nat \<Rightarrow> mem \<Rightarrow> mem" where
  "write_done f i ino k m =
     put_inode i (ino\<lparr>fileSize := fileSize ino + of_nat k\<rparr>) (put_fd f (updateFD (get_fd m f) (int k)) m)"

lemma get_fd_Image: "m' FdData = m FdData \<Longrightarrow> get_fd m' f = get_fd m f"
  by (simp add: get_fd_def mread_def)

lemma fs_write_from:
  fixes m :: mem
  assumes f: "f < 256" "bitmap_test fd_bm f m"
  defines "d \<equiv> get_fd m f" and "i \<equiv> unat (inodeNum (get_fd m f))"
  assumes w: "write_from (the_fs h) (get_inode m i) (unat (locate_order d)) (unat (locate_offset d)) src n m = Some (k, ino', m')"
    and k: "0 < k" and wf: "inode_wf ino'" and fd: "m' FdData = m FdData"
  shows "fs_write (Some (the_fs h)) (int f) (Some src) n m = Some (int k, write_done f i ino' k m')"
proof -
  have i: "i < 256" using unsigned_less [of "inodeNum d", where 'a = nat] by (simp add: i_def d_def)
  have wf': "inode_wf (ino'\<lparr>fileSize := fileSize ino' + of_nat k\<rparr>)" using wf by (simp add: inode_wf_def)
  have n: "inodeNum (updateFD d (int k)) = inodeNum d" by (simp add: updateFD_def Let_def)
  have fdm: "get_fd m' f = d" unfolding d_def by (rule get_fd_Image) (rule fd)
  have guard: "\<not> (Some (the_fs h) = None \<or> int f < 0 \<or> 256 \<le> int f \<or> Some src = None)" using f by simp
  show ?thesis
  proof (cases "unat (locate_order d) < 6")
    case True
    then show ?thesis
      using f i w wf' n fdm
      by (simp add: fs_write_def block_store_get_bm_def Let_def write_from_def d_def [symmetric] i_def [symmetric, folded d_def]
          write_done_def)
  next
    case False
    then show ?thesis
      using f i w wf' n fdm k
      by (auto simp: fs_write_def block_store_get_bm_def Let_def write_from_def d_def [symmetric] i_def [symmetric, folded d_def]
          write_done_def split: option.splits prod.splits if_splits)
  qed
qed

definition file_ok :: "F19FS_t \<Rightarrow> mem \<Rightarrow> nat \<Rightarrow> bool" where
  "file_ok fs m i \<longleftrightarrow> blocks_ok (tables (get_inode m i)) (map_of_file fs (get_inode m i) m) m"

text \<open>A file is read from its pointers and from the data blocks alone.\<close>

lemma map_of_file_cong:
  assumes "directPointer ino' = directPointer ino" "indirectPointer ino' = indirectPointer ino"
    and "\<And>t. t \<in> tables ino \<Longrightarrow> get_block m' t = get_block m t" and "tables ino \<subseteq> {..65528}"
  shows "map_of_file (the_fs h) ino' m' = map_of_file (the_fs h) ino m"
proof -
  have "indirect_ptrs (the_fs h) ino' m' = indirect_ptrs (the_fs h) ino m"
    using assms by (intro indirect_ptrs_same) (simp_all add: tables_def)
  with assms(1) show ?thesis by (simp add: map_of_file_def file_map_def fun_eq_iff)
qed

lemma blocks_ok_cong:
  "(\<And>j. j < 65528 \<Longrightarrow> bitmap_test whole_bm j m' = bitmap_test whole_bm j m) \<Longrightarrow> blocks_ok T B m \<Longrightarrow> blocks_ok T B m'"
  unfolding blocks_ok_def by simp

lemma same_but_blocksD:
  assumes "same_but_blocks ino ino'"
  shows "inode_wf ino'" "fileType ino' = fileType ino" "fileSize ino' = fileSize ino" "linkCount ino' = linkCount ino"
    "inodeNumber ino' = inodeNumber ino" "vacantFile ino' = vacantFile ino" "owner ino' = owner ino"
    "doubleIndirectPointer ino' = doubleIndirectPointer ino"
  using assms by (auto simp: same_but_blocks_def)

lemma file_byte_map: "p < 518 * 1024 \<Longrightarrow> file_byte fs ino m p = block_byte (map_of_file fs ino m) m p"
  by (simp add: file_byte_def block_byte_def file_block_map map_of_file_def less_mult_imp_div_less)

lemma write_done_blocks:
  assumes "inode_wf ino" "i < 256"
  shows "17 \<le> j \<Longrightarrow> get_block (write_done f i ino k m) j = get_block m j"
    and "bitmap_test whole_bm j (write_done f i ino k m) = bitmap_test whole_bm j m"
    and "i' < 256 \<Longrightarrow> get_inode (write_done f i ino k m) i' =
      (if i = i' then ino\<lparr>fileSize := fileSize ino + of_nat k\<rparr> else get_inode m i')"
    and "j < 256 \<Longrightarrow> bitmap_test inode_bm j (write_done f i ino k m) = bitmap_test inode_bm j m"
    and "get_fd (write_done f i ino k m) g = (if f = g then updateFD (get_fd m f) (int k) else get_fd m g)"
    and "bitmap_test fd_bm g (write_done f i ino k m) = bitmap_test fd_bm g m"
proof -
  let ?ino = "ino\<lparr>fileSize := fileSize ino + of_nat k\<rparr>"
  have wf: "inode_wf ?ino" using assms(1) by (simp add: inode_wf_def)
  have img: "put_fd f d m Image = m Image" for d by (rule image_fd)
  have b: "get_block (put_fd f d m) j = get_block m j" for d j using img by (simp add: get_block_def mread_def)
  have w: "bitmap_test whole_bm j (put_fd f d m) = bitmap_test whole_bm j m" for d j
    by (simp add: put_fd_def bitmap_test_mwrite)
  have ib: "bitmap_test inode_bm j (put_fd f d m) = bitmap_test inode_bm j m" for d j
    by (simp add: put_fd_def bitmap_test_mwrite)
  show "17 \<le> j \<Longrightarrow> get_block (write_done f i ino k m) j = get_block m j"
    using wf assms(2) by (simp add: write_done_def get_block_put_inode b)
  show "bitmap_test whole_bm j (write_done f i ino k m) = bitmap_test whole_bm j m"
    using wf assms(2) by (simp add: write_done_def whole_test_put_inode w)
  show "i' < 256 \<Longrightarrow> get_inode (write_done f i ino k m) i' = (if i = i' then ?ino else get_inode m i')"
    using wf by (simp add: write_done_def get_put_inode get_inode_fd)
  show "j < 256 \<Longrightarrow> bitmap_test inode_bm j (write_done f i ino k m) = bitmap_test inode_bm j m"
    by (simp add: write_done_def inode_test_put_inode ib)
  have o: "put_inode i x y FdData = y FdData" "put_inode i x y FdBits = y FdBits" for x y
    by (simp_all add: put_inode_def mwrite_def)
  show "get_fd (write_done f i ino k m) g = (if f = g then updateFD (get_fd m f) (int k) else get_fd m g)"
  proof -
    have "get_fd (write_done f i ino k m) g = get_fd (put_fd f (updateFD (get_fd m f) (int k)) m) g"
      unfolding write_done_def by (rule get_fd_Image) (rule o(1))
    then show ?thesis by (simp add: get_put_fd)
  qed
  show "bitmap_test fd_bm g (write_done f i ino k m) = bitmap_test fd_bm g m"
    using fd_test_put_fd by (simp add: write_done_def put_inode_def bitmap_test_mwrite)
qed

lemma fs_write_result:
  fixes h :: int
  assumes f: "f < 256" "bitmap_test fd_bm f m"
  defines "d \<equiv> get_fd m f" and "i \<equiv> unat (inodeNum (get_fd m f))"
  defines "pos \<equiv> cursor_pos d" and "ino \<equiv> get_inode m i"
  assumes cur: "cursor_ok d" and n: "0 < n" "pos + n \<le> e * 1024" "e \<le> 518" and ok: "file_ok (the_fs h) m i"
    and free: "blocks_needed (the_fs h) ino m (unat (locate_order d)) e \<le> free_blocks m"
    and hole: "unat (locate_order d) < 6 \<Longrightarrow> file_block (the_fs h) ino m (unat (locate_order d)) = 0 \<Longrightarrow> unat (locate_offset d) = 0"
  shows "\<exists>ino' m1 m'. fs_write (Some (the_fs h)) (int f) (Some src) n m = Some (int n, m') \<and> m' = write_done f i ino' n m1 \<and>
    same_but_blocks ino ino' \<and>
    wrote (tables ino) (map_of_file (the_fs h) ino m) m pos (pos + n) (\<lambda>p. src (p - pos))
      (tables ino') (map_of_file (the_fs h) ino' m1) m1"
proof -
  let ?fs = "the_fs h" and ?c = "unat (locate_order d)" and ?data = "\<lambda>p. src (p - pos)"
  have le: "e * 1024 \<le> 518 * 1024" using n(3) by (intro mult_le_mono1)
  have pos: "pos = ?c * 1024 + unat (locate_offset d)" by (simp add: pos_def cursor_pos_def)
  have c518: "?c < 518"
  proof (rule ccontr)
    assume "\<not> ?c < 518"
    then have "518 * 1024 \<le> ?c * 1024" by simp
    with pos n le show False by linarith
  qed
  have ok': "blocks_ok (tables ino) (map_of_file ?fs ino m) m" using ok by (simp add: file_ok_def ino_def)
  have off: "unat (locate_offset d) < 1024" using cur by (simp add: cursor_ok_def)
  have hole': "?c < 6 \<Longrightarrow> map_of_file ?fs ino m ?c = 0 \<Longrightarrow> unat (locate_offset d) = 0"
    using hole file_block_map [of ?c ?fs ino m] by (simp add: map_of_file_def)
  have wf: "inode_wf ino" by (simp add: ino_def)
  obtain ino' m1 where W: "write_from ?fs ino ?c (unat (locate_offset d)) (\<lambda>i. ?data (pos + i)) n m = Some (n, ino', m1)"
    "same_but_blocks ino ino'"
    "wrote (tables ino) (map_of_file ?fs ino m) m pos (pos + n) ?data (tables ino') (map_of_file ?fs ino' m1) m1"
    using write_from_alloc [OF n(3) wf ok' off n(1) pos n(2) free hole', of ?data] by blast
  have src: "(\<lambda>i. ?data (pos + i)) = src" by simp
  have "fs_write (Some ?fs) (int f) (Some src) n m = Some (int n, write_done f i ino' n m1)"
    unfolding i_def
    by (rule fs_write_from [OF f]) (use W n(1) same_but_blocksD [OF W(2)] wrote_objects [OF W(3)]
        in \<open>simp_all add: src d_def i_def ino_def\<close>)
  with W show ?thesis by blast
qed

text \<open>The same in terms of the file.\<close>

lemma fs_write_bytes:
  fixes h :: int
  assumes f: "f < 256" "bitmap_test fd_bm f m"
  defines "d \<equiv> get_fd m f" and "i \<equiv> unat (inodeNum (get_fd m f))"
  defines "pos \<equiv> cursor_pos d" and "ino \<equiv> get_inode m i"
  assumes cur: "cursor_ok d" and n: "0 < n" "pos + n \<le> e * 1024" "e \<le> 518" and ok: "file_ok (the_fs h) m i"
    and free: "blocks_needed (the_fs h) ino m (unat (locate_order d)) e \<le> free_blocks m"
    and hole: "unat (locate_order d) < 6 \<Longrightarrow> file_block (the_fs h) ino m (unat (locate_order d)) = 0 \<Longrightarrow> unat (locate_offset d) = 0"
  shows "\<exists>m' ino'. fs_write (Some (the_fs h)) (int f) (Some src) n m = Some (int n, m') \<and> get_inode m' i = ino' \<and>
    fileSize ino' = fileSize ino + of_nat n \<and> fileType ino' = fileType ino \<and> file_ok (the_fs h) m' i \<and>
    (\<forall>p. pos \<le> p \<and> p < pos + n \<longrightarrow> file_block (the_fs h) ino' m' (p div 1024) \<noteq> 0 \<and>
       file_byte (the_fs h) ino' m' p = src (p - pos)) \<and>
    (\<forall>p<518 * 1024. \<not> (pos \<le> p \<and> p < pos + n) \<and> file_block (the_fs h) ino m (p div 1024) \<noteq> 0 \<longrightarrow>
       file_byte (the_fs h) ino' m' p = file_byte (the_fs h) ino m p) \<and>
    (\<forall>j<65528. 17 \<le> j \<and> bitmap_test whole_bm j m \<and> j \<notin> tables ino \<and> (\<forall>b<518. file_block (the_fs h) ino m b \<noteq> j) \<longrightarrow>
       get_block m' j = get_block m j) \<and>
    (\<forall>i'<256. i' \<noteq> i \<longrightarrow> get_inode m' i' = get_inode m i') \<and>
    (\<forall>g<256. g \<noteq> f \<longrightarrow> get_fd m' g = get_fd m g) \<and> (\<forall>g<256. bitmap_test fd_bm g m' = bitmap_test fd_bm g m) \<and>
    inodeNum (get_fd m' f) = inodeNum d \<and> cursor_ok (get_fd m' f) \<and> cursor_pos (get_fd m' f) = pos + n"
proof -
  let ?fs = "the_fs h"
  have le: "e * 1024 \<le> 518 * 1024" using n(3) by (intro mult_le_mono1)
  have i: "i < 256" using unsigned_less [of "inodeNum d", where 'a = nat] by (simp add: i_def d_def)
  obtain ino1 m1 where R: "fs_write (Some ?fs) (int f) (Some src) n m = Some (int n, write_done f i ino1 n m1)"
    "same_but_blocks ino ino1"
    "wrote (tables ino) (map_of_file ?fs ino m) m pos (pos + n) (\<lambda>p. src (p - pos)) (tables ino1) (map_of_file ?fs ino1 m1) m1"
    using fs_write_result [OF f, folded d_def i_def, folded pos_def ino_def, OF cur n ok free hole] by blast
  note sb = same_but_blocksD [OF R(2)]
  let ?m' = "write_done f i ino1 n m1" and ?ino' = "ino1\<lparr>fileSize := fileSize ino1 + of_nat n\<rparr>"
  note wd = write_done_blocks [OF sb(1) i, where f = f and k = n and m = m1]
  have T: "tables ?ino' = tables ino1" by (simp add: tables_def)
  have T17: "t \<in> tables ino1 \<Longrightarrow> 17 \<le> t" "tables ino1 \<subseteq> {..65528}" for t
    using blocks_okD(3) [OF wrote_ok [OF R(3)]] blocks_ok_tables [OF wrote_ok [OF R(3)]] by auto
  have M: "map_of_file ?fs ?ino' ?m' = map_of_file ?fs ino1 m1"
    using T17 wd(1) by (intro map_of_file_cong) simp_all
  have fm: "file_block ?fs ?ino' ?m' b = map_of_file ?fs ino1 m1 b" if "b < 518" for b
    using file_block_map [OF that] M by (simp add: map_of_file_def)
  have fm0: "file_block ?fs ino m b = map_of_file ?fs ino m b" if "b < 518" for b
    using file_block_map [OF that] by (simp add: map_of_file_def)
  have gi: "get_inode ?m' i = ?ino'" using wd(3) [OF i] by simp
  have "blocks_ok (tables ino1) (map_of_file ?fs ino1 m1) ?m'"
    by (rule blocks_ok_cong [OF _ wrote_ok [OF R(3)]]) (rule wd(2))
  then have fok: "file_ok ?fs ?m' i" by (simp add: file_ok_def gi T M)
  have bb: "block_byte (map_of_file ?fs ino1 m1) ?m' p = block_byte (map_of_file ?fs ino1 m1) m1 p"
    if "p < 518 * 1024" "map_of_file ?fs ino1 m1 (p div 1024) \<noteq> 0" for p
  proof -
    have "17 \<le> map_of_file ?fs ino1 m1 (p div 1024)"
      using blocks_okD(1) [OF wrote_ok [OF R(3)] less_mult_imp_div_less [OF that(1)] that(2)] by blast
    then show ?thesis unfolding block_byte_def by (subst wd(1)) simp_all
  qed
  have data: "file_block ?fs ?ino' ?m' (p div 1024) \<noteq> 0 \<and> file_byte ?fs ?ino' ?m' p = src (p - pos)"
    if p: "pos \<le> p" "p < pos + n" for p
  proof -
    have p518: "p < 518 * 1024" using p n le by linarith
    then have "p div 1024 < 518" by (simp add: less_mult_imp_div_less)
    then show ?thesis using wrote_data [OF R(3) p] fm bb [OF p518] file_byte_map [OF p518] M by simp
  qed
  have rest: "file_byte ?fs ?ino' ?m' p = file_byte ?fs ino m p"
    if p: "p < 518 * 1024" "\<not> (pos \<le> p \<and> p < pos + n)" "file_block ?fs ino m (p div 1024) \<noteq> 0" for p
  proof -
    have d518: "p div 1024 < 518" using p(1) by (simp add: less_mult_imp_div_less)
    then have nz: "map_of_file ?fs ino m (p div 1024) \<noteq> 0" using p(3) fm0 by simp
    then have "map_of_file ?fs ino1 m1 (p div 1024) \<noteq> 0" using wrote_keeps [OF R(3) d518] by simp
    then show ?thesis
      using wrote_rest [OF R(3) p(1,2) nz] bb [OF p(1)] file_byte_map [OF p(1)] M by simp
  qed
  have frame: "get_block ?m' j = get_block m j"
    if "j < 65528" "17 \<le> j" "bitmap_test whole_bm j m" "j \<notin> tables ino" "\<forall>b<518. file_block ?fs ino m b \<noteq> j" for j
    using wrote_frame [OF R(3) that(1,3,4)] that fm0 wd(1) by simp
  have inos: "get_inode ?m' i' = get_inode m i'" if "i' < 256" "i' \<noteq> i" for i'
    using wd(3) [OF that(1)] wrote_inodes [OF R(3)] that by simp
  have fd1: "get_fd m1 g = get_fd m g" for g using wrote_objects [OF R(3), of FdData] by (intro get_fd_Image) simp_all
  have fds: "get_fd ?m' g = get_fd m g" if "g \<noteq> f" for g using wd(5) that fd1 by simp
  have fb: "bitmap_test fd_bm g ?m' = bitmap_test fd_bm g m" for g
    using wd(6) wrote_objects [OF R(3), of FdBits]
    by (simp add: bitmap_test_bit byte_at_def bitmap_byte_def fd_bm_def bitmap_struct_def padd_def)
  have "pos + n < 2 ^ 26" using n le by simp
  then have cu: "cursor_ok (get_fd ?m' f)" "cursor_pos (get_fd ?m' f) = pos + n" "inodeNum (get_fd ?m' f) = inodeNum d"
    using wd(5) fd1 updateFD_advances [OF cur, of n] by (simp_all add: d_def pos_def)
  show ?thesis
    using R(1) gi sb fok data rest frame inos fds fb cu
    by (intro exI [of _ ?m'] exI [of _ ?ino']) simp
qed

section \<open>Write, seek back, read\<close>

lemma fs_write_seek_read:
  fixes h :: int
  assumes f: "f < 256" "bitmap_test fd_bm f m"
  defines "d \<equiv> get_fd m f" and "i \<equiv> unat (inodeNum (get_fd m f))"
  defines "pos \<equiv> cursor_pos d" and "ino \<equiv> get_inode m i"
  assumes cur: "cursor_ok d" and n: "0 < n" "pos + n \<le> e * 1024" "e \<le> 518" and ok: "file_ok (the_fs h) m i"
    and free: "blocks_needed (the_fs h) ino m (unat (locate_order d)) e \<le> free_blocks m"
    and size: "pos \<le> unat (fileSize ino)" "unat (fileSize ino) + n < 2 ^ 26"
    and hole: "unat (locate_order d) < 6 \<Longrightarrow> file_block (the_fs h) ino m (unat (locate_order d)) = 0 \<Longrightarrow> unat (locate_offset d) = 0"
  shows "\<exists>m1 m2 m3. fs_write (Some (the_fs h)) (int f) (Some src) n m = Some (int n, m1) \<and>
    fs_seek (Some (the_fs h)) (int f) (int pos) FS_SEEK_SET m1 = (int pos, m2) \<and>
    fs_read (Some (the_fs h)) (int f) True n m2 = Some (int n, map src [0..<n], m3)"
proof -
  let ?fs = "the_fs h"
  have le: "e * 1024 \<le> 518 * 1024" using n(3) by (intro mult_le_mono1)
  obtain m1 ino1 where W: "fs_write (Some ?fs) (int f) (Some src) n m = Some (int n, m1)" "get_inode m1 i = ino1"
    "fileSize ino1 = fileSize ino + of_nat n" "file_ok ?fs m1 i"
    "\<forall>p. pos \<le> p \<and> p < pos + n \<longrightarrow> file_block ?fs ino1 m1 (p div 1024) \<noteq> 0 \<and> file_byte ?fs ino1 m1 p = src (p - pos)"
    "\<forall>g<256. bitmap_test fd_bm g m1 = bitmap_test fd_bm g m"
    "inodeNum (get_fd m1 f) = inodeNum d" "cursor_ok (get_fd m1 f)" "cursor_pos (get_fd m1 f) = pos + n"
    using fs_write_bytes [OF f, folded d_def i_def, folded pos_def ino_def, OF cur n ok free hole] by blast
  have i1: "unat (inodeNum (get_fd m1 f)) = i" using W(7) by (simp add: d_def i_def)
  have fb1: "bitmap_test fd_bm f m1" using W(6) f by simp
  have fsz: "fileSize ino1 = of_nat (unat (fileSize ino) + n)" using W(3) by simp
  have ufs: "unat (fileSize ino1) = unat (fileSize ino) + n"
    unfolding fsz using size(2) by (subst unat_of_nat) simp
  have pn: "cursor_pos (get_fd m1 f) < 2 ^ 26" using W(9) n le by simp
  have pos26: "int pos < 2 ^ 62" using n le by simp
  have tgt: "seek_offset FS_SEEK_SET (fileSize ino1) (get_fd m1 f) (int pos) = int pos"
  proof -
    have le: "int pos \<le> int (unat (fileSize ino) + n)" using size(1) by linarith
    have lo: "- (2 ^ 62) \<le> int pos" by simp
    show ?thesis unfolding fsz seek_lands(1) [OF pn size(2) lo pos26] min_absorb2 [OF le] by simp
  qed
  have posr: "0 \<le> int pos" "int pos < 2 ^ 26" using n le by simp_all
  obtain m2 where S: "fs_seek (Some ?fs) (int f) (int pos) FS_SEEK_SET m1 = (int pos, m2)" "m2 Image = m1 Image"
    "int (cursor_pos (get_fd m2 f)) = int pos" "cursor_ok (get_fd m2 f)" "inodeNum (get_fd m2 f) = inodeNum (get_fd m1 f)"
    "\<forall>g. bitmap_test fd_bm g m2 = bitmap_test fd_bm g m1"
    using fs_seek_moves [OF f(1) fb1, of FS_SEEK_SET "int pos" h, unfolded i1 W(2) tgt] posr by blast
  note ic = image_cong [where m = m1 and m' = m2, OF S(2)]
  have cp: "cursor_pos (get_fd m2 f) = pos" using S(3) by simp
  have ino2: "get_inode m2 (unat (inodeNum (get_fd m2 f))) = ino1" using S(5) i1 ic(2) W(2) by simp
  have there: "file_block ?fs ino1 m2 (p div 1024) \<noteq> 0 \<and> file_block ?fs ino1 m2 (p div 1024) \<le> 65528"
    if p: "pos \<le> p" "p < pos + n" for p
  proof -
    have b: "p div 1024 < 518" using p n le by (simp add: less_mult_imp_div_less)
    have nz: "map_of_file ?fs ino1 m1 (p div 1024) \<noteq> 0" using W(5) p file_block_map [OF b] by (metis map_of_file_def)
    have "map_of_file ?fs ino1 m1 (p div 1024) < 65528"
      using blocks_okD(1) [OF W(4) [unfolded file_ok_def W(2)] b nz] by blast
    then show ?thesis using nz unfolding ic(4) unfolding file_block_map [OF b] map_of_file_def by simp
  qed
  have fb2: "bitmap_test fd_bm f m2" using S(6) fb1 by simp
  have sz: "cursor_pos (get_fd m2 f) + n \<le> unat (fileSize (get_inode m2 (unat (inodeNum (get_fd m2 f)))))"
    "cursor_pos (get_fd m2 f) + n < 2 ^ 26 - 1024"
    unfolding ino2 cp ufs using size n le by simp_all
  obtain m3 where "fs_read (Some ?fs) (int f) True n m2 = Some (int n, file_bytes ?fs ino1 m2 pos n, m3)"
    using fs_read_range [OF f(1) fb2 S(4) sz, of h] there unfolding ino2 cp by blast
  moreover have "file_bytes ?fs ino1 m2 pos n = map src [0..<n]"
  proof (rule nth_equalityI)
    fix j assume "j < length (file_bytes ?fs ino1 m2 pos n)"
    then show "file_bytes ?fs ino1 m2 pos n ! j = map src [0..<n] ! j" using W(5) unfolding ic(6) by (simp add: file_bytes_def)
  qed simp
  ultimately show ?thesis using W(1) S(1) by metis
qed

section \<open>Overwriting, with the double indirect block\<close>

lemma write_from_mapped:
  fixes h :: int
  assumes M: "mapped (the_fs h) ino m b e" and c: "b \<le> c" "c < e"
  shows "write_from (the_fs h) ino c off src n m = write_at (the_fs h) ino c off src n m"
proof (cases "6 \<le> c \<and> c < 518")
  case True
  then have "indirectPointer ino \<noteq> 0" using mapped_block(5) [OF M c] by simp
  with True show ?thesis by (simp add: write_from_def write_at_def indirect_block_of_def)
qed (auto simp: write_from_def write_at_def)

lemma same_tables_refl [simp]: "same_tables fs ino m e m"
  by (simp add: same_tables_def)

lemma read_ptrs_cong: "get_block m' t = get_block m t \<Longrightarrow> read_ptrs (the_fs h) t m' = read_ptrs (the_fs h) t m"
  by (cases "t \<le> 65528") (simp_all add: read_ptrs_same read_ptrs_def read_block_fails)

lemma file_block_same:
  "directPointer ino' = directPointer ino \<Longrightarrow> indirectPointer ino' = indirectPointer ino \<Longrightarrow>
    doubleIndirectPointer ino' = doubleIndirectPointer ino \<Longrightarrow> file_block fs ino' m b = file_block fs ino m b"
  by (simp add: file_block_def file_table_def)

lemma overwrite_bits:
  "off < 1024 \<Longrightarrow> b * 1024 + off + n \<le> e * 1024 \<Longrightarrow> (\<And>i. b \<le> i \<Longrightarrow> i < e \<Longrightarrow> F i < 65528) \<Longrightarrow>
    bitmap_test whole_bm j (overwrite F b off src n m) = bitmap_test whole_bm j m"
proof (induction n arbitrary: b off src m rule: less_induct)
  case (less n)
  show ?case
  proof (cases "n = 0")
    case False
    let ?k = "min (1024 - off) n"
    have be: "b < e"
    proof (rule ccontr)
      assume "\<not> b < e"
      then have "e * 1024 \<le> b * 1024" by simp
      with less.prems(2) False show False by simp
    qed
    have fit: "Suc b * 1024 + 0 + (n - ?k) \<le> e * 1024"
    proof (cases "n \<le> 1024 - off")
      case True
      have "Suc b * 1024 \<le> e * 1024" using be by (intro mult_le_mono1) simp
      with True show ?thesis by simp
    qed (use less.prems in simp)
    have "n - ?k < n" using False less.prems(1) by simp
    note less.IH [OF this _ fit less.prems(3), of "src_advance src ?k"]
    then show ?thesis
      using overwrite_step [OF _ less.prems(1) refl, of n] False less.prems(3) [OF _ be]
      by (simp add: whole_test_put_block)
  qed simp
qed

lemma fs_write_mapped:
  fixes h :: int
  assumes f: "f < 256" "bitmap_test fd_bm f m"
  defines "d \<equiv> get_fd m f" and "i \<equiv> unat (inodeNum (get_fd m f))"
  defines "pos \<equiv> cursor_pos d" and "ino \<equiv> get_inode m i"
  assumes cur: "cursor_ok d" and M: "mapped (the_fs h) ino m b e" and b: "b \<le> unat (locate_order d)"
    and tb: "\<forall>t \<in> file_tables (the_fs h) ino m e. t = 0 \<or> 17 \<le> t \<and> t < 65528"
    and n: "0 < n" "pos + n \<le> e * 1024"
  shows "\<exists>m'. fs_write (Some (the_fs h)) (int f) (Some src) n m = Some (int n, m') \<and>
    get_inode m' i = ino\<lparr>fileSize := fileSize ino + of_nat n\<rparr> \<and>
    (\<forall>p. b * 1024 \<le> p \<and> p < e * 1024 \<longrightarrow> file_byte (the_fs h) (get_inode m' i) m' p =
       (if pos \<le> p \<and> p < pos + n then src (p - pos) else file_byte (the_fs h) ino m p)) \<and>
    (\<forall>j. 17 \<le> j \<and> j \<notin> file_block (the_fs h) ino m ` {b..<e} \<longrightarrow> get_block m' j = get_block m j) \<and>
    (\<forall>j<65528. bitmap_test whole_bm j m' = bitmap_test whole_bm j m) \<and>
    cursor_pos (get_fd m' f) = pos + n"
proof -
  let ?fs = "the_fs h" and ?F = "file_block (the_fs h) ino m" and ?c = "unat (locate_order d)" and ?off = "unat (locate_offset d)"
  have pos: "pos = ?c * 1024 + ?off" by (simp add: pos_def cursor_pos_def)
  have off: "?off < 1024" using cur by (simp add: cursor_ok_def)
  have i: "i < 256" using unsigned_less [of "inodeNum d", where 'a = nat] by (simp add: i_def d_def)
  have ce: "?c < e"
  proof (rule ccontr)
    assume "\<not> ?c < e"
    then have "e * 1024 \<le> ?c * 1024" by simp
    with pos n show False by linarith
  qed
  define m1 where "m1 = overwrite ?F ?c ?off src n m"
  have fit: "?c * 1024 + ?off + n \<le> e * 1024" using pos n(2) by simp
  have "write_from ?fs ino ?c ?off src n m = Some (n, ino, m1)"
    unfolding write_from_mapped [OF M b ce] m1_def by (rule write_at_spec [OF M b off n(1) fit]) simp
  then have W: "fs_write (Some ?fs) (int f) (Some src) n m = Some (int n, write_done f i ino n m1)"
    unfolding i_def by (intro fs_write_from [OF f])
      (use n in \<open>simp_all add: d_def i_def ino_def m1_def overwrite_objects\<close>)
  let ?m' = "write_done f i ino n m1"
  have wf: "inode_wf ino" by (simp add: ino_def)
  note wd = write_done_blocks [OF wf i, where f = f and k = n and m = m1]
  have gi: "get_inode ?m' i = ino\<lparr>fileSize := fileSize ino + of_nat n\<rparr>" using wd(3) [OF i] by simp
  have Fr: "17 \<le> ?F j" "?F j < 65528" if "b \<le> j" "j < e" for j using mapped_block(1,2) [OF M that] .
  have other: "get_block m1 j = get_block m j" if "j \<notin> ?F ` {b..<e}" for j
    unfolding m1_def using that b by (intro overwrite_other_block [OF off fit]) auto
  have frame: "get_block ?m' j = get_block m j" if "17 \<le> j" "j \<notin> ?F ` {b..<e}" for j
    using wd(1) [OF that(1)] other [OF that(2)] by simp
  have tabs: "get_block ?m' t = get_block m t" if "t \<in> file_tables ?fs ino m e" "t \<noteq> 0" for t
    using that tb M by (intro frame) (auto simp: mapped_def)
  have fb: "file_block ?fs (get_inode ?m' i) ?m' j = ?F j" if "j < e" for j
  proof -
    have d: "read_ptrs ?fs (unat (doubleIndirectPointer ino)) ?m' = read_ptrs ?fs (unat (doubleIndirectPointer ino)) m"
      if "doubleIndirectPointer ino \<noteq> 0"
      using that by (intro read_ptrs_cong tabs) (auto simp: file_tables_def unat_eq_zero)
    then have t: "file_table ?fs ino ?m' j = file_table ?fs ino m j" by (simp add: file_table_def)
    have ft: "file_table ?fs ino m j \<in> file_tables ?fs ino m e"
      using that by (cases "j < 518") (auto simp: file_tables_def file_table_def)
    have "read_ptrs ?fs (file_table ?fs ino m j) ?m' = read_ptrs ?fs (file_table ?fs ino m j) m"
      if "file_table ?fs ino m j \<noteq> 0"
      by (rule read_ptrs_cong) (rule tabs [OF ft that])
    then have "file_block ?fs ino ?m' j = ?F j" by (simp add: file_block_def t)
    then show ?thesis unfolding gi by (subst file_block_same) simp_all
  qed
  have bytes: "file_byte ?fs (get_inode ?m' i) ?m' p =
      (if pos \<le> p \<and> p < pos + n then src (p - pos) else file_byte ?fs ino m p)"
    if p: "b * 1024 \<le> p" "p < e * 1024" for p
  proof -
    have j: "b \<le> p div 1024" "p div 1024 < e"
      using p by (simp_all add: less_eq_div_iff_mult_less_eq less_mult_imp_div_less)
    have "file_byte ?fs (get_inode ?m' i) ?m' p = get_block m1 (?F (p div 1024)) ! (p mod 1024)"
      unfolding file_byte_def fb [OF j(2)] using wd(1) Fr(1) [OF j] by simp
    also have "\<dots> = (if pos \<le> p \<and> p < pos + n then src (p - pos) else file_byte ?fs ino m p)"
    proof (cases "?c * 1024 \<le> p")
      case True
      have "inj_on ?F {b..<e}" using M by (simp add: mapped_def)
      then have "inj_on ?F {?c..<e}" by (rule inj_on_subset) (use b in auto)
      then show ?thesis
        using overwrite_bytes [OF off fit _ True p(2), of ?F src m] unfolding m1_def pos file_byte_def by simp
    next
      case False
      then have np: "\<not> (pos \<le> p \<and> p < pos + n)" using pos by simp
      have lt: "p div 1024 < ?c" using False by (simp add: less_mult_imp_div_less)
      have "get_block m1 (?F (p div 1024)) = get_block m (?F (p div 1024))"
        unfolding m1_def
      proof (rule overwrite_other_block [OF off fit], intro allI impI)
        fix k assume k: "?c \<le> k \<and> k < e"
        have "inj_on ?F {b..<e}" using M by (simp add: mapped_def)
        then show "?F k \<noteq> ?F (p div 1024)" using k lt j b by (auto dest: inj_onD)
      qed
      then show ?thesis unfolding if_not_P [OF np] file_byte_def by simp
    qed
    finally show ?thesis .
  qed
  have bits: "bitmap_test whole_bm j ?m' = bitmap_test whole_bm j m" if "j < 65528" for j
  proof -
    have "bitmap_test whole_bm j m1 = bitmap_test whole_bm j m"
      unfolding m1_def using M b by (intro overwrite_bits [OF off fit]) (auto simp: mapped_def)
    then show ?thesis using wd(2) by simp
  qed
  have "pos + n < 2 ^ 26"
  proof -
    have "e * 1024 \<le> 65535 * 1024" using M by (intro mult_le_mono1) (simp add: mapped_def)
    with n(2) show ?thesis by simp
  qed
  moreover have "get_fd m1 f = d" unfolding d_def by (rule get_fd_Image) (simp add: m1_def overwrite_objects)
  ultimately have "cursor_pos (get_fd ?m' f) = pos + n"
    using wd(5) updateFD_advances [OF cur, of n] by (simp add: pos_def)
  with W gi bytes frame bits show ?thesis by blast
qed

end
