(* ===== verification/FS_Remove.thy ===== *)
theory FS_Remove
  imports FS_Open FS_Write
begin

text \<open>
  Removing: \<^verbatim>\<open>fs_remove\<close> and the loops that give the blocks of a file back. The lemmas say which
  blocks become free and what becomes of the name tables; the properties are at the end.
\<close>

unbundle bit_operations_syntax

section \<open>\<^verbatim>\<open>fs_remove\<close>\<close>

text \<open>The three loops that give the blocks of a regular file back.\<close>

definition release_pointers :: "F19FS_t \<Rightarrow> uint16_t list \<Rightarrow> mem \<Rightarrow> mem" where
  "release_pointers fs ptrs m =
     fold (\<lambda>p m. if p \<noteq> 0 then block_store_release (BlockStore_whole fs) (unat p) m else m) ptrs m"

definition release_indirect :: "F19FS_t \<Rightarrow> uint16_t \<Rightarrow> mem \<Rightarrow> mem" where
  "release_indirect fs p m =
     (if p \<noteq> 0
      then block_store_release (BlockStore_whole fs) (unat p)
             (release_pointers fs (read_ptrs fs (unat p) m) m)
      else m)"

definition release_double_indirect :: "F19FS_t \<Rightarrow> uint16_t \<Rightarrow> mem \<Rightarrow> mem" where
  "release_double_indirect fs p m =
     (if p \<noteq> 0
      then block_store_release (BlockStore_whole fs) (unat p)
             (fold (release_indirect fs) (read_ptrs fs (unat p) m) m)
      else m)"

definition release_file :: "F19FS_t \<Rightarrow> inode_t \<Rightarrow> mem \<Rightarrow> mem" where
  "release_file fs fileInode m =
     release_double_indirect fs (doubleIndirectPointer fileInode)
       (release_indirect fs (indirectPointer fileInode)
         (release_pointers fs (take NUM_DIRECT_PTR (directPointer fileInode)) m))"

text \<open>What follows the release of the file's data: its inode, the entry and the bit in the
  parent.\<close>

definition remove_entry ::
    "F19FS_t \<Rightarrow> nat \<Rightarrow> inode_t \<Rightarrow> byte list \<Rightarrow> nat \<Rightarrow> cstring \<Rightarrow> mem \<Rightarrow> int \<times> mem" where
  "remove_entry fs dirInodeID parentDirInode parentDir fileInodeID fileName m =
     (let m1 = snd (write_inode (BlockStore_inode fs) fileInodeID zero_inode m);
          m2 = block_store_release (BlockStore_inode fs) fileInodeID m1;
          entryIndex = getFileIndexInDir parentDirInode parentDir fileName
      in if entryIndex = -1 then (-8, m2)
         else
           (let k = nat entryIndex;
                cleared = set_entry_filename (set_entry_inode parentDir k 0) k (replicate FS_FNAME_MAX 0);
                m3 = snd (write_block fs (direct0 parentDirInode) cleared m2);
                parent' = parentDirInode\<lparr>vacantFile := vacant_reset (vacantFile parentDirInode) k\<rparr>;
                m4 = snd (write_inode (BlockStore_inode fs) dirInodeID parent' m3)
            in (0, m4)))"

definition fs_remove :: "F19FS_t option \<Rightarrow> cstring option \<Rightarrow> mem \<Rightarrow> int \<times> mem" where
  "fs_remove fso patho m =
     (if fso = None \<or> patho = None \<or> length (the patho) = 0 then (-1, m)
      else if \<not> isValidPath patho then (-2, m)
      else
        (let fs = the fso; dirPath = c_dirname (the patho); fileName = c_basename (the patho) in
         if length fileName \<ge> FS_FNAME_MAX then (-3, m)
         else
           (let dirInodeID = getParentDirInodeID fs dirPath m in
            if dirInodeID = SIZE_MAX then (-4, m)
            else
              (let fileInodeID = getFileInodeID fs dirInodeID fileName m in
               if fileInodeID = 0 then (-5, m)
               else (case read_dir fs dirInodeID m of
                   None \<Rightarrow> (-6, m)
                 | Some (parentDirInode, parentDir) \<Rightarrow>
                     (let (r, fileInode) = read_inode (BlockStore_inode fs) fileInodeID zero_inode m in
                      if r = 0 then (-7, m)
                      else if fileType fileInode = ch_r then
                        (if linkCount fileInode > 1
                         then (0, snd (write_inode (BlockStore_inode fs) fileInodeID
                                    (fileInode\<lparr>linkCount := linkCount fileInode - 1\<rparr>) m))
                         else remove_entry fs dirInodeID parentDirInode parentDir fileInodeID fileName
                                (release_file fs fileInode m))
                      else if \<not> isDirectoryEmpty fileInode then (-8, m)
                      else
                        (let (r2, currentDir) = read_block fs (direct0 fileInode) zero_block m in
                         if r2 = 0 then (-9, m)
                         else
                           (let currentDir' = buf_write currentDir 0 (replicate SIZE_OF_ENTRY_BYTE 0);
                                m1 = snd (write_block fs (direct0 fileInode) currentDir' m);
                                m2 = block_store_release (BlockStore_whole fs) (direct0 fileInode) m1
                            in remove_entry fs dirInodeID parentDirInode parentDir fileInodeID fileName m2))))))))"

section \<open>Blocks given back\<close>

text \<open>
  \<open>released S m m'\<close>: from \<open>m\<close> to \<open>m'\<close> exactly the blocks of \<open>S\<close> have become free; the content of
  the image and everything else is unchanged.
\<close>

definition released :: "nat set \<Rightarrow> mem \<Rightarrow> mem \<Rightarrow> bool" where
  "released S m m' \<longleftrightarrow>
     (\<forall>j<65528. bitmap_test whole_bm j m' \<longleftrightarrow> bitmap_test whole_bm j m \<and> j \<notin> S) \<and>
     (\<forall>j<65528. get_block m' j = get_block m j) \<and>
     (\<forall>i<256. get_inode m' i = get_inode m i \<and> (bitmap_test inode_bm i m' \<longleftrightarrow> bitmap_test inode_bm i m)) \<and>
     (\<forall>ob. ob \<noteq> Image \<longrightarrow> m' ob = m ob)"

lemma releasedD:
  assumes "released S m m'"
  shows "j < 65528 \<Longrightarrow> bitmap_test whole_bm j m' \<longleftrightarrow> bitmap_test whole_bm j m \<and> j \<notin> S"
    and "j < 65528 \<Longrightarrow> get_block m' j = get_block m j" and "i < 256 \<Longrightarrow> get_inode m' i = get_inode m i"
    and "i < 256 \<Longrightarrow> bitmap_test inode_bm i m' = bitmap_test inode_bm i m" and "ob \<noteq> Image \<Longrightarrow> m' ob = m ob"
  using assms by (simp_all add: released_def)

lemma released_refl: "released {} m m"
  by (simp add: released_def)

lemma released_trans: "released S m m1 \<Longrightarrow> released T m1 m2 \<Longrightarrow> released (S \<union> T) m m2"
  by (auto simp: released_def)

lemma released_block:
  assumes "p < 65528"
  shows "released {p} m (block_store_release (Some (whole_store h)) p m)"
proof -
  have "bitmap_reset whole_bm p m ob = m ob" if "ob \<noteq> Image" for ob
    using that by (simp add: bitmap_reset_def bitmap_byte_def Let_def mwrite_def)
  with assms show ?thesis
    by (auto simp: block_store_release_def released_def Let_def bitmap_test_reset get_block_alloc get_inode_alloc
        bitmap_test_reset_other)
qed

lemma released_ptrs: "released S m m' \<Longrightarrow> t < 65528 \<Longrightarrow> read_ptrs (the_fs h) t m' = read_ptrs (the_fs h) t m"
  by (simp add: released_def read_ptrs_def)

definition ptr_blocks :: "uint16_t list \<Rightarrow> nat set" where
  "ptr_blocks ps = unat ` (set ps - {0})"

definition indirect_blocks :: "int \<Rightarrow> mem \<Rightarrow> uint16_t \<Rightarrow> nat set" where
  "indirect_blocks h m p =
     (if p = 0 then {} else insert (unat p) (ptr_blocks (read_ptrs (the_fs h) (unat p) m)))"

definition double_blocks :: "int \<Rightarrow> mem \<Rightarrow> uint16_t \<Rightarrow> nat set" where
  "double_blocks h m p =
     (if p = 0 then {}
      else insert (unat p) (\<Union>q \<in> set (read_ptrs (the_fs h) (unat p) m). indirect_blocks h m q))"

text \<open>All the blocks of a file: its data and its pointer blocks.\<close>

definition file_blocks :: "int \<Rightarrow> mem \<Rightarrow> inode_t \<Rightarrow> nat set" where
  "file_blocks h m ino = ptr_blocks (directPointer ino) \<union> indirect_blocks h m (indirectPointer ino) \<union>
     double_blocks h m (doubleIndirectPointer ino)"

lemma ptr_blocks_Cons: "ptr_blocks (p # ps) = (if p = 0 then {} else {unat p}) \<union> ptr_blocks ps"
  by (auto simp: ptr_blocks_def)

lemma release_pointers_released:
  "ptr_blocks ps \<subseteq> {..<65528} \<Longrightarrow> released (ptr_blocks ps) m (release_pointers (the_fs h) ps m)"
proof (induction ps arbitrary: m)
  case (Cons p ps)
  let ?m1 = "if p \<noteq> 0 then block_store_release (Some (whole_store h)) (unat p) m else m"
  have "released (if p = 0 then {} else {unat p}) m ?m1"
    using Cons.prems released_block [of "unat p" m h] by (cases "p = 0") (simp_all add: released_refl ptr_blocks_Cons)
  moreover have "released (ptr_blocks ps) ?m1 (release_pointers (the_fs h) ps ?m1)"
    using Cons.prems by (intro Cons.IH) (simp add: ptr_blocks_Cons)
  ultimately have "released (ptr_blocks (p # ps)) m (release_pointers (the_fs h) ps ?m1)"
    unfolding ptr_blocks_Cons by (rule released_trans)
  then show ?case by (cases "p = 0") (simp_all add: release_pointers_def)
qed (simp add: release_pointers_def ptr_blocks_def released_refl)

lemma release_indirect_released:
  assumes "indirect_blocks h m p \<subseteq> {..<65528}"
  shows "released (indirect_blocks h m p) m (release_indirect (the_fs h) p m)"
proof (cases "p = 0")
  case False
  let ?ps = "read_ptrs (the_fs h) (unat p) m"
  have "released (ptr_blocks ?ps) m (release_pointers (the_fs h) ?ps m)"
    using assms False by (intro release_pointers_released) (simp add: indirect_blocks_def)
  from released_trans [OF this released_block [of "unat p" _ h]] False assms show ?thesis
    by (simp add: indirect_blocks_def release_indirect_def)
qed (simp add: indirect_blocks_def release_indirect_def released_refl)

lemma released_indirect_blocks:
  "released S m m' \<Longrightarrow> indirect_blocks h m p \<subseteq> {..<65528} \<Longrightarrow> indirect_blocks h m' p = indirect_blocks h m p"
  using released_ptrs [of S m m' "unat p" h] by (auto simp: indirect_blocks_def split: if_splits)

lemma release_indirects_released:
  "released S m0 m \<Longrightarrow> \<forall>q \<in> set qs. indirect_blocks h m0 q \<subseteq> {..<65528} \<Longrightarrow>
    released (S \<union> (\<Union>q \<in> set qs. indirect_blocks h m0 q)) m0 (fold (release_indirect (the_fs h)) qs m)"
proof (induction qs arbitrary: S m)
  case (Cons q qs)
  have q: "indirect_blocks h m q = indirect_blocks h m0 q"
    using Cons.prems by (intro released_indirect_blocks) auto
  have "released (indirect_blocks h m0 q) m (release_indirect (the_fs h) q m)"
    using release_indirect_released [of h m q] Cons.prems(2) unfolding q by simp
  from Cons.IH [OF released_trans [OF Cons.prems(1) this]] Cons.prems(2) show ?case by (simp add: Un_assoc)
qed simp

lemma release_double_released:
  assumes "double_blocks h m p \<subseteq> {..<65528}"
  shows "released (double_blocks h m p) m (release_double_indirect (the_fs h) p m)"
proof (cases "p = 0")
  case False
  let ?qs = "read_ptrs (the_fs h) (unat p) m"
  have "released ({} \<union> (\<Union>q \<in> set ?qs. indirect_blocks h m q)) m (fold (release_indirect (the_fs h)) ?qs m)"
    using assms False by (intro release_indirects_released released_refl) (auto simp: double_blocks_def)
  from released_trans [OF this released_block [of "unat p" _ h]] False assms show ?thesis
    by (simp add: double_blocks_def release_double_indirect_def)
qed (simp add: double_blocks_def release_double_indirect_def released_refl)

lemma release_file_released:
  assumes "inode_wf ino" and "file_blocks h m ino \<subseteq> {..<65528}"
  shows "released (file_blocks h m ino) m (release_file (the_fs h) ino m)"
proof -
  define m1 where "m1 = release_pointers (the_fs h) (directPointer ino) m"
  have 1: "released (ptr_blocks (directPointer ino)) m m1"
    unfolding m1_def using assms(2) by (intro release_pointers_released) (simp add: file_blocks_def)
  define m2 where "m2 = release_indirect (the_fs h) (indirectPointer ino) m1"
  have i: "indirect_blocks h m1 (indirectPointer ino) = indirect_blocks h m (indirectPointer ino)"
    using assms(2) by (intro released_indirect_blocks [OF 1]) (simp add: file_blocks_def)
  have "released (indirect_blocks h m (indirectPointer ino)) m1 m2"
    using release_indirect_released [of h m1 "indirectPointer ino"] assms(2) unfolding i m2_def by (simp add: file_blocks_def)
  note 2 = released_trans [OF 1 this]
  have d: "double_blocks h m2 (doubleIndirectPointer ino) = double_blocks h m (doubleIndirectPointer ino)"
  proof (cases "doubleIndirectPointer ino = 0")
    case False
    then have "unat (doubleIndirectPointer ino) < 65528" using assms(2) by (auto simp: file_blocks_def double_blocks_def)
    note r = released_ptrs [OF 2 this, of h]
    have "indirect_blocks h m2 q = indirect_blocks h m q"
      if "q \<in> set (read_ptrs (the_fs h) (unat (doubleIndirectPointer ino)) m)" for q
      using that assms(2) False by (intro released_indirect_blocks [OF 2]) (auto simp: file_blocks_def double_blocks_def)
    with False r show ?thesis by (simp add: double_blocks_def)
  qed (simp add: double_blocks_def)
  have "released (double_blocks h m (doubleIndirectPointer ino)) m2
      (release_double_indirect (the_fs h) (doubleIndirectPointer ino) m2)"
    using release_double_released [of h m2 "doubleIndirectPointer ino"] assms(2) unfolding d by (simp add: file_blocks_def)
  from released_trans [OF 2 this] assms(1) show ?thesis
    by (simp add: release_file_def file_blocks_def m1_def m2_def inode_wf_def)
qed

section \<open>The entry taken out\<close>

text \<open>What \<^verbatim>\<open>remove_entry\<close> makes of the memory, \<open>k\<close> the index of the entry it finds.\<close>

definition removed :: "nat \<Rightarrow> inode_t \<Rightarrow> byte list \<Rightarrow> nat \<Rightarrow> nat \<Rightarrow> mem \<Rightarrow> mem" where
  "removed p pino blk k q m =
     put_inode p (pino\<lparr>vacantFile := vacant_reset (vacantFile pino) k\<rparr>)
       (put_block (direct0 pino) (put_entry blk k (replicate 32 0) 0)
         (bitmap_reset inode_bm q (put_inode q zero_inode m)))"

lemma set_entry_commute:
  assumes "length blk = 1024" and "k < 31" and "length bs \<le> 32"
  shows "set_entry_filename (set_entry_inode blk k i) k bs = put_entry blk k bs i"
  using assms unfolding put_entry_def set_entry_filename_def set_entry_inode_def
  by (intro nth_equalityI) (auto simp: nth_buf_write)

lemma release_inode:
  "q < 256 \<Longrightarrow> bitmap_test inode_bm q m \<Longrightarrow> block_store_release (Some inode_store) q m = bitmap_reset inode_bm q m"
  by (simp add: block_store_release_def Let_def)

lemma index_found_less: "getFileIndexInDir pino blk name = int k \<Longrightarrow> k < 31 \<and> bit (vacantFile pino) k"
  by (auto simp: getFileIndexInDir_def find_Some_iff vacant_test_bit split: option.splits)

lemma remove_entry_removed:
  assumes p: "p < 256" "inode_wf pino" "direct0 pino \<le> 65528" and q: "q < 256" "bitmap_test inode_bm q m"
    and blk: "length blk = 1024" and k: "getFileIndexInDir pino blk name = int k"
  shows "remove_entry (the_fs h) p pino blk q name m = (0, removed p pino blk k q m)"
proof -
  have "bitmap_test inode_bm q (put_inode q zero_inode m)" using q by (simp add: inode_test_put_inode)
  with assms index_found_less [OF k] show ?thesis
    by (simp add: remove_entry_def removed_def Let_def release_inode set_entry_commute)
qed

text \<open>The entry that is cleared is the first whose name starts with the name given.\<close>

lemma getFileIndexInDir_prefix:
  assumes "0 \<notin> set name"
  shows "getFileIndexInDir pino blk name =
    (case find (\<lambda>i. bit (vacantFile pino) i \<and> take (length name) (entry_name blk i) = name) [0..<31] of
       Some i \<Rightarrow> int i | None \<Rightarrow> -1)"
proof -
  have "find (\<lambda>i. vacant_test (vacantFile pino) i \<and>
        c_strncmp (entry_filename blk i) name (c_strlen name) = 0) [0..<31] =
      find (\<lambda>i. bit (vacantFile pino) i \<and> take (length name) (entry_name blk i) = name) [0..<31]"
    by (rule find_cong_on)
      (simp add: vacant_test_bit c_strncmp_prefix, simp add: c_strlen_def cstr_at_id assms entry_name_def)
  then show ?thesis by (simp add: getFileIndexInDir_def)
qed

lemma removed_frame:
  fixes m :: mem
  assumes p: "p < 256" "inode_wf pino" and q: "q < 256" "q \<noteq> p" and b: "17 \<le> direct0 pino" "direct0 pino < 65528"
    and k: "k < 31" and blk: "length blk = 1024"
  defines "m' \<equiv> removed p pino blk k q m"
  shows "get_inode m' q = zero_inode" "get_inode m' p = pino\<lparr>vacantFile := vacant_reset (vacantFile pino) k\<rparr>"
    "i < 256 \<Longrightarrow> i \<noteq> p \<Longrightarrow> i \<noteq> q \<Longrightarrow> get_inode m' i = get_inode m i"
    "get_block m' (direct0 pino) = put_entry blk k (replicate 32 0) 0"
    "17 \<le> j \<Longrightarrow> j < 65528 \<Longrightarrow> j \<noteq> direct0 pino \<Longrightarrow> get_block m' j = get_block m j"
    "j < 65528 \<Longrightarrow> bitmap_test whole_bm j m' \<longleftrightarrow> bitmap_test whole_bm j m"
    "j < 256 \<Longrightarrow> bitmap_test inode_bm j m' \<longleftrightarrow> j \<noteq> q \<and> bitmap_test inode_bm j m"
    "ob \<noteq> Image \<Longrightarrow> m' ob = m ob"
proof -
  have gb: "get_block (bitmap_reset inode_bm q m0) j = get_block m0 j" if "1 \<le> j" for j m0
    unfolding get_block_def by (rule bitmap_reset_elsewhere) (use q that in auto)
  have pt: "bitmap_test inode_bm j (put_inode i ino m0) = bitmap_test inode_bm j m0" if "j < 256" for i ino m0 j
    by (rule inode_test_put_inode [OF that])
  note s = m'_def removed_def Let_def get_put_inode get_inode_put_block get_inode_alloc get_block_put_inode get_put_block
  show "get_inode m' q = zero_inode" using p q b by (simp add: s)
  show "get_inode m' p = pino\<lparr>vacantFile := vacant_reset (vacantFile pino) k\<rparr>" using p q b by (simp add: s)
  show "i < 256 \<Longrightarrow> i \<noteq> p \<Longrightarrow> i \<noteq> q \<Longrightarrow> get_inode m' i = get_inode m i" using p q b by (simp add: s)
  show "get_block m' (direct0 pino) = put_entry blk k (replicate 32 0) 0" using p q b k blk by (simp add: s gb)
  show "17 \<le> j \<Longrightarrow> j < 65528 \<Longrightarrow> j \<noteq> direct0 pino \<Longrightarrow> get_block m' j = get_block m j"
    using p q b k blk by (simp add: s gb)
  show "j < 65528 \<Longrightarrow> bitmap_test whole_bm j m' \<longleftrightarrow> bitmap_test whole_bm j m"
    using p q b k by (simp add: m'_def removed_def whole_test_put_inode whole_test_put_block bitmap_test_reset_other)
  show "j < 256 \<Longrightarrow> bitmap_test inode_bm j m' \<longleftrightarrow> j \<noteq> q \<and> bitmap_test inode_bm j m"
    using p q b k by (simp add: m'_def removed_def pt inode_test_put_block bitmap_test_reset)
  show "ob \<noteq> Image \<Longrightarrow> m' ob = m ob"
    by (simp add: m'_def removed_def put_inode_def put_block_def bitmap_reset_def bitmap_byte_def Let_def mwrite_def)
qed

text \<open>Clearing one used entry takes its name, and only it, out of the table.\<close>

lemma lookup_in_clear:
  assumes blk: "length blk = 1024" and k: "k < 31" "bit v k"
    and names: "\<And>j. j < 31 \<Longrightarrow> bit v j \<Longrightarrow> length (entry_name blk j) < 32"
    and uniq: "\<And>j. j < 31 \<Longrightarrow> bit v j \<Longrightarrow> entry_name blk j = entry_name blk k \<Longrightarrow> j = k"
  shows "lookup_in (vacant_reset v k) (put_entry blk k (replicate 32 0) 0) n =
    (if n = entry_name blk k then None else lookup_in v blk n)"
proof -
  let ?blk' = "put_entry blk k (replicate 32 0) 0"
  have P: "bit (vacant_reset v k) j \<and> entry_name ?blk' j = n \<longleftrightarrow> j \<noteq> k \<and> bit v j \<and> entry_name blk j = n"
    if "j < 31" for j
    using that k names [OF that] entry_name_put_other [OF blk k(1) that, of "replicate 32 0" 0]
    by (auto simp: bit_vacant_reset)
  show ?thesis
  proof (cases "n = entry_name blk k")
    case True
    then have "find (\<lambda>j. bit (vacant_reset v k) j \<and> entry_name ?blk' j = n) [0..<31] = None"
      using P uniq by (auto simp: find_None_iff)
    with True show ?thesis by (simp add: lookup_in_def)
  next
    case False
    then have f: "find (\<lambda>j. bit (vacant_reset v k) j \<and> entry_name ?blk' j = n) [0..<31] =
        find (\<lambda>j. bit v j \<and> entry_name blk j = n) [0..<31]"
      using P by (intro find_cong_on) auto
    have "entry_inode ?blk' j = entry_inode blk j"
      if "find (\<lambda>j. bit v j \<and> entry_name blk j = n) [0..<31] = Some j" for j
      using that False entry_inode_put [OF blk k(1), of j "replicate 32 0" 0] by (auto simp: find_Some_iff)
    then show ?thesis using False unfolding lookup_in_def f
      by (cases "find (\<lambda>j. bit v j \<and> entry_name blk j = n) [0..<31]") simp_all
  qed
qed

lemma removed_tables:
  fixes m :: mem
  assumes inv: "fs_inv m" and p: "p < 256" "is_dir m p" and k: "dir_used m p k"
    and q: "q < 256" "q \<noteq> p" "q \<noteq> 0"
  defines "m' \<equiv> removed p (get_inode m p) (dir_block m p) k q m"
  shows "d < 256 \<Longrightarrow> is_dir m' d \<longleftrightarrow> is_dir m d \<and> d \<noteq> q"
    and "d < 256 \<Longrightarrow> is_dir m d \<Longrightarrow> d \<noteq> q \<Longrightarrow>
      lookup m' d n = (if d = p \<and> n = entry_name (dir_block m p) k then None else lookup m d n)"
    and "fs_inv m'"
proof -
  let ?pino = "get_inode m p" and ?blk = "dir_block m p"
  have k31: "k < 31" "bit (vacantFile ?pino) k" using k by (auto simp: dir_used_def)
  have v0: "vacantFile ?pino \<noteq> 0" using k31(2) by auto
  have b: "17 \<le> direct0 ?pino" "direct0 ?pino < 65528" "bitmap_test whole_bm (direct0 ?pino) m"
    using inv p v0 by (auto simp: fs_inv_def dir_blocks_ok_def)
  note fr = removed_frame [OF p(1) _ q(1,2) b(1,2) k31(1) length_dir_block [of m p],
      OF inode_wf_get, where m = m, folded m'_def]
  have okd: "dir_ok m d" if "d < 256" "is_dir m d" for d using inv that by (auto simp: fs_inv_def dirs_ok_def)
  have ino_d: "get_inode m' d = get_inode m d" if "d < 256" "d \<noteq> p" "d \<noteq> q" for d using fr(3) that by blast
  show dirs: "d < 256 \<Longrightarrow> is_dir m' d \<longleftrightarrow> is_dir m d \<and> d \<noteq> q" for d
    using p(2) fr(1,2) ino_d [of d] q by (cases "d = p"; cases "d = q") (simp_all add: is_dir_def zero_inode_def)
  have blk_d: "dir_block m' d = dir_block m d"
    if d: "d < 256" "is_dir m d" "d \<noteq> p" "d \<noteq> q" "vacantFile (get_inode m d) \<noteq> 0" for d
  proof -
    have "17 \<le> direct0 (get_inode m d)" "direct0 (get_inode m d) < 65528" "direct0 (get_inode m d) \<noteq> direct0 ?pino"
      using inv d p v0 unfolding fs_inv_def dir_blocks_ok_def by metis+
    then show ?thesis by (simp add: dir_block_def ino_d [OF d(1,3,4)] fr(5))
  qed
  have blk_p: "dir_block m' p = put_entry ?blk k (replicate 32 0) 0" by (simp add: dir_block_def fr(2,4))
  have vp: "vacantFile (get_inode m' p) = vacant_reset (vacantFile ?pino) k" by (simp add: fr(2))
  have dp: "direct0 (get_inode m' p) = direct0 ?pino" by (simp add: fr(2))
  have names: "length (entry_name ?blk j) < 32" if "j < 31" "bit (vacantFile ?pino) j" for j
    using okd [OF p] that by (auto simp: dir_ok_def dir_used_def)
  have uniq: "j = k" if "j < 31" "bit (vacantFile ?pino) j" "entry_name ?blk j = entry_name ?blk k" for j
    using okd [OF p] that k31 by (auto simp: dir_ok_def dir_used_def)
  show "lookup m' d n = (if d = p \<and> n = entry_name ?blk k then None else lookup m d n)"
    if d: "d < 256" "is_dir m d" "d \<noteq> q"
  proof (cases "d = p")
    case True
    have "lookup m' p n = (if n = entry_name ?blk k then None else lookup m p n)"
      unfolding lookup_def blk_p vp
      by (rule lookup_in_clear [OF length_dir_block k31]) (use names uniq in auto)
    with True show ?thesis by simp
  next
    case False
    with d ino_d blk_d show ?thesis
      by (cases "vacantFile (get_inode m d) = 0") (simp_all add: lookup_def)
  qed
  have used_p: "dir_used m' p j \<longleftrightarrow> j \<noteq> k \<and> dir_used m p j" for j
    using k31 by (auto simp: dir_used_def fr(2) bit_vacant_reset)
  have n_old: "entry_name (dir_block m' p) j = entry_name ?blk j" if "j \<noteq> k" "dir_used m p j" for j
    using that names k31 unfolding blk_p by (auto simp: dir_used_def entry_name_put_other)
  have "dir_ok m' p"
    using okd [OF p] used_p n_old unfolding dir_ok_def dp by metis
  moreover have "is_dir m' 0" using dirs [of 0] inv q by (auto simp: fs_inv_def)
  moreover have "direct0 (get_inode m d) < 65528" if "d < 256" "is_dir m d" "vacantFile (get_inode m d) \<noteq> 0" for d
    using inv that by (auto simp: fs_inv_def dir_blocks_ok_def)
  ultimately show "fs_inv m'"
    using dirs ino_d blk_d fr(6,7) v0 by (intro dir_changed_inv [OF inv, of m' p]) (auto simp: fr(2))
qed

text \<open>Giving blocks back that no directory uses keeps the invariant and the tables.\<close>

definition no_dir_blocks :: "mem \<Rightarrow> nat set \<Rightarrow> bool" where
  "no_dir_blocks m S \<longleftrightarrow> S \<inter> {..<17} = {} \<and>
     (\<forall>d<256. is_dir m d \<and> vacantFile (get_inode m d) \<noteq> 0 \<longrightarrow> direct0 (get_inode m d) \<notin> S)"

lemma released_same_dirs:
  assumes inv: "fs_inv m" and rel: "released S m m'" and own: "no_dir_blocks m S"
  shows "same_dirs m m'"
proof -
  note r = releasedD [OF rel]
  have "direct0 (get_inode m d) < 65528" if "d < 256" "is_dir m d" "vacantFile (get_inode m d) \<noteq> 0" for d
    using inv that by (auto simp: fs_inv_def dir_blocks_ok_def)
  then show ?thesis
    using own r(1-4) unfolding same_dirs_def no_dir_blocks_def by (auto simp: is_dir_def dir_block_def)
qed

section \<open>\<^verbatim>\<open>fs_remove\<close> on a path\<close>

text \<open>The path names inode \<open>q\<close> in directory \<open>p\<close>.\<close>

definition names_file :: "mem \<Rightarrow> cstring \<Rightarrow> nat \<Rightarrow> nat \<Rightarrow> bool" where
  "names_file m path p q \<longleftrightarrow> isValidPath (Some path) \<and> 0 \<notin> set path \<and> length (c_basename path) < 32 \<and>
     resolve m 0 (strtok_all slash (c_dirname path)) = Some p \<and> is_dir m p \<and>
     lookup m p (c_basename path) = Some q \<and> q \<noteq> 0"

lemma path_parts_no_nul:
  assumes "0 \<notin> set path"
  shows "0 \<notin> set (c_dirname path)" "0 \<notin> set (c_basename path)"
proof -
  have "set (dropWhile P (dropWhile Q (rev path))) \<subseteq> set path" for P Q
    by (auto dest!: set_dropWhileD)
  then have "set (c_dirname path) \<subseteq> insert slash (set path)" by (auto simp: c_dirname_def Let_def)
  moreover have "slash \<noteq> 0" by simp
  ultimately show "0 \<notin> set (c_dirname path)" using assms by auto
  show "0 \<notin> set (c_basename path)" using assms by (auto simp: c_basename_def dest: set_takeWhileD)
qed

lemma fs_remove_unfold:
  assumes inv: "fs_inv m" and n: "names_file m path p q"
  shows "p < 256" and "q < 256"
    and "fs_remove (Some (the_fs h)) (Some path) m =
      (let fileInode = get_inode m q; name = c_basename path in
       if fileType fileInode = ch_r then
         (if linkCount fileInode > 1 then (0, put_inode q (fileInode\<lparr>linkCount := linkCount fileInode - 1\<rparr>) m)
          else remove_entry (the_fs h) p (get_inode m p) (dir_block m p) q name (release_file (the_fs h) fileInode m))
       else if \<not> isDirectoryEmpty fileInode then (-8, m)
       else (let (r2, currentDir) = read_block (the_fs h) (direct0 fileInode) zero_block m in
             if r2 = 0 then (-9, m)
             else remove_entry (the_fs h) p (get_inode m p) (dir_block m p) q name
               (block_store_release (BlockStore_whole (the_fs h)) (direct0 fileInode)
                 (snd (write_block (the_fs h) (direct0 fileInode)
                   (buf_write currentDir 0 (replicate SIZE_OF_ENTRY_BYTE 0)) m)))))"
proof -
  have v: "isValidPath (Some path)" "0 \<notin> set path" "length (c_basename path) < 32" "is_dir m p" "q \<noteq> 0"
    and r: "resolve m 0 (strtok_all slash (c_dirname path)) = Some p" and l: "lookup m p (c_basename path) = Some q"
    using n by (simp_all add: names_file_def)
  note nul = path_parts_no_nul [OF v(2)]
  show p: "p < 256" using resolve_bound [OF _ r] by simp
  show q: "q < 256" using lookup_inode_bound [OF l] .
  have ok: "dirs_ok m" "ids_ok m" "is_dir m 0" using inv by (auto simp: fs_inv_def)
  have okp: "dir_ok m p" using ok(1) p v(4) by (simp add: dirs_ok_def)
  have d: "getParentDirInodeID (the_fs h) (c_dirname path) m = p"
    using getParentDirInodeID_resolve [OF ok nul(1), of h] r v(4) by simp
  have f: "getFileInodeID (the_fs h) p (c_basename path) m = q"
    using getFileInodeID_lookup [OF p okp nul(2), of h] l by simp
  have wf: "inode_wf (ino\<lparr>linkCount := c\<rparr>)" if "inode_wf ino" for ino c using that by (simp add: inode_wf_def)
  show "fs_remove (Some (the_fs h)) (Some path) m =
      (let fileInode = get_inode m q; name = c_basename path in
       if fileType fileInode = ch_r then
         (if linkCount fileInode > 1 then (0, put_inode q (fileInode\<lparr>linkCount := linkCount fileInode - 1\<rparr>) m)
          else remove_entry (the_fs h) p (get_inode m p) (dir_block m p) q name (release_file (the_fs h) fileInode m))
       else if \<not> isDirectoryEmpty fileInode then (-8, m)
       else (let (r2, currentDir) = read_block (the_fs h) (direct0 fileInode) zero_block m in
             if r2 = 0 then (-9, m)
             else remove_entry (the_fs h) p (get_inode m p) (dir_block m p) q name
               (block_store_release (BlockStore_whole (the_fs h)) (direct0 fileInode)
                 (snd (write_block (the_fs h) (direct0 fileInode)
                   (buf_write currentDir 0 (replicate SIZE_OF_ENTRY_BYTE 0)) m)))))"
    using v p q by (auto simp: fs_remove_def Let_def d f read_dir_the_fs [OF p okp] wf isValidPath_def split: prod.splits)
qed

text \<open>A regular file with one link, \<open>k\<close> the entry that the prefix search finds.\<close>

definition removed_file :: "mem \<Rightarrow> int \<Rightarrow> nat \<Rightarrow> nat \<Rightarrow> cstring \<Rightarrow> mem \<Rightarrow> bool" where
  "removed_file m h p q name m' \<longleftrightarrow> fs_inv m' \<and>
     (\<forall>d<256. is_dir m' d \<longleftrightarrow> is_dir m d) \<and>
     (\<forall>d<256. is_dir m d \<longrightarrow> (\<forall>n. lookup m' d n = (if d = p \<and> n = name then None else lookup m d n))) \<and>
     get_inode m' q = zero_inode \<and> (\<forall>i<256. bitmap_test inode_bm i m' \<longleftrightarrow> i \<noteq> q \<and> bitmap_test inode_bm i m) \<and>
     (\<forall>i<256. i \<noteq> p \<and> i \<noteq> q \<longrightarrow> get_inode m' i = get_inode m i) \<and>
     (\<forall>j<65528. bitmap_test whole_bm j m' \<longleftrightarrow> bitmap_test whole_bm j m \<and> j \<notin> file_blocks h m (get_inode m q)) \<and>
     (\<forall>j<65528. 17 \<le> j \<and> j \<noteq> direct0 (get_inode m p) \<longrightarrow> get_block m' j = get_block m j) \<and>
     (\<forall>ob. ob \<noteq> Image \<longrightarrow> m' ob = m ob) \<and>
     get_inode m' p = (get_inode m p)\<lparr>vacantFile := vacantFile (get_inode m' p)\<rparr> \<and>
     (\<forall>j<32. bit (vacantFile (get_inode m' p)) j \<longleftrightarrow>
        bit (vacantFile (get_inode m p)) j \<and> (j < 31 \<longrightarrow> entry_name (dir_block m p) j \<noteq> name))"

lemma removed_descriptors:
  assumes "removed_file m h p q name m'"
  shows "bitmap_test fd_bm f m' = bitmap_test fd_bm f m \<and> get_fd m' f = get_fd m f"
proof -
  have "m' FdBits = m FdBits" "m' FdData = m FdData" using assms by (simp_all add: removed_file_def)
  then show ?thesis using fd_test_object get_fd_Image by metis
qed

lemma fs_remove_regular:
  assumes inv: "fs_inv m" and n: "names_file m path p q"
    and reg: "fileType (get_inode m q) = ch_r" "\<not> 1 < linkCount (get_inode m q)" "bitmap_test inode_bm q m"
    and own: "file_blocks h m (get_inode m q) \<subseteq> {..<65528}" "no_dir_blocks m (file_blocks h m (get_inode m q))"
    and k: "getFileIndexInDir (get_inode m p) (dir_block m p) (c_basename path) = int k"
  shows "\<exists>m'. fs_remove (Some (the_fs h)) (Some path) m = (0, m') \<and>
    removed_file m h p q (entry_name (dir_block m p) k) m'"
proof -
  note b = fs_remove_unfold(1,2) [OF inv n]
  have p: "is_dir m p" "q \<noteq> 0" using n by (simp_all add: names_file_def)
  have nd: "\<not> is_dir m q" using reg(1) by (simp add: is_dir_def)
  then have qp: "q \<noteq> p" using p(1) by auto
  define m1 where "m1 = release_file (the_fs h) (get_inode m q) m"
  have rel: "released (file_blocks h m (get_inode m q)) m m1"
    unfolding m1_def by (rule release_file_released [OF inode_wf_get own(1)])
  note same = released_same_dirs [OF inv rel own(2)]
  note r = releasedD [OF rel] and ri = same_dirsD(1,3,4) [OF same]
  have k': "k < 31" "bit (vacantFile (get_inode m p)) k" using index_found_less [OF k] by auto
  then have v0: "vacantFile (get_inode m p) \<noteq> 0" by auto
  have dp: "17 \<le> direct0 (get_inode m p)" "direct0 (get_inode m p) < 65528"
    using inv b(1) p(1) v0 by (auto simp: fs_inv_def dir_blocks_ok_def)
  note ip = r(3) [OF b(1)] and bp = ri(2) [OF b(1) p(1) v0]
  have ku: "dir_used m1 p k" using k' by (simp add: dir_used_def ip)
  have p1: "is_dir m1 p" using ri(1) [OF b(1)] p(1) by simp
  let ?m' = "removed p (get_inode m p) (dir_block m p) k q m1"
  note tab = removed_tables [OF same_dirs_inv [OF inv same] b(1) p1 ku b(2) qp p(2), unfolded ip bp]
  note fr = removed_frame [OF b(1) inode_wf_get b(2) qp dp k'(1) length_dir_block, where m = m1]
  have "remove_entry (the_fs h) p (get_inode m p) (dir_block m p) q (c_basename path) m1 = (0, ?m')"
    using dp(2) reg(3) r(4) [OF b(2)] by (intro remove_entry_removed b k inode_wf_get length_dir_block) simp_all
  then have "fs_remove (Some (the_fs h)) (Some path) m = (0, ?m')"
    unfolding fs_remove_unfold(3) [OF inv n] using reg(1,2) by (simp add: m1_def Let_def)
  moreover have "removed_file m h p q (entry_name (dir_block m p) k) ?m'"
    unfolding removed_file_def
  proof (intro conjI allI impI)
    show "fs_inv ?m'" by (rule tab(3))
    show "is_dir ?m' d \<longleftrightarrow> is_dir m d" if "d < 256" for d using tab(1) [OF that] ri(1) [OF that] nd by auto
    show "lookup ?m' d x = (if d = p \<and> x = entry_name (dir_block m p) k then None else lookup m d x)"
      if d: "d < 256" "is_dir m d" for d x
    proof -
      have "d \<noteq> q" using d nd by auto
      then show ?thesis using tab(2) [of d x] ri(1,3) [of d] d by simp
    qed
    show "get_inode ?m' q = zero_inode" by (rule fr(1))
    show "bitmap_test inode_bm i ?m' \<longleftrightarrow> i \<noteq> q \<and> bitmap_test inode_bm i m" if "i < 256" for i
      using fr(7) [OF that] r(4) [OF that] by simp
    show "get_inode ?m' i = get_inode m i" if "i < 256" "i \<noteq> p \<and> i \<noteq> q" for i
      using fr(3) [of i] r(3) [of i] that by simp
    show "bitmap_test whole_bm j ?m' \<longleftrightarrow> bitmap_test whole_bm j m \<and> j \<notin> file_blocks h m (get_inode m q)" if "j < 65528" for j
      using fr(6) [OF that] r(1) [OF that] by simp
    show "get_block ?m' j = get_block m j" if "j < 65528" "17 \<le> j \<and> j \<noteq> direct0 (get_inode m p)" for j
      using fr(5) [of j] r(2) [of j] that by simp
    show "?m' ob = m ob" if "ob \<noteq> Image" for ob using fr(8) [OF that] r(5) [OF that] by simp
    show "get_inode ?m' p = (get_inode m p)\<lparr>vacantFile := vacantFile (get_inode ?m' p)\<rparr>" unfolding fr(2) by simp
    have "dir_ok m p" using inv b(1) p(1) by (simp add: fs_inv_def dirs_ok_def)
    then have "j = k" if "j < 31" "bit (vacantFile (get_inode m p)) j" "entry_name (dir_block m p) j = entry_name (dir_block m p) k" for j
      using that k' unfolding dir_ok_def dir_used_def by blast
    then show "bit (vacantFile (get_inode ?m' p)) j \<longleftrightarrow>
        bit (vacantFile (get_inode m p)) j \<and> (j < 31 \<longrightarrow> entry_name (dir_block m p) j \<noteq> entry_name (dir_block m p) k)"
      if "j < 32" for j
      using that k' unfolding fr(2) by (cases "j = k") (auto simp: bit_vacant_reset)
  qed
  ultimately show ?thesis by blast
qed

text \<open>The entry of the name itself is found when no other name in the directory starts with it.\<close>

lemma index_of_name:
  assumes ok: "dir_ok m p" and nul: "0 \<notin> set name" and l: "lookup m p name = Some q"
    and pre: "\<forall>j. dir_used m p j \<and> take (length name) (entry_name (dir_block m p) j) = name \<longrightarrow>
      entry_name (dir_block m p) j = name"
  shows "\<exists>k. getFileIndexInDir (get_inode m p) (dir_block m p) name = int k \<and> entry_name (dir_block m p) k = name"
proof -
  let ?P = "\<lambda>j. bit (vacantFile (get_inode m p)) j \<and> entry_name (dir_block m p) j = name"
  obtain k where k: "find ?P [0..<31] = Some k" using l by (auto simp: lookup_def lookup_in_def)
  then have "entry_name (dir_block m p) k = name" by (auto simp: find_Some_iff)
  moreover
  have "find (\<lambda>i. bit (vacantFile (get_inode m p)) i \<and> take (length name) (entry_name (dir_block m p) i) = name) [0..<31] =
      find ?P [0..<31]"
    using pre by (intro find_cong_on) (auto simp: dir_used_def)
  with k have "getFileIndexInDir (get_inode m p) (dir_block m p) name = int k"
    unfolding getFileIndexInDir_prefix [OF nul] by simp
  ultimately show ?thesis by blast
qed

lemma fs_remove_single:
  assumes "fs_inv m" and "names_file m path p q"
    and "fileType (get_inode m q) = ch_r" and "\<not> 1 < linkCount (get_inode m q)" and "bitmap_test inode_bm q m"
    and "file_blocks h m (get_inode m q) \<subseteq> {..<65528}" and "no_dir_blocks m (file_blocks h m (get_inode m q))"
    and "\<forall>j. dir_used m p j \<and> take (length (c_basename path)) (entry_name (dir_block m p) j) = c_basename path \<longrightarrow>
      entry_name (dir_block m p) j = c_basename path"
  shows "\<exists>m'. fs_remove (Some (the_fs h)) (Some path) m = (0, m') \<and> removed_file m h p q (c_basename path) m'"
proof -
  have n: "0 \<notin> set (c_basename path)" "lookup m p (c_basename path) = Some q"
    using assms(2) path_parts_no_nul(2) by (auto simp: names_file_def)
  have "dir_ok m p" using assms(1,2) fs_remove_unfold(1) [OF assms(1,2)] by (auto simp: fs_inv_def dirs_ok_def names_file_def)
  then obtain k where "getFileIndexInDir (get_inode m p) (dir_block m p) (c_basename path) = int k"
    "entry_name (dir_block m p) k = c_basename path"
    using index_of_name [OF _ n assms(8)] by blast
  then show ?thesis using fs_remove_regular [OF assms(1-7)] by metis
qed

section \<open>Removing a directory that never had an entry\<close>

lemma put_block_0_inode_bits:
  assumes "i < 256"
  shows "\<not> bitmap_test inode_bm i (put_block 0 (buf_write (get_block m 0) 0 (replicate 33 0)) m)"
proof -
  have "i div 8 < 32" using assms by (simp add: less_mult_imp_div_less)
  then have "byte_at (put_block 0 (buf_write (get_block m 0) 0 (replicate 33 0)) m) (Image, i div 8) = 0"
    by (simp add: byte_at_def put_block_def mwrite_def nth_buf_write)
  then show ?thesis by (simp add: bitmap_test_bit bitmap_byte_def)
qed

lemma remove_entry_bits:
  assumes p: "p < 256" "inode_wf pino" "17 \<le> direct0 pino" "direct0 pino < 65528" and q: "q < 256" and i: "i < 256"
    and k: "getFileIndexInDir pino blk name = int k" and m': "remove_entry (the_fs h) p pino blk q name m = (r, m')"
  shows "r = 0" and "bitmap_test inode_bm i m' \<longleftrightarrow> i \<noteq> q \<and> bitmap_test inode_bm i m"
    and "j < 65528 \<Longrightarrow> bitmap_test whole_bm j m' \<longleftrightarrow> bitmap_test whole_bm j m"
proof -
  have wf: "inode_wf (pino\<lparr>vacantFile := v\<rparr>)" for v using p(2) by (simp add: inode_wf_def)
  define m1 where "m1 = block_store_release (Some inode_store) q (put_inode q zero_inode m)"
  have m1: "bitmap_test inode_bm i m1 \<longleftrightarrow> i \<noteq> q \<and> bitmap_test inode_bm i m"
    "j < 65528 \<Longrightarrow> bitmap_test whole_bm j m1 \<longleftrightarrow> bitmap_test whole_bm j m" for j
    using q i by (auto simp: m1_def block_store_release_def Let_def bitmap_test_reset inode_test_put_inode
        whole_test_put_inode bitmap_test_reset_other)
  have "\<exists>bs. m' = put_inode p (pino\<lparr>vacantFile := vacant_reset (vacantFile pino) k\<rparr>) (put_block (direct0 pino) bs m1) \<and> r = 0"
    using m' p q k wf by (auto simp: remove_entry_def Let_def m1_def)
  then show "r = 0" "bitmap_test inode_bm i m' \<longleftrightarrow> i \<noteq> q \<and> bitmap_test inode_bm i m"
    "j < 65528 \<Longrightarrow> bitmap_test whole_bm j m' \<longleftrightarrow> bitmap_test whole_bm j m"
    using m1 i p wf by (auto simp: inode_test_put_inode inode_test_put_block whole_test_put_inode whole_test_put_block)
qed

lemma fs_remove_empty_directory:
  assumes inv: "fs_inv m" and n: "names_file m path p q"
    and dir: "is_dir m q" "vacantFile (get_inode m q) = 0" "directPointer (get_inode m q) ! 0 = 0"
    and k: "getFileIndexInDir (get_inode m p) (dir_block m p) (c_basename path) = int k"
  shows "\<exists>m'. fs_remove (Some (the_fs h)) (Some path) m = (0, m') \<and>
    (\<forall>i<256. \<not> bitmap_test inode_bm i m') \<and> \<not> bitmap_test whole_bm 0 m'"
proof -
  note b = fs_remove_unfold(1,2) [OF inv n]
  have p: "is_dir m p" using n by (simp add: names_file_def)
  have "k < 31" "bit (vacantFile (get_inode m p)) k" using index_found_less [OF k] by auto
  then have v0: "vacantFile (get_inode m p) \<noteq> 0" by auto
  then have dp: "17 \<le> direct0 (get_inode m p)" "direct0 (get_inode m p) < 65528"
    using inv b(1) p by (auto simp: fs_inv_def dir_blocks_ok_def)
  let ?m1 = "put_block 0 (buf_write (get_block m 0) 0 (replicate 33 0)) m"
  define m2 where "m2 = block_store_release (Some (whole_store h)) 0 ?m1"
  note rel = released_block [of 0 ?m1 h, folded m2_def, simplified]
  obtain r m' where m': "remove_entry (the_fs h) p (get_inode m p) (dir_block m p) q (c_basename path) m2 = (r, m')"
    by fastforce
  have nr: "fileType (get_inode m q) \<noteq> ch_r" using dir(1) by (simp add: is_dir_def)
  have e: "isDirectoryEmpty (get_inode m q)" using dir(2) by (simp add: isDirectoryEmpty_bits)
  have "fs_remove (Some (the_fs h)) (Some path) m = (r, m')"
    unfolding fs_remove_unfold(3) [OF inv n] using nr e dir(3) m' by (simp add: Let_def m2_def)
  moreover note ent = remove_entry_bits [OF b(1) inode_wf_get dp b(2) _ k m']
  have "\<not> bitmap_test inode_bm i m'" if "i < 256" for i
    using ent(2) [OF that] releasedD(4) [OF rel that] put_block_0_inode_bits [OF that] by simp
  moreover have "\<not> bitmap_test whole_bm 0 m'" using ent(3) [of 0 0] releasedD(1) [OF rel, of 0] by simp
  moreover have "r = 0" using ent(1) [of 0] by simp
  ultimately show ?thesis by blast
qed

section \<open>An example\<close>

text \<open>The state after \<^verbatim>\<open>fs_create\<close> of \<^verbatim>\<open>/a\<close> on a fresh image.\<close>

lemma path_a: "isValidPath (Some (str ''/a''))" "0 \<notin> set (str ''/a'')" "c_basename (str ''/a'') = str ''a''"
  "strtok_all slash (c_dirname (str ''/a'')) = []" "length (str ''a'') < 32"
  by code_simp+

lemma created_example:
  assumes "type = FS_REGULAR \<or> type = FS_DIRECTORY"
  obtains q m' where "fs_create (Some (the_fs 3)) (Some (str ''/a'')) type formatted = Some (0, m')"
    "create_effect formatted 0 (str ''a'') type q m'" "names_file m' (str ''/a'') 0 q" "fs_inv m'"
    "\<And>n. lookup m' 0 n = (if n = str ''a'' then Some q else None)"
    "\<exists>k. getFileIndexInDir (get_inode m' 0) (dir_block m' 0) (str ''a'') = int k"
    "\<And>j. dir_used m' 0 j \<Longrightarrow> entry_name (dir_block m' 0) j = str ''a''"
proof -
  obtain q m' where c: "fs_create (Some (the_fs 3)) (Some (str ''/a'')) type formatted = Some (0, m')"
      "create_effect formatted 0 (str ''a'') type q m'"
    using fs_create_effect [OF formatted_inv example_tokens(1,2) assms formatted_create_possible, of 3] by auto
  have l: "lookup m' 0 n = (if n = str ''a'' then Some q else None)" for n
    using c(2) formatted_simps(2,3) by (simp add: create_effect_def)
  have inv: "fs_inv m'" using c(2) by (simp add: create_effect_def)
  have d0: "is_dir formatted 0" "is_dir m' 0" using inv formatted_simps(2) by (simp_all add: fs_inv_def)
  have "\<not> bitmap_test inode_bm q formatted" using c(2) by (simp add: create_effect_def)
  then have q: "q \<noteq> 0" using formatted_simps(6) [of 0] by (intro notI) simp
  have ok: "dir_ok m' 0" using inv d0(2) by (simp add: fs_inv_def dirs_ok_def)
  have u: "entry_name (dir_block m' 0) j = str ''a''" if "dir_used m' 0 j" for j
    using used_lookup [OF ok that] l [of "entry_name (dir_block m' 0) j"] by (auto split: if_splits)
  have "names_file m' (str ''/a'') 0 q"
    using path_a d0(2) l q by (simp add: names_file_def)
  moreover have "\<exists>k. getFileIndexInDir (get_inode m' 0) (dir_block m' 0) (str ''a'') = int k"
    using index_of_name [OF ok, of "str ''a''" q] l u example_tokens(3) by auto
  ultimately show thesis using that c inv l u by blast
qed

lemma file_blocks_new [simp]: "file_blocks h m (new_inode type q) = {}"
  by (simp add: file_blocks_def ptr_blocks_def indirect_blocks_def double_blocks_def)

lemma no_dir_blocks_empty [simp]: "no_dir_blocks m {}"
  by (simp add: no_dir_blocks_def)

text \<open>
  A root directory with two names: \<open>a\<close> for inode \<open>i\<close> in entry 0, and \<open>b\<close> in entry 1 for inode 2,
  a regular file with \<open>links\<close> links.
\<close>

definition two_root :: inode_t where
  "two_root = root_inode\<lparr>vacantFile := 3, directPointer := [17, 0, 0, 0, 0, 0]\<rparr>"

definition two_block :: "cstring \<Rightarrow> uint8_t \<Rightarrow> cstring \<Rightarrow> byte list" where
  "two_block a i b = put_entry (put_entry zero_block 0 (a @ [0]) i) 1 (b @ [0]) 2"

definition two_names :: "cstring \<Rightarrow> uint8_t \<Rightarrow> cstring \<Rightarrow> uint64_t \<Rightarrow> mem" where
  "two_names a i b links = put_inode 2 ((new_inode FS_REGULAR 2)\<lparr>linkCount := links\<rparr>) (bitmap_set inode_bm 2
     (put_inode 0 two_root (bitmap_set whole_bm 17 (put_block 17 (two_block a i b) formatted))))"

lemma bit_three: "bit (3 :: uint32_t) j \<longleftrightarrow> j < 2"
proof -
  have "(3 :: uint32_t) = Bit_Operations.mask 2" by (simp add: mask_eq_exp_minus_1)
  then show ?thesis by (simp only: bit_mask_iff) auto
qed

lemma less_two: "(j :: nat) < 2 \<longleftrightarrow> j = 0 \<or> j = 1"
  by auto

lemma two_block_names:
  assumes "0 \<notin> set a" "length a < 32" "0 \<notin> set b" "length b < 32"
  shows "length (two_block a i b) = 1024" "entry_name (two_block a i b) 0 = a" "entry_name (two_block a i b) 1 = b"
    "entry_inode (two_block a i b) 0 = i" "entry_inode (two_block a i b) 1 = 2"
proof -
  let ?b0 = "put_entry zero_block 0 (a @ [0]) i"
  have n0: "entry_name ?b0 0 = a" using entry_name_put_same [of zero_block 0 a "[]" i] assms by simp
  have l0: "length ?b0 = 1024" using assms by simp
  show "length (two_block a i b) = 1024" using assms l0 by (simp add: two_block_def)
  show "entry_name (two_block a i b) 0 = a"
    using entry_name_put_other [OF l0, of 1 0 "b @ [0]" 2] n0 assms by (simp add: two_block_def)
  show "entry_name (two_block a i b) 1 = b"
    using entry_name_put_same [OF l0, of 1 b "[]" 2] assms by (simp add: two_block_def)
  show "entry_inode (two_block a i b) 0 = i" "entry_inode (two_block a i b) 1 = 2"
    using assms l0 by (simp_all add: two_block_def entry_inode_put)
qed

lemma two_names_state:
  fixes i :: uint8_t and links :: uint64_t and a b :: cstring
  assumes n: "0 \<notin> set a" "length a < 32" "0 \<notin> set b" "length b < 32" "a \<noteq> b"
  defines "m \<equiv> two_names a i b links"
  shows "get_inode m 0 = two_root" "get_inode m 2 = (new_inode FS_REGULAR 2)\<lparr>linkCount := links\<rparr>"
    "dir_block m 0 = two_block a i b" "fs_inv m" "is_dir m 0" "bitmap_test inode_bm 2 m"
    "lookup m 0 a = Some (unat i)" "lookup m 0 b = Some 2" "dir_used m 0 j \<longleftrightarrow> j < 2"
proof -
  note tb = two_block_names [OF n(1-4), of i]
  have wf: "inode_wf two_root" "inode_wf ((new_inode FS_REGULAR 2)\<lparr>linkCount := links\<rparr>)"
    using inode_wf_root inode_wf_new [of FS_REGULAR 2] by (simp_all add: two_root_def inode_wf_def)
  show i0: "get_inode m 0 = two_root" and i2: "get_inode m 2 = (new_inode FS_REGULAR 2)\<lparr>linkCount := links\<rparr>"
    by (simp_all add: m_def two_names_def get_put_inode get_inode_alloc wf)
  have ix: "get_inode m x = zero_inode" if "x < 256" "x \<noteq> 0" "x \<noteq> 2" for x
    using fresh_formatted that
    by (simp add: m_def two_names_def get_put_inode get_inode_alloc wf get_inode_put_block fresh_fs_def)
  have gb: "get_block (bitmap_set inode_bm 2 m0) 17 = get_block m0 17" for m0
    unfolding get_block_def by (rule bitmap_set_elsewhere) simp
  have "get_block m 17 = two_block a i b"
    using tb(1) by (simp add: m_def two_names_def get_block_put_inode wf gb get_block_alloc get_put_block)
  then show blk: "dir_block m 0 = two_block a i b" by (simp add: dir_block_def i0 two_root_def)
  have d: "is_dir m x \<longleftrightarrow> x = 0" if "x < 256" for x
    using that ix [of x] i2 by (cases "x = 0"; cases "x = 2") (simp_all add: is_dir_def i0 two_root_def root_inode_def zero_inode_def)
  then show "is_dir m 0" by simp
  show used: "dir_used m 0 j \<longleftrightarrow> j < 2" for j
    using bit_three [of j] by (auto simp: dir_used_def i0 two_root_def)
  have nm: "entry_name (two_block a i b) j = (if j = 0 then a else b)" if "j < 2" for j
    using that tb(2,3) unfolding less_two by auto
  have inj: "j = k" if "j < 2 \<and> k < 2 \<and> entry_name (two_block a i b) j = entry_name (two_block a i b) k" for j k
  proof -
    have j: "j < 2" and k: "k < 2" using that by auto
    have "(if j = 0 then a else b) = (if k = 0 then a else b)" using that nm [OF j] nm [OF k] by simp
    with n(5) j k show ?thesis unfolding less_two by (cases "j = 0"; cases "k = 0") auto
  qed
  have len: "length (entry_name (two_block a i b) j) < 32" if "j < 2" for j using n(2,4) nm [OF that] by simp
  have dp: "direct0 (get_inode m 0) \<le> 65528" by (simp add: i0 two_root_def)
  have ok: "dir_ok m 0"
    unfolding dir_ok_def blk used using inj len dp by blast
  have wb: "bitmap_test whole_bm b' m \<longleftrightarrow> b' \<le> 17" if "b' < 65528" for b'
    using that by (auto simp: m_def two_names_def whole_test_put_inode wf bitmap_test_set_other bitmap_test_set
        whole_test_put_block formatted_simps)
  have ib: "bitmap_test inode_bm x m \<longleftrightarrow> x = 0 \<or> x = 2" if "x < 256" for x
    using that by (auto simp: m_def two_names_def inode_test_put_inode bitmap_test_set bitmap_test_set_other
        inode_test_put_block formatted_simps)
  show "bitmap_test inode_bm 2 m" using ib by simp
  have "ids_ok m" using d by (simp add: ids_ok_def i0 two_root_def root_inode_def zero_inode_def)
  moreover have "dir_blocks_ok m" using d unfolding dir_blocks_ok_def by (auto simp: i0 two_root_def wb)
  ultimately show "fs_inv m" using ok d wb ib by (simp add: fs_inv_def dirs_ok_def)
  show "lookup m 0 a = Some (unat i)" "lookup m 0 b = Some 2"
    using used_lookup [OF ok, of 0] used_lookup [OF ok, of 1] used tb by (simp_all add: blk)
qed

section \<open>Properties\<close>

text \<open>C13: removing a regular file with a single link takes its name, and no other, out of its
  directory, frees its inode and exactly the blocks that its direct, indirect and double indirect
  pointers reach, and keeps the invariant. This needs that the blocks belong to the file alone and
  that no other name in the directory starts with the name removed. The descriptors that are open on
  the file stay open, each at its position, on the inode that is now free; the header and the readme
  say that they are closed.\<close>

theorem fs_remove_file:
  assumes "fs_inv m" and "names_file m path p q"
    and "fileType (get_inode m q) = ch_r" and "\<not> 1 < linkCount (get_inode m q)" and "bitmap_test inode_bm q m"
    and "file_blocks h m (get_inode m q) \<subseteq> {..<65528}" and "no_dir_blocks m (file_blocks h m (get_inode m q))"
    and "\<forall>j. dir_used m p j \<and> take (length (c_basename path)) (entry_name (dir_block m p) j) = c_basename path \<longrightarrow>
      entry_name (dir_block m p) j = c_basename path"
  shows "\<exists>m'. fs_remove (Some (the_fs h)) (Some path) m = (0, m') \<and> removed_file m h p q (c_basename path) m' \<and>
    (\<forall>f<256. bitmap_test fd_bm f m' = bitmap_test fd_bm f m \<and> get_fd m' f = get_fd m f)"
  using fs_remove_single [OF assms] removed_descriptors by blast

theorem fs_remove_file_witness:
  "\<exists>q m f m1 m'. fs_create (Some (the_fs 3)) (Some (str ''/a'')) FS_REGULAR formatted = Some (0, m) \<and>
    fs_open (Some (the_fs 3)) (Some (str ''/a'')) m = Some (int f, m1) \<and>
    fs_remove (Some (the_fs 3)) (Some (str ''/a'')) m1 = (0, m') \<and> removed_file m1 3 0 q (str ''a'') m' \<and>
    bitmap_test fd_bm f m' \<and> inodeNum (get_fd m' f) = of_nat q"
proof -
  obtain q m where c: "fs_create (Some (the_fs 3)) (Some (str ''/a'')) FS_REGULAR formatted = Some (0, m)"
    "create_effect formatted 0 (str ''a'') FS_REGULAR q m" "names_file m (str ''/a'') 0 q" "fs_inv m"
    "\<And>j. dir_used m 0 j \<Longrightarrow> entry_name (dir_block m 0) j = str ''a''"
    by (rule created_example [of FS_REGULAR]) auto
  have i: "get_inode m q = new_inode FS_REGULAR q" "bitmap_test inode_bm q m" "q < 256" "\<not> bitmap_test fd_bm 0 m"
    using c(2) formatted_simps(5) [of 0] fd_test_object [of m formatted 0] by (auto simp: create_effect_def)
  have r: "resolve m 0 [str ''a''] = Some q" using c(3) path_a(3,4) by (simp add: names_file_def)
  have dirs: "dirs_ok m" "is_dir m 0" "\<not> is_dir m q" using c(4) i(1) by (simp_all add: fs_inv_def is_dir_def)
  have free: "\<exists>f<256. \<not> bitmap_test fd_bm f m" using i(4) by (intro exI [of _ 0]) simp
  define f where "f = bitmap_ffz (Some fd_bm) m"
  define m1 where "m1 = opened f q m"
  note f = ffz_fd_free(1,2) [OF free, folded f_def]
  have o: "fs_open (Some (the_fs 3)) (Some (str ''/a'')) m = Some (int f, m1)"
    using fs_open_cases(4) [OF dirs(1) example_tokens(1,2) r _ dirs(3), of 3] f(1) by (simp add: f_def m1_def)
  have img: "m1 Image = m Image" by (simp add: m1_def opened_fd(3))
  have sd: "same_dirs m m1" by (rule same_dirs_image) (rule img)
  note d0 = same_dirsD [OF sd, of 0, simplified]
  have n1: "names_file m1 (str ''/a'') 0 q" using c(3) d0(1,4) dirs(2) path_a by (simp add: names_file_def)
  have i1: "get_inode m1 q = new_inode FS_REGULAR q" using image_cong(2) [where m = m and m' = m1, OF img] i(1) by simp
  have b1: "bitmap_test inode_bm q m1"
  proof -
    have "bitmap_test inode_bm q m1 = bitmap_test inode_bm q m"
      by (rule bitmap_test_cong) (simp add: img byte_at_def bitmap_byte_def inode_bm_def)
    with i(2) show ?thesis by simp
  qed
  have u1: "entry_name (dir_block m1 0) j = str ''a''" if "dir_used m1 0 j" for j
  proof -
    have u: "dir_used m 0 j" using that d0(5) [OF dirs(2), of j] by blast
    then have v: "vacantFile (get_inode m 0) \<noteq> 0" by (auto simp: dir_used_def)
    from c(5) [OF u] d0(3) [OF dirs(2) v] show ?thesis by simp
  qed
  have "\<exists>m'. fs_remove (Some (the_fs 3)) (Some (str ''/a'')) m1 = (0, m') \<and>
      removed_file m1 3 0 q (c_basename (str ''/a'')) m' \<and>
      (\<forall>f<256. bitmap_test fd_bm f m' = bitmap_test fd_bm f m1 \<and> get_fd m' f = get_fd m1 f)"
    by (rule fs_remove_file [OF same_dirs_inv [OF c(4) sd] n1]) (use i1 b1 u1 path_a(3) in simp_all)
  then obtain m' where "fs_remove (Some (the_fs 3)) (Some (str ''/a'')) m1 = (0, m')" "removed_file m1 3 0 q (str ''a'') m'"
    "bitmap_test fd_bm f m' = bitmap_test fd_bm f m1" "get_fd m' f = get_fd m1 f"
    using f(2) unfolding path_a(3) by blast
  moreover have "bitmap_test fd_bm f m1" "inodeNum (get_fd m1 f) = of_nat q" using f(2) by (simp_all add: m1_def opened_fd)
  ultimately show ?thesis using c(1) o by metis
qed

text \<open>C34: when another name that starts with the name removed comes first in the directory, \<^verbatim>\<open>fs_remove\<close> takes that
  other name out; the name it was to remove still leads to the inode it has just freed.\<close>

theorem fs_remove_wrong_entry:
  assumes "fs_inv m" and "names_file m path p q"
    and "fileType (get_inode m q) = ch_r" and "\<not> 1 < linkCount (get_inode m q)" and "bitmap_test inode_bm q m"
    and "file_blocks h m (get_inode m q) \<subseteq> {..<65528}" and "no_dir_blocks m (file_blocks h m (get_inode m q))"
    and "find (\<lambda>j. dir_used m p j \<and> take (length (c_basename path)) (entry_name (dir_block m p) j) = c_basename path) [0..<31] = Some k"
    and "other = entry_name (dir_block m p) k" and "other \<noteq> c_basename path"
  shows "\<exists>m'. fs_remove (Some (the_fs h)) (Some path) m = (0, m') \<and> lookup m' p other = None \<and>
    lookup m' p (c_basename path) = Some q \<and> get_inode m' q = zero_inode \<and> \<not> bitmap_test inode_bm q m'"
proof -
  have n: "0 \<notin> set (c_basename path)" "lookup m p (c_basename path) = Some q" "is_dir m p"
    using assms(2) path_parts_no_nul(2) by (auto simp: names_file_def)
  note b = fs_remove_unfold(1,2) [OF assms(1,2)]
  have "find (\<lambda>i. bit (vacantFile (get_inode m p)) i \<and>
      take (length (c_basename path)) (entry_name (dir_block m p) i) = c_basename path) [0..<31] = Some k"
    using assms(8) by (subst find_cong_on) (auto simp: dir_used_def)
  then have "getFileIndexInDir (get_inode m p) (dir_block m p) (c_basename path) = int k"
    unfolding getFileIndexInDir_prefix [OF n(1)] by simp
  from fs_remove_regular [OF assms(1-7) this] obtain m' where
    m': "fs_remove (Some (the_fs h)) (Some path) m = (0, m')" "removed_file m h p q other m'"
    using assms(9) by blast
  then show ?thesis using n b assms(10) by (auto simp: removed_file_def)
qed

theorem fs_remove_wrong_entry_witness:
  "\<exists>m'. fs_remove (Some (the_fs 3)) (Some (str ''/a'')) (two_names (str ''ab'') 1 (str ''a'') 1) = (0, m') \<and>
    lookup m' 0 (str ''ab'') = None \<and> lookup m' 0 (str ''a'') = Some 2 \<and> get_inode m' 2 = zero_inode"
proof -
  have n: "0 \<notin> set (str ''ab'')" "length (str ''ab'') < 32" "0 \<notin> set (str ''a'')" "length (str ''a'') < 32"
    "str ''ab'' \<noteq> str ''a''" "take (length (str ''a'')) (str ''ab'') = str ''a''"
    by code_simp+
  note st = two_names_state [OF n(1-5), of 1 1] and tb = two_block_names [OF n(1-4), of 1]
  let ?m = "two_names (str ''ab'') 1 (str ''a'') 1"
  have "names_file ?m (str ''/a'') 0 2" using path_a st(5,8) by (simp add: names_file_def)
  moreover have "file_blocks 3 ?m (get_inode ?m 2) = {}"
    by (simp add: st(2) file_blocks_def ptr_blocks_def indirect_blocks_def double_blocks_def)
  moreover have "find (\<lambda>j. dir_used ?m 0 j \<and> take (length (c_basename (str ''/a''))) (entry_name (dir_block ?m 0) j) =
      c_basename (str ''/a'')) [0..<31] = Some 0"
    using n(6) by (simp add: path_a(3) st(3,9) tb upt_rec)
  ultimately show ?thesis
    using fs_remove_wrong_entry [OF st(4), of "str ''/a''" 0 2 3 0 "str ''ab''"] st(2,3,6) tb(2) n(5)
    by (auto simp: path_a(3))
qed

text \<open>C37: removing a file that has more than one link reports success and counts one link less, but
  the name stays: the path still leads to the file.\<close>

theorem fs_remove_link_keeps_name:
  assumes "fs_inv m" and "names_file m path p q"
    and "fileType (get_inode m q) = ch_r" and "1 < linkCount (get_inode m q)"
  shows "\<exists>m'. fs_remove (Some (the_fs h)) (Some path) m = (0, m') \<and> fs_inv m' \<and> names_file m' path p q \<and>
    get_inode m' q = (get_inode m q)\<lparr>linkCount := linkCount (get_inode m q) - 1\<rparr>"
proof -
  note b = fs_remove_unfold(1,2) [OF assms(1,2)]
  let ?ino = "(get_inode m q)\<lparr>linkCount := linkCount (get_inode m q) - 1\<rparr>"
  let ?m' = "put_inode q ?ino m"
  have wf: "inode_wf ?ino" using inode_wf_get [of m q] by (simp add: inode_wf_def)
  have nd: "\<not> is_dir m q" using assms(3) by (simp add: is_dir_def)
  have i: "get_inode ?m' x = (if x = q then ?ino else get_inode m x)" for x using wf by (simp add: get_put_inode)
  have blk: "dir_block ?m' d = dir_block m d" if "d < 256" "is_dir m d" "vacantFile (get_inode m d) \<noteq> 0" for d
  proof -
    have "17 \<le> direct0 (get_inode m d)" using assms(1) that by (auto simp: fs_inv_def dir_blocks_ok_def)
    moreover have "d \<noteq> q" using that nd by auto
    ultimately show ?thesis using b wf by (simp add: dir_block_def i get_block_put_inode)
  qed
  have "is_dir ?m' d = is_dir m d" for d by (simp add: is_dir_def i)
  then have same: "same_dirs m ?m'"
    using nd blk b wf unfolding same_dirs_def by (auto simp: i whole_test_put_inode inode_test_put_inode)
  have "names_file ?m' path p q"
    using assms(2) same_dirsD(1,4) [OF same b(1)] same_dirs_resolve [OF same] by (simp add: names_file_def)
  moreover have "fs_remove (Some (the_fs h)) (Some path) m = (0, ?m')"
    unfolding fs_remove_unfold(3) [OF assms(1,2)] using assms(3,4) by (simp add: Let_def)
  ultimately show ?thesis using same_dirs_inv [OF assms(1) same] i by auto
qed

theorem fs_remove_link_keeps_name_witness:
  "\<exists>m'. fs_remove (Some (the_fs 3)) (Some (str ''/a'')) (two_names (str ''b'') 2 (str ''a'') 2) = (0, m') \<and>
    names_file m' (str ''/a'') 0 2 \<and> linkCount (get_inode m' 2) = 1"
proof -
  have n: "0 \<notin> set (str ''b'')" "length (str ''b'') < 32" "0 \<notin> set (str ''a'')" "length (str ''a'') < 32"
    "str ''b'' \<noteq> str ''a''" by code_simp+
  note st = two_names_state [OF n, of 2 2]
  have "names_file (two_names (str ''b'') 2 (str ''a'') 2) (str ''/a'') 0 2"
    using path_a st(5,8) by (simp add: names_file_def)
  from fs_remove_link_keeps_name [OF st(4) this, of 3] show ?thesis by (auto simp: st(2))
qed

text \<open>C35: removing a directory that never had an entry, whose block pointer is therefore 0, clears the first 33 bytes
  of block 0: every inode of the file system, the root included, counts as free, and so does
  block 0 itself.\<close>

theorem fs_remove_wipes_inode_bitmap:
  assumes "fs_inv m" and "names_file m path p q"
    and "is_dir m q" and "vacantFile (get_inode m q) = 0" and "directPointer (get_inode m q) ! 0 = 0"
    and "getFileIndexInDir (get_inode m p) (dir_block m p) (c_basename path) = int k"
  shows "\<exists>m'. fs_remove (Some (the_fs h)) (Some path) m = (0, m') \<and>
    (\<forall>i<256. \<not> bitmap_test inode_bm i m') \<and> \<not> bitmap_test whole_bm 0 m'"
  using fs_remove_empty_directory [OF assms] .

theorem fs_remove_wipes_inode_bitmap_witness:
  "\<exists>m m'. fs_create (Some (the_fs 3)) (Some (str ''/a'')) FS_DIRECTORY formatted = Some (0, m) \<and>
    fs_remove (Some (the_fs 3)) (Some (str ''/a'')) m = (0, m') \<and> \<not> bitmap_test inode_bm 0 m'"
proof -
  obtain q m where c: "fs_create (Some (the_fs 3)) (Some (str ''/a'')) FS_DIRECTORY formatted = Some (0, m)"
    "create_effect formatted 0 (str ''a'') FS_DIRECTORY q m" "names_file m (str ''/a'') 0 q" "fs_inv m"
    "\<exists>k. getFileIndexInDir (get_inode m 0) (dir_block m 0) (str ''a'') = int k"
    by (rule created_example [of FS_DIRECTORY]) auto
  have i: "get_inode m q = new_inode FS_DIRECTORY q" using c(2) by (simp add: create_effect_def)
  obtain k where "getFileIndexInDir (get_inode m 0) (dir_block m 0) (c_basename (str ''/a'')) = int k"
    using c(5) unfolding path_a(3) by blast
  from fs_remove_wipes_inode_bitmap [OF c(4,3) _ _ _ this, of 3] i c(1) show ?thesis by (auto simp: is_dir_def)
qed

end
