(* ===== verification/FS_Ops.thy ===== *)
theory FS_Ops
  imports FS_Remove
begin

text \<open>
  Moving and linking: \<^verbatim>\<open>fs_move\<close> and \<^verbatim>\<open>fs_link\<close>.
\<close>

unbundle bit_operations_syntax

section \<open>\<^verbatim>\<open>fs_move\<close>\<close>

text \<open>
  The last part of \<^verbatim>\<open>fs_move\<close>: take the entry out of the source directory, put it into the
  destination. When the destination directory is full, \<^verbatim>\<open>bitmap_ffz\<close> gives \<^verbatim>\<open>SIZE_MAX\<close> and the
  code writes outside its buffer: \<open>None\<close>.
\<close>

definition move_entry ::
    "F19FS_t \<Rightarrow> nat \<Rightarrow> inode_t \<Rightarrow> inode_t \<Rightarrow> nat \<Rightarrow> cstring \<Rightarrow> mem \<Rightarrow> (int \<times> mem) option" where
  "move_entry fs src_parentDirInodeID src_parentDirInode dst_fileInode src_fileInodeId src_fileName m =
     (let src_dir_block = snd (read_block fs (direct0 src_parentDirInode) zero_block m);
          src_fileIndex = getFileIndexInDir src_parentDirInode src_dir_block src_fileName
      in if src_fileIndex = -1 then Some (-13, m)
         else
           (let k = nat src_fileIndex;
                cleared = set_entry_filename (set_entry_inode src_dir_block k 0) k (replicate FS_FNAME_MAX 0);
                m1 = snd (write_block fs (direct0 src_parentDirInode) cleared m);
                src_parent' = src_parentDirInode\<lparr>vacantFile := vacant_reset (vacantFile src_parentDirInode) k\<rparr>;
                m2 = snd (write_inode (BlockStore_inode fs) src_parentDirInodeID src_parent' m1);
                dst_dir_block = snd (read_block fs (direct0 dst_fileInode) zero_block m2);
                location = vacant_ffz (vacantFile dst_fileInode)
            in if location = SIZE_MAX then None
               else
                 (let entered = set_entry_filename
                        (set_entry_inode dst_dir_block location (of_nat src_fileInodeId)) location
                        (c_strncpy src_fileName (length src_fileName))
                  in Some (0, snd (write_block fs (direct0 dst_fileInode) entered m2)))))"

definition fs_move ::
    "inode_t \<Rightarrow> F19FS_t option \<Rightarrow> cstring option \<Rightarrow> cstring option \<Rightarrow> mem \<Rightarrow> (int \<times> mem) option" where
  "fs_move garbage fso srco dsto m =
     (if fso = None \<or> srco = None \<or> dsto = None then Some (-1, m)
      else
        (let fs = the fso; src = the srco; dst = the dsto in
         if length src \<le> 1 \<or> length dst \<le> 1 then Some (-2, m)
         else if \<not> isValidPath (Some src) then Some (-3, m)
         else if \<not> isValidPath (Some dst) then Some (-4, m)
         else if length src = length dst \<and> c_strncmp src dst (length dst) \<noteq> 0 then Some (-11, m)
         else
           (let src_dirPath = c_dirname src; src_fileName = c_basename src in
            if length src_fileName \<ge> FS_FNAME_MAX then Some (-5, m)
            else
              (let dst_dirPath = c_dirname dst; dst_fileName = c_basename dst in
               if length dst_fileName \<ge> FS_FNAME_MAX then Some (-6, m)
               else if list_ex (\<lambda>token. c_strncmp src_fileName token (length src_fileName) = 0)
                         (strtok_all slash dst_dirPath) then Some (-14, m)
               else
                 (let src_parentDirInodeID = getParentDirInodeID fs src_dirPath m in
                  if src_parentDirInodeID = SIZE_MAX then Some (-7, m)
                  else if \<not> checkFileExist fs src_parentDirInodeID src_fileName m then Some (-8, m)
                  else
                    (let dst_parentDirInodeID = getParentDirInodeID fs dst_dirPath m in
                     if dst_parentDirInodeID = SIZE_MAX then Some (-9, m)
                     else
                       (let (created, m1) =
                              (if \<not> checkFileExist fs dst_parentDirInodeID dst_fileName m
                               then fs_create2 garbage (Some fs) (Some dst) FS_DIRECTORY m else (0, m))
                        in if created \<noteq> 0 then Some (-10, m1)
                           else
                             (let src_parentDirInode =
                                    snd (read_inode (BlockStore_inode fs) src_parentDirInodeID zero_inode m1);
                                  src_fileInodeId = getFileInodeID fs src_parentDirInodeID src_fileName m1
                              in if src_fileInodeId = SIZE_MAX then Some (-11, m1)
                                 else
                                   (let dst_fileInodeId = getFileInodeID fs dst_parentDirInodeID dst_fileName m1 in
                                    if dst_fileInodeId = SIZE_MAX then Some (-12, m1)
                                    else
                                      (let dst_fileInode =
                                             snd (read_inode (BlockStore_inode fs) dst_fileInodeId zero_inode m1)
                                       in if src_parentDirInodeID = dst_fileInodeId then Some (-14, m1)
                                          else move_entry fs src_parentDirInodeID src_parentDirInode
                                                 dst_fileInode src_fileInodeId src_fileName m1))))))))))"

section \<open>\<^verbatim>\<open>fs_link\<close>\<close>

text \<open>The last part of \<^verbatim>\<open>fs_link\<close>: the new entry and the link count.\<close>

definition link_entry ::
    "F19FS_t \<Rightarrow> nat \<Rightarrow> inode_t \<Rightarrow> byte list \<Rightarrow> nat \<Rightarrow> inode_t \<Rightarrow> cstring \<Rightarrow> mem \<Rightarrow> int \<times> mem" where
  "link_entry fs dst_parentDirInodeID dst_parentDirInode dst_directoryFile src_fileInodeId src_fileInode
       dst_fileName m =
     (let index = vacant_ffz (vacantFile dst_parentDirInode);
          dst_parent' = dst_parentDirInode\<lparr>vacantFile := vacant_set (vacantFile dst_parentDirInode) index\<rparr>;
          entered = set_entry_filename
            (set_entry_inode dst_directoryFile index (of_nat src_fileInodeId)) index
            (c_strncpy dst_fileName FS_FNAME_MAX);
          linked = src_fileInode\<lparr>linkCount := linkCount src_fileInode + 1\<rparr>;
          linked' = (if src_fileInodeId = dst_parentDirInodeID
                     then linked\<lparr>linkCount := linkCount linked + 1\<rparr> else linked);
          m1 = snd (write_inode (BlockStore_inode fs) src_fileInodeId linked' m);
          m2 = snd (write_inode (BlockStore_inode fs) dst_parentDirInodeID dst_parent' m1);
          m3 = snd (write_block fs (direct0 dst_parent') entered m2)
      in (0, m3))"

definition fs_link :: "F19FS_t option \<Rightarrow> cstring option \<Rightarrow> cstring option \<Rightarrow> mem \<Rightarrow> int \<times> mem" where
  "fs_link fso srco dsto m =
     (if fso = None \<or> srco = None \<or> dsto = None then (-1, m)
      else
        (let fs = the fso; src = the srco; dst = the dsto in
         if length src \<le> 1 \<or> length dst \<le> 1 then (-2, m)
         else if \<not> isValidPath (Some src) then (-3, m)
         else if \<not> isValidPath (Some dst) then (-4, m)
         else if length dst = 1 \<and> c_strcmp dst (str ''/'') = 0 then (-11, m)
         else
           (let src_dirPath = c_dirname src; src_fileName = c_basename src in
            if length src_fileName \<ge> FS_FNAME_MAX then (-5, m)
            else
              (let dst_dirPath = c_dirname dst; dst_fileName = c_basename dst in
               if length dst_fileName \<ge> FS_FNAME_MAX then (-6, m)
               else
                 (let src_parentDirInodeID = getParentDirInodeID fs src_dirPath m in
                  if src_parentDirInodeID = SIZE_MAX then (-7, m)
                  else if \<not> checkFileExist fs src_parentDirInodeID src_fileName m then (-8, m)
                  else
                    (let dst_parentDirInodeID = getParentDirInodeID fs dst_dirPath m in
                     if dst_parentDirInodeID = SIZE_MAX then (-9, m)
                     else if checkFileExist fs dst_parentDirInodeID dst_fileName m then (-10, m)
                     else
                       (let dst_parentDirInode =
                              snd (read_inode (BlockStore_inode fs) dst_parentDirInodeID zero_inode m);
                            dst_directoryFile = snd (read_block fs (direct0 dst_parentDirInode) zero_block m)
                        in if vacant_total_set (vacantFile dst_parentDirInode) = NUM_OF_ENTRIES then (-13, m)
                           else
                             (let src_fileInodeId = getFileInodeID fs src_parentDirInodeID src_fileName m in
                              if src_fileInodeId = SIZE_MAX then (-11, m)
                              else if getFileInodeID fs dst_parentDirInodeID dst_fileName m = SIZE_MAX
                              then (-12, m)
                              else
                                (let src_fileInode =
                                       snd (read_inode (BlockStore_inode fs) src_fileInodeId zero_inode m)
                                 in if linkCount src_fileInode \<ge> 255 then (-14, m)
                                    else link_entry fs dst_parentDirInodeID dst_parentDirInode
                                           dst_directoryFile src_fileInodeId src_fileInode dst_fileName m)))))))))"

section \<open>\<^verbatim>\<open>fs_link\<close> on two paths\<close>

text \<open>The path names no file yet, in directory \<open>p\<close>.\<close>

definition free_name :: "mem \<Rightarrow> cstring \<Rightarrow> nat \<Rightarrow> bool" where
  "free_name m path p \<longleftrightarrow> isValidPath (Some path) \<and> 0 \<notin> set path \<and> length (c_basename path) < 32 \<and>
     resolve m 0 (strtok_all slash (c_dirname path)) = Some p \<and> is_dir m p \<and> lookup m p (c_basename path) = None"

lemma valid_path_length: "isValidPath (Some path) \<Longrightarrow> 1 < length path"
  by (cases path) (auto simp: isValidPath_def split: if_splits)

lemma path_lookups:
  assumes inv: "fs_inv m" and path: "0 \<notin> set path" and r: "resolve m 0 (strtok_all slash (c_dirname path)) = Some p"
    and d: "is_dir m p"
  shows "p < 256" and "dir_ok m p" and "getParentDirInodeID (the_fs h) (c_dirname path) m = p"
    and "checkFileExist (the_fs h) p (c_basename path) m \<longleftrightarrow> lookup m p (c_basename path) \<noteq> None"
    and "getFileInodeID (the_fs h) p (c_basename path) m = (case lookup m p (c_basename path) of None \<Rightarrow> 0 | Some k \<Rightarrow> k)"
proof -
  note nul = path_parts_no_nul [OF path]
  show p: "p < 256" using resolve_bound [OF _ r] by simp
  have ok: "dirs_ok m" "ids_ok m" "is_dir m 0" using inv by (auto simp: fs_inv_def)
  show okp: "dir_ok m p" using ok(1) p d by (simp add: dirs_ok_def)
  show "getParentDirInodeID (the_fs h) (c_dirname path) m = p"
    using getParentDirInodeID_resolve [OF ok nul(1), of h] r d by simp
  show "checkFileExist (the_fs h) p (c_basename path) m \<longleftrightarrow> lookup m p (c_basename path) \<noteq> None"
    by (rule checkFileExist_lookup [OF p okp nul(2)])
  show "getFileInodeID (the_fs h) p (c_basename path) m = (case lookup m p (c_basename path) of None \<Rightarrow> 0 | Some k \<Rightarrow> k)"
    by (rule getFileInodeID_lookup [OF p okp nul(2)])
qed

lemma fs_link_enters:
  assumes inv: "fs_inv m" and s: "names_file m src sp q" and d: "free_name m dst dp"
    and room: "\<exists>j<31. \<not> dir_used m dp j" and links: "linkCount (get_inode m q) < 255"
  shows "fs_link (Some (the_fs h)) (Some src) (Some dst) m =
    link_entry (the_fs h) dp (get_inode m dp) (dir_block m dp) q (get_inode m q) (c_basename dst) m"
proof -
  have sv: "isValidPath (Some src)" "0 \<notin> set src" "length (c_basename src) < 32" "is_dir m sp" "q \<noteq> 0"
    and sr: "resolve m 0 (strtok_all slash (c_dirname src)) = Some sp" and sl: "lookup m sp (c_basename src) = Some q"
    using s by (simp_all add: names_file_def)
  have dv: "isValidPath (Some dst)" "0 \<notin> set dst" "length (c_basename dst) < 32" "is_dir m dp"
    and dr: "resolve m 0 (strtok_all slash (c_dirname dst)) = Some dp" and dl: "lookup m dp (c_basename dst) = None"
    using d by (simp_all add: free_name_def)
  note sp = path_lookups(1,2) [OF inv sv(2) sr sv(4)] path_lookups(3-5) [OF inv sv(2) sr sv(4), of h]
    and dp = path_lookups(1,2) [OF inv dv(2) dr dv(4)] path_lookups(3-5) [OF inv dv(2) dr dv(4), of h]
  have q: "q < 256" using lookup_inode_bound [OF sl] .
  have full: "vacant_total_set (vacantFile (get_inode m dp)) \<noteq> 31"
    using room by (auto simp: vacant_total_full dir_used_def)
  have blk: "direct0 (get_inode m dp) \<le> 65528" using dp(2) by (simp add: dir_ok_def)
  have len: "\<not> length src \<le> 1" "\<not> length dst \<le> 1" "length dst \<noteq> 1"
    using valid_path_length [OF sv(1)] valid_path_length [OF dv(1)] by simp_all
  have lk: "\<not> 255 \<le> linkCount (get_inode m q)" using links by (simp add: not_le)
  show ?thesis
    using sv dv sl dl sp dp q full blk len lk
    by (simp add: fs_link_def Let_def dir_block_def)
qed

lemma link_entry_unfold:
  assumes dp: "dp < 256" "direct0 (get_inode m dp) \<le> 65528" and q: "q < 256" "q \<noteq> dp" and blk: "length blk = 1024"
    and k: "vacant_ffz (vacantFile (get_inode m dp)) = k" "k < 31"
  shows "link_entry (the_fs h) dp (get_inode m dp) blk q (get_inode m q) name m =
    (0, put_block (direct0 (get_inode m dp)) (put_entry blk k (c_strncpy name 32) (of_nat q))
          (put_inode dp ((get_inode m dp)\<lparr>vacantFile := vacantFile (get_inode m dp) OR push_bit k 1\<rparr>)
            (put_inode q ((get_inode m q)\<lparr>linkCount := linkCount (get_inode m q) + 1\<rparr>) m)))"
proof -
  have wf: "inode_wf (ino\<lparr>linkCount := c\<rparr>)" if "inode_wf ino" for ino c using that by (simp add: inode_wf_def)
  show ?thesis
    using assms by (simp add: link_entry_def Let_def wf vacant_set_or set_entry_commute)
qed

text \<open>Linking into a directory that has entries.\<close>

lemma fs_link_adds:
  assumes inv: "fs_inv m" and s: "names_file m src sp q" and d: "free_name m dst dp"
    and room: "\<exists>j<31. \<not> dir_used m dp j" and links: "linkCount (get_inode m q) < 255"
    and reg: "fileType (get_inode m q) = ch_r" and v0: "vacantFile (get_inode m dp) \<noteq> 0"
  shows "\<exists>m'. fs_link (Some (the_fs h)) (Some src) (Some dst) m = (0, m') \<and> fs_inv m' \<and>
    (\<forall>i<256. is_dir m' i = is_dir m i) \<and>
    (\<forall>i<256. is_dir m i \<longrightarrow> (\<forall>n. lookup m' i n = (if i = dp \<and> n = c_basename dst then Some q else lookup m i n))) \<and>
    get_inode m' q = (get_inode m q)\<lparr>linkCount := linkCount (get_inode m q) + 1\<rparr> \<and>
    (\<forall>j<65528. 17 \<le> j \<and> j \<noteq> direct0 (get_inode m dp) \<longrightarrow> get_block m' j = get_block m j) \<and>
    (\<forall>j<65528. bitmap_test whole_bm j m' = bitmap_test whole_bm j m)"
proof -
  let ?pino = "get_inode m dp" and ?ino = "get_inode m q" and ?name = "c_basename dst"
  have dv: "0 \<notin> set dst" "length ?name < 32" "is_dir m dp"
    and dr: "resolve m 0 (strtok_all slash (c_dirname dst)) = Some dp" and dl: "lookup m dp ?name = None"
    using d by (simp_all add: free_name_def)
  note dp = path_lookups(1,2) [OF inv dv(1) dr dv(3)]
  have q: "q < 256" using s lookup_inode_bound by (auto simp: names_file_def)
  have nd: "\<not> is_dir m q" using reg by (simp add: is_dir_def)
  then have qp: "q \<noteq> dp" using dv(3) by auto
  have b: "17 \<le> direct0 ?pino" "direct0 ?pino < 65528" using inv dp(1) dv(3) v0 by (auto simp: fs_inv_def dir_blocks_ok_def)
  define k where "k = vacant_ffz (vacantFile ?pino)"
  have "vacant_total_set (vacantFile ?pino) \<noteq> 31" using room by (auto simp: vacant_total_full dir_used_def)
  then have "k \<noteq> SIZE_MAX"
    using vac.ffz_max_iff [of "vacant_mem (vacantFile ?pino)"]
    by (simp add: k_def vacant_ffz_def vacant_total_set_def del: vacant_bm_struct)
  then have k: "k < 31" "\<not> bit (vacantFile ?pino) k" using vacant_ffz_found by (auto simp: k_def)
  let ?u = "replicate (31 - length ?name) (0 :: byte)"
  have pad: "c_strncpy ?name 32 = ?name @ 0 # ?u"
  proof -
    have "32 - length ?name = Suc (31 - length ?name)" using dv(2) by simp
    then show ?thesis using dv(2) by (simp only: c_strncpy_def replicate_Suc) simp
  qed
  let ?pino' = "?pino\<lparr>vacantFile := vacantFile ?pino OR push_bit k 1\<rparr>"
    and ?ino' = "?ino\<lparr>linkCount := linkCount ?ino + 1\<rparr>"
  let ?blk' = "put_entry (dir_block m dp) k (?name @ 0 # ?u) (of_nat q)"
  define m' where "m' = put_block (direct0 ?pino) ?blk' (put_inode dp ?pino' (put_inode q ?ino' m))"
  have wf: "inode_wf ?pino'" "inode_wf ?ino'" using inode_wf_get [of m] by (simp_all add: inode_wf_def)
  have lenb: "length ?blk' = 1024" using k dv(2) by simp
  have run: "fs_link (Some (the_fs h)) (Some src) (Some dst) m = (0, m')"
    unfolding fs_link_enters [OF inv s d room links] m'_def
    using link_entry_unfold [OF dp(1) _ q qp length_dir_block k_def [symmetric] k(1), where name = ?name] b pad by simp
  have gi: "get_inode m' i = (if i = dp then ?pino' else if i = q then ?ino' else get_inode m i)" if "i < 256" for i
    using that wf b by (simp add: m'_def get_inode_put_block get_put_inode)
  have gb: "get_block m' j = (if j = direct0 ?pino then ?blk' else get_block m j)" if "17 \<le> j" for j
    using that wf q dp(1) lenb by (auto simp: m'_def get_put_block get_block_put_inode)
  have wb: "bitmap_test whole_bm j m' = bitmap_test whole_bm j m" for j
    using wf q dp(1) b by (simp add: m'_def whole_test_put_block whole_test_put_inode)
  have ib: "bitmap_test inode_bm i m' = bitmap_test inode_bm i m" if "i < 256" for i
    using that b by (simp add: m'_def inode_test_put_block inode_test_put_inode)
  have dirs: "is_dir m' i = is_dir m i" if "i < 256" for i using that qp by (auto simp: is_dir_def gi)
  have other: "get_inode m' i = get_inode m i \<and> (vacantFile (get_inode m i) \<noteq> 0 \<longrightarrow> dir_block m' i = dir_block m i)"
    if i: "i < 256" "is_dir m i" "i \<noteq> dp" for i
  proof -
    have g: "get_inode m' i = get_inode m i" using i nd gi [OF i(1)] by auto
    have "dir_block m' i = dir_block m i" if v: "vacantFile (get_inode m i) \<noteq> 0"
    proof -
      have "17 \<le> direct0 (get_inode m i)" "direct0 (get_inode m i) \<noteq> direct0 ?pino"
        using inv i dp(1) dv(3) v0 v unfolding fs_inv_def dir_blocks_ok_def by metis+
      then show ?thesis by (simp add: dir_block_def g gb)
    qed
    with g show ?thesis by blast
  qed
  have bp: "dir_block m' dp = ?blk'" by (simp add: dir_block_def gi dp(1) gb b)
  have names: "\<forall>j<31. bit (vacantFile ?pino) j \<longrightarrow> length (entry_name (dir_block m dp) j) < 32"
    using dp(2) by (auto simp: dir_ok_def dir_used_def)
  have len: "length ?name + length ?u < 32" "0 \<notin> set ?name" using dv(2) path_parts_no_nul(2) [OF dv(1)] by simp_all
  have uq: "unat (of_nat q :: uint8_t) = q" using q by (simp add: unat_of_nat)
  have lp: "lookup m' dp n = (if n = ?name then Some q else lookup m dp n)" for n
    using lookup_in_put [OF length_dir_block k len(2,1) names dl [unfolded lookup_def], of "of_nat q" n] uq
    by (simp add: lookup_def bp gi dp(1))
  have ents: "entry_name ?blk' j = (if j = k then ?name else entry_name (dir_block m dp) j)"
    if "j < 31" "j = k \<or> bit (vacantFile ?pino) j" for j
    using that k names len entry_name_put_same [OF length_dir_block k(1) len(2,1), of m dp "of_nat q"]
      entry_name_put_other [OF length_dir_block k(1) that(1), of "?name @ 0 # ?u" m dp "of_nat q"] by auto
  have usedp: "dir_used m' dp j \<longleftrightarrow> j < 31 \<and> (j = k \<or> bit (vacantFile ?pino) j)" for j
    using bit_or_push [of j "vacantFile ?pino" k] by (auto simp: dir_used_def gi dp(1))
  have fresh: "entry_name (dir_block m dp) j \<noteq> ?name" if "j < 31" "bit (vacantFile ?pino) j" for j
    using dl that by (auto simp: lookup_def lookup_in_def find_None_iff)
  have "dir_ok m' dp"
    unfolding dir_ok_def bp usedp
  proof (intro conjI allI impI; (elim conjE)?)
    show "direct0 (get_inode m' dp) \<le> 65528" using b by (simp add: gi dp(1))
  next
    fix i j assume ij: "i < 31" "i = k \<or> bit (vacantFile ?pino) i" "j < 31" "j = k \<or> bit (vacantFile ?pino) j"
      "entry_name ?blk' i = entry_name ?blk' j"
    show "i = j"
      using ij ents [OF ij(1,2)] ents [OF ij(3,4)] fresh dp(2) unfolding dir_ok_def dir_used_def by (auto split: if_splits)
  next
    fix j assume j: "j < 31" "j = k \<or> bit (vacantFile ?pino) j"
    show "length (entry_name ?blk' j) < 32" using ents [OF j] j names dv(2) by auto
  qed
  then have "fs_inv m'"
    using dirs other wb ib inv dp(1) v0 by (intro dir_changed_inv [OF inv, of m' dp]) (auto simp: fs_inv_def gi)
  moreover have "lookup m' i n = (if i = dp \<and> n = ?name then Some q else lookup m i n)" if i: "i < 256" "is_dir m i" for i n
  proof (cases "i = dp")
    case False
    with other [OF i] show ?thesis by (cases "vacantFile (get_inode m i) = 0") (simp_all add: lookup_def)
  qed (simp add: lp)
  ultimately show ?thesis using run dirs gi [OF q] qp gb wb by (intro exI [of _ m']) simp
qed

section \<open>Linking into a directory that never had an entry\<close>

lemma vacant_ffz_0: "vacant_ffz 0 = 0"
  by (subst vacant_ffz_loop) (auto intro: exI [of _ 0] simp: vacant_loop.simps)

lemma fs_link_block_0:
  assumes inv: "fs_inv m" and s: "names_file m src sp q" and d: "free_name m dst dp"
    and links: "linkCount (get_inode m q) < 255"
    and empty: "vacantFile (get_inode m dp) = 0" "directPointer (get_inode m dp) ! 0 = 0"
  shows "\<exists>m'. fs_link (Some (the_fs h)) (Some src) (Some dst) m = (0, m') \<and>
    (\<forall>i<256. bitmap_test inode_bm i m' \<longleftrightarrow> bit (c_strncpy (c_basename dst) 32 ! (i div 8)) (i mod 8))"
proof -
  let ?pino = "get_inode m dp" and ?name = "c_strncpy (c_basename dst) 32"
  let ?blk = "put_entry (dir_block m dp) 0 ?name (of_nat q)"
  have "\<exists>j<31. \<not> dir_used m dp j" using empty by (intro exI [of _ 0]) (simp add: dir_used_def)
  note run = fs_link_enters [OF inv s d this links, of h]
  have "\<exists>m2. link_entry (the_fs h) dp ?pino (dir_block m dp) q (get_inode m q) (c_basename dst) m = (0, put_block 0 ?blk m2)"
    using empty by (simp add: link_entry_def Let_def vacant_ffz_0 set_entry_commute) (intro conjI impI exI, (rule refl)+)
  then obtain m2 where m2: "fs_link (Some (the_fs h)) (Some src) (Some dst) m = (0, put_block 0 ?blk m2)"
    using run by auto
  have "byte_at (put_block 0 ?blk m2) (Image, j) = ?name ! j" if "j < 32" for j
  proof -
    have "?blk ! j = ?name ! j" using that
      by (simp add: put_entry_def set_entry_inode_def set_entry_filename_def nth_buf_write)
    with that show ?thesis by (simp add: byte_at_def put_block_def mwrite_def)
  qed
  then have "\<forall>i<256. bitmap_test inode_bm i (put_block 0 ?blk m2) \<longleftrightarrow> bit (?name ! (i div 8)) (i mod 8)"
    by (auto simp: bitmap_test_bit bitmap_byte_def less_mult_imp_div_less)
  with m2 show ?thesis by blast
qed

section \<open>Moving into a directory\<close>

text \<open>An entry written where the bit map says "vacant" stays invisible.\<close>

lemma lookup_in_put_vacant:
  assumes blk: "length blk = 1024" and k: "k < 31" "\<not> bit v k" and bs: "length bs \<le> 32"
    and names: "\<And>j. j < 31 \<Longrightarrow> bit v j \<Longrightarrow> length (entry_name blk j) < 32"
  shows "lookup_in v (put_entry blk k bs i) n = lookup_in v blk n"
proof -
  have f: "find (\<lambda>j. bit v j \<and> entry_name (put_entry blk k bs i) j = n) [0..<31] =
      find (\<lambda>j. bit v j \<and> entry_name blk j = n) [0..<31]"
  proof (rule find_cong_on)
    fix j assume j: "j \<in> set [0..<31]"
    show "(bit v j \<and> entry_name (put_entry blk k bs i) j = n) = (bit v j \<and> entry_name blk j = n)"
    proof (cases "bit v j")
      case True
      then have "j \<noteq> k" using k(2) by auto
      then show ?thesis using entry_name_put_other [OF blk k(1) _ bs, of j i] names [OF _ True] j by simp
    qed simp
  qed
  have "entry_inode (put_entry blk k bs i) j = entry_inode blk j"
    if "find (\<lambda>j. bit v j \<and> entry_name blk j = n) [0..<31] = Some j" for j
    using that k bs blk by (auto simp: find_Some_iff entry_inode_put)
  then show ?thesis unfolding lookup_in_def f
    by (cases "find (\<lambda>j. bit v j \<and> entry_name blk j = n) [0..<31]") simp_all
qed

lemma move_entry_effect:
  assumes inv: "fs_inv m" and sp: "sp < 256" "is_dir m sp" and dq: "dq < 256" "is_dir m dq" "dq \<noteq> sp"
    and v0: "vacantFile (get_inode m dq) \<noteq> 0" and room: "\<exists>j<31. \<not> dir_used m dq j"
    and k: "getFileIndexInDir (get_inode m sp) (dir_block m sp) name = int k" and len: "length name < 32"
  shows "\<exists>m'. move_entry (the_fs h) sp (get_inode m sp) (get_inode m dq) q name m = Some (0, m') \<and>
    (\<forall>d<256. is_dir m' d \<longleftrightarrow> is_dir m d) \<and> (\<forall>i<256. bitmap_test inode_bm i m' = bitmap_test inode_bm i m) \<and>
    (\<forall>d<256. is_dir m d \<longrightarrow>
      (\<forall>n. lookup m' d n = (if d = sp \<and> n = entry_name (dir_block m sp) k then None else lookup m d n)))"
proof -
  let ?sino = "get_inode m sp" and ?dino = "get_inode m dq"
  have k': "k < 31" "bit (vacantFile ?sino) k" using index_found_less [OF k] by auto
  then have vs: "vacantFile ?sino \<noteq> 0" by auto
  have b: "17 \<le> direct0 ?sino" "direct0 ?sino < 65528" "17 \<le> direct0 ?dino" "direct0 ?dino < 65528"
      "direct0 ?dino \<noteq> direct0 ?sino"
    using inv sp dq v0 vs unfolding fs_inv_def dir_blocks_ok_def by metis+
  define loc where "loc = vacant_ffz (vacantFile ?dino)"
  have "vacant_total_set (vacantFile ?dino) \<noteq> 31" using room by (auto simp: vacant_total_full dir_used_def)
  then have nm: "loc \<noteq> SIZE_MAX"
    using vac.ffz_max_iff [of "vacant_mem (vacantFile ?dino)"]
    by (simp add: loc_def vacant_ffz_def vacant_total_set_def del: vacant_bm_struct)
  then have loc: "loc < 31" "\<not> bit (vacantFile ?dino) loc" using vacant_ffz_found by (auto simp: loc_def)
  let ?sino' = "?sino\<lparr>vacantFile := vacant_reset (vacantFile ?sino) k\<rparr>"
  let ?cleared = "put_entry (dir_block m sp) k (replicate 32 0) 0"
  define m2 where "m2 = put_inode sp ?sino' (put_block (direct0 ?sino) ?cleared m)"
  have wf: "inode_wf ?sino'" using inode_wf_get [of m sp] by (simp add: inode_wf_def)
  have lc: "length ?cleared = 1024" using k' by simp
  have gi2: "get_inode m2 i = (if i = sp then ?sino' else get_inode m i)" if "i < 256" for i
    using that wf b by (simp add: m2_def get_put_inode get_inode_put_block)
  have gb2: "get_block m2 j = (if j = direct0 ?sino then ?cleared else get_block m j)" if "17 \<le> j" for j
    using that wf sp lc by (simp add: m2_def get_block_put_inode get_put_block)
  have blkd: "get_block m2 (direct0 ?dino) = dir_block m dq" using b gb2 by (simp add: dir_block_def)
  let ?in = "put_entry (dir_block m dq) loc (c_strncpy name (length name)) (of_nat q)"
  let ?m' = "put_block (direct0 ?dino) ?in m2"
  have ln: "length ?in = 1024" using loc len by simp
  have "move_entry (the_fs h) sp ?sino ?dino q name m = Some (0, ?m')"
    using k k'(1) b sp wf len loc nm blkd
    by (simp add: move_entry_def Let_def dir_block_def [symmetric] set_entry_commute loc_def [symmetric] m2_def [symmetric])
  moreover have gi: "get_inode ?m' i = (if i = sp then ?sino' else get_inode m i)" if "i < 256" for i
    using that b by (simp add: get_inode_put_block gi2)
  have gb: "get_block ?m' j = (if j = direct0 ?dino then ?in else if j = direct0 ?sino then ?cleared else get_block m j)" if "17 \<le> j" for j
    using that ln by (simp add: get_put_block gb2)
  have ok: "dir_ok m sp" "dir_ok m dq" using inv sp dq by (auto simp: fs_inv_def dirs_ok_def)
  have bs: "dir_block ?m' sp = ?cleared" and bd: "dir_block ?m' dq = ?in"
    using gi [OF sp(1)] gi [OF dq(1)] gb b dq(3) by (simp_all add: dir_block_def)
  have ls: "lookup ?m' sp n = (if n = entry_name (dir_block m sp) k then None else lookup m sp n)" for n
  proof -
    have "vacantFile (get_inode ?m' sp) = vacant_reset (vacantFile ?sino) k" by (simp add: gi [OF sp(1)])
    then show ?thesis
      unfolding lookup_def bs
      by (simp only:) (rule lookup_in_clear [OF length_dir_block k'], use ok(1) k' in \<open>auto simp: dir_ok_def dir_used_def\<close>)
  qed
  have ld: "lookup ?m' dq n = lookup m dq n" for n
  proof -
    have "vacantFile (get_inode ?m' dq) = vacantFile ?dino" using dq(3) by (simp add: gi [OF dq(1)])
    then show ?thesis
      unfolding lookup_def bd
      by (simp only:) (rule lookup_in_put_vacant [OF length_dir_block loc], use ok(2) len in \<open>auto simp: dir_ok_def dir_used_def\<close>)
  qed
  have lo: "lookup ?m' d n = lookup m d n" if d: "d < 256" "is_dir m d" "d \<noteq> sp" "d \<noteq> dq" for d n
  proof (cases "vacantFile (get_inode m d) = 0")
    case True
    then show ?thesis using gi [OF d(1)] d(3) by (simp add: lookup_def)
  next
    case False
    then have "direct0 (get_inode m d) \<noteq> direct0 ?sino" "direct0 (get_inode m d) \<noteq> direct0 ?dino" "17 \<le> direct0 (get_inode m d)"
      using inv sp dq v0 vs d unfolding fs_inv_def dir_blocks_ok_def by metis+
    then have "dir_block ?m' d = dir_block m d" using gi [OF d(1)] gb d(3) by (simp add: dir_block_def)
    then show ?thesis using gi [OF d(1)] d(3) by (simp add: lookup_def)
  qed
  have "lookup ?m' d n = (if d = sp \<and> n = entry_name (dir_block m sp) k then None else lookup m d n)"
    if "d < 256" "is_dir m d" for d n
    using ls [of n] ld [of n] lo [of d n] that dq(3) by (cases "d = sp"; cases "d = dq") simp_all
  moreover have "is_dir ?m' d \<longleftrightarrow> is_dir m d" if "d < 256" for d using gi [OF that] by (simp add: is_dir_def)
  moreover have "bitmap_test inode_bm i ?m' = bitmap_test inode_bm i m" if "i < 256" for i
    using that b by (simp add: m2_def inode_test_put_block inode_test_put_inode)
  ultimately show ?thesis by blast
qed

lemma fs_move_enters:
  assumes inv: "fs_inv m" and s: "names_file m src sp q" and d: "names_file m dst dp dq"
    and len: "length src \<noteq> length dst" and dir: "dq \<noteq> sp"
    and tok: "\<forall>t \<in> set (strtok_all slash (c_dirname dst)). take (length (c_basename src)) t \<noteq> c_basename src"
  shows "fs_move garbage (Some (the_fs h)) (Some src) (Some dst) m =
    move_entry (the_fs h) sp (get_inode m sp) (get_inode m dq) q (c_basename src) m"
proof -
  have sv: "isValidPath (Some src)" "0 \<notin> set src" "length (c_basename src) < 32" "is_dir m sp" "q \<noteq> 0"
    and sr: "resolve m 0 (strtok_all slash (c_dirname src)) = Some sp" and sl: "lookup m sp (c_basename src) = Some q"
    using s by (simp_all add: names_file_def)
  have dv: "isValidPath (Some dst)" "0 \<notin> set dst" "length (c_basename dst) < 32" "is_dir m dp" "dq \<noteq> 0"
    and dr: "resolve m 0 (strtok_all slash (c_dirname dst)) = Some dp" and dl: "lookup m dp (c_basename dst) = Some dq"
    using d by (simp_all add: names_file_def)
  note sp = path_lookups(1,2) [OF inv sv(2) sr sv(4)] path_lookups(3-5) [OF inv sv(2) sr sv(4), of h]
    and dp = path_lookups(1,2) [OF inv dv(2) dr dv(4)] path_lookups(3-5) [OF inv dv(2) dr dv(4), of h]
  have q: "q < 256" "dq < 256" using lookup_inode_bound [OF sl] lookup_inode_bound [OF dl] by simp_all
  have l: "\<not> length src \<le> 1" "\<not> length dst \<le> 1"
    using valid_path_length [OF sv(1)] valid_path_length [OF dv(1)] by simp_all
  have "\<not> list_ex (\<lambda>token. c_strncmp (c_basename src) token (length (c_basename src)) = 0) (strtok_all slash (c_dirname dst))"
    unfolding list_ex_iff
  proof
    assume "\<exists>t\<in>set (strtok_all slash (c_dirname dst)). c_strncmp (c_basename src) t (length (c_basename src)) = 0"
    then obtain t where t: "t \<in> set (strtok_all slash (c_dirname dst))"
      "c_strncmp (c_basename src) t (length (c_basename src)) = 0" by blast
    have "0 \<notin> set t" using tokens_subset [OF t(1)] path_parts_no_nul(1) [OF dv(2)] by blast
    with t tok show False using path_parts_no_nul(2) [OF sv(2)] by (auto simp: c_strncmp_eq_0 cstr_at_id)
  qed
  with sv dv sl dl sp dp q len l dir show ?thesis by (simp add: fs_move_def Let_def)
qed

section \<open>Examples\<close>

text \<open>A directory with fewer names than entries has room.\<close>

lemma room_for_name:
  assumes ok: "dir_ok m p" and names: "\<And>n. lookup m p n \<noteq> None \<Longrightarrow> n \<in> S" and S: "finite S" "card S < 31"
  shows "\<exists>j<31. \<not> dir_used m p j"
proof (rule ccontr)
  assume "\<not> ?thesis"
  then have u: "dir_used m p j" if "j < 31" for j using that by blast
  then have "inj_on (entry_name (dir_block m p)) {..<31}" using ok by (auto simp: inj_on_def dir_ok_def)
  moreover have "entry_name (dir_block m p) ` {..<31} \<subseteq> S"
    using used_lookup [OF ok u] names by (auto simp del: not_None_eq) 
  ultimately have "card {..<31::nat} \<le> card S" using S(1) by (rule card_inj_on_le)
  with S(2) show False by simp
qed

lemma two_names_lookup:
  assumes "0 \<notin> set a" "length a < 32" "0 \<notin> set b" "length b < 32" "a \<noteq> b" "n \<noteq> a" "n \<noteq> b"
  shows "lookup (two_names a i b links) 0 n = None"
proof (rule ccontr)
  assume "lookup (two_names a i b links) 0 n \<noteq> None"
  then obtain k where "lookup (two_names a i b links) 0 n = Some k" by blast
  from lookup_used [OF this] obtain j where
    "dir_used (two_names a i b links) 0 j" "entry_name (dir_block (two_names a i b links) 0) j = n" by blast
  then show False
    using assms(6,7) two_names_state(3,9) [OF assms(1-5)] two_block_names(2,3) [OF assms(1-4)] by (auto simp: less_two)
qed

text \<open>Three creations on a fresh image: \<^verbatim>\<open>/dd\<close>, \<^verbatim>\<open>/dd/x\<close> and \<^verbatim>\<open>/a\<close>.\<close>

lemma more_tokens:
  "checked_tokens (str ''/dd'') = Some ([str ''dd''], 1)" "0 \<notin> set (str ''/dd'')"
  "checked_tokens (str ''/dd/x'') = Some ([str ''dd'', str ''x''], 2)" "0 \<notin> set (str ''/dd/x'')"
  "str ''a'' \<noteq> str ''dd''" "isValidPath (Some (str ''/dd''))" "c_basename (str ''/dd'') = str ''dd''"
  "strtok_all slash (c_dirname (str ''/dd'')) = []" "length (str ''dd'') < 32"
  "length (str ''/a'') \<noteq> length (str ''/dd'')" "take (length (str ''a'')) (str ''dd'') \<noteq> str ''a''"
  by (simp_all add: checked_tokens_str) code_simp+

lemma create_effect_next:
  assumes eff: "create_effect m p name type q m'" and m: "fs_inv m"
  shows "fs_inv m'" "dense m'" "bitmap_test inode_bm q m'" "is_dir m' q \<longleftrightarrow> type = FS_DIRECTORY"
    "d < 256 \<Longrightarrow> is_dir m d \<Longrightarrow> is_dir m' d \<and> lookup m' d n = (if d = p \<and> n = name then Some q else lookup m d n)"
    "lookup m' q n = None" "q \<noteq> 0" "q < 256"
proof -
  show *: "fs_inv m'" "dense m'" "bitmap_test inode_bm q m'" "lookup m' q n = None" "q < 256"
    using eff by (simp_all add: create_effect_def)
  have g: "get_inode m' q = new_inode type q" using eff by (simp add: create_effect_def)
  show "is_dir m' q \<longleftrightarrow> type = FS_DIRECTORY"
    unfolding is_dir_def g by (cases type) (simp_all add: new_inode_def zero_inode_def)
  have nq: "\<not> is_dir m q" using eff m by (auto simp: create_effect_def fs_inv_def)
  then show "q \<noteq> 0" using m by (metis fs_inv_def)
  show "d < 256 \<Longrightarrow> is_dir m d \<Longrightarrow> is_dir m' d \<and> lookup m' d n = (if d = p \<and> n = name then Some q else lookup m d n)"
    using eff nq by (auto simp: create_effect_def)
qed

lemma sub_example:
  obtains q1 q2 q3 m1 m2 m where "create_possible formatted [str ''dd''] 0" "create_possible m1 [str ''dd'', str ''x''] q1"
    "create_possible m2 [str ''a''] 0" "fs_create (Some (the_fs 3)) (Some (str ''/dd'')) FS_DIRECTORY formatted = Some (0, m1)"
    "fs_create (Some (the_fs 3)) (Some (str ''/dd/x'')) FS_REGULAR m1 = Some (0, m2)"
    "fs_create (Some (the_fs 3)) (Some (str ''/a'')) FS_REGULAR m2 = Some (0, m)"
    "fs_inv m" "names_file m (str ''/dd'') 0 q1" "names_file m (str ''/a'') 0 q3" "is_dir m q1"
    "get_inode m q3 = new_inode FS_REGULAR q3" "vacantFile (get_inode m q1) \<noteq> 0" "q1 \<noteq> 0"
    "\<And>n. lookup m 0 n = (if n = str ''a'' then Some q3 else if n = str ''dd'' then Some q1 else None)"
    "\<And>n. lookup m q1 n = (if n = str ''x'' then Some q2 else None)" "bitmap_test inode_bm q3 m"
    "\<And>d. d < 256 \<Longrightarrow> is_dir m d \<Longrightarrow> d = 0 \<or> d = q1" "q1 \<noteq> q3" "q2 \<noteq> q3"
proof -
  note F = formatted_inv formatted_simps(2,3,6,7)
  obtain q1 m1 where c1: "create_effect formatted 0 (str ''dd'') FS_DIRECTORY q1 m1" "create_blocks formatted 0 q1 m1"
    and r1: "fs_create (Some (the_fs 3)) (Some (str ''/dd'')) FS_DIRECTORY formatted = Some (0, m1)"
    using fs_create_effect_blocks [OF F(1,2) more_tokens(1,2) disjI2 [OF refl] formatted_create_possible, of 3] by auto
  note n1 = create_effect_next [OF c1(1) F(1)]
  have d1: "is_dir m1 q1" "is_dir m1 0" using n1(4) n1(5) [of 0] F(3) by simp_all
  have l1: "lookup m1 0 n = (if n = str ''dd'' then Some q1 else None)" for n
    using n1(5) [of 0 n] F(3,4) by simp
  have ok1: "dir_ok m1 q1" "dir_ok m1 0" using n1(1,8) d1 by (simp_all add: fs_inv_def dirs_ok_def)
  have ib1: "bitmap_test inode_bm i m1 \<longleftrightarrow> i = q1 \<or> i = 0" if "i < 256" for i
    using c1(1) F(5) that by (simp add: create_effect_def)
  have poss1: "create_possible m1 [str ''dd'', str ''x''] q1"
    unfolding create_possible_def
  proof (intro conjI)
    show "resolve m1 0 (butlast [str ''dd'', str ''x'']) = Some q1" using l1 d1 by simp
    show "\<exists>j<31. \<not> dir_used m1 q1 j" by (rule room_for_name [OF ok1(1), of "{}"]) (simp_all add: n1(6))
    have "\<exists>i<256. i \<noteq> q1 \<and> i \<noteq> (0::nat)" by presburger
    then show "\<exists>i<256. \<not> bitmap_test inode_bm i m1" using ib1 by auto
    define b where "b = direct0 (get_inode m1 0)"
    have wb: "bitmap_test whole_bm j m1 \<longleftrightarrow> j < 17 \<or> j = b" if "j < 65528" for j
      using c1(2) F(6) that by (simp add: create_blocks_def Let_def b_def)
    have "\<exists>j<65528. 17 \<le> j \<and> j \<noteq> b" by presburger
    then show "block_available q1 m1" using wb by (auto simp: block_available_def not_less)
  qed (use d1 n1(6) in simp_all)
  obtain q2 m2 where c2: "create_effect m1 q1 (str ''x'') FS_REGULAR q2 m2" "create_blocks m1 q1 q2 m2"
    and r2: "fs_create (Some (the_fs 3)) (Some (str ''/dd/x'')) FS_REGULAR m1 = Some (0, m2)"
    using fs_create_effect_blocks [OF n1(1,2) more_tokens(3,4) disjI1 [OF refl] poss1, of 3] by auto
  note n2 = create_effect_next [OF c2(1) n1(1)]
  have d2: "is_dir m2 q1" "is_dir m2 0" using n2(5) [of q1] n2(5) [of 0] d1 n1(8) by simp_all
  have l2: "lookup m2 0 n = (if n = str ''dd'' then Some q1 else None)" for n
    using n2(5) [of 0 n] d1 l1 n1(7) by simp
  have x2: "lookup m2 q1 n = (if n = str ''x'' then Some q2 else None)" for n
    using n2(5) [of q1 n] d1 n1(6,8) by simp
  have ok2: "dir_ok m2 0" using n2(1) d2 by (simp add: fs_inv_def dirs_ok_def)
  have poss2: "create_possible m2 [str ''a''] 0"
    unfolding create_possible_def
  proof (intro conjI)
    show "\<exists>j<31. \<not> dir_used m2 0 j"
      by (rule room_for_name [OF ok2, of "{str ''dd''}"]) (auto simp: l2 split: if_splits)
    have "bitmap_test inode_bm i m2 \<longleftrightarrow> i = q2 \<or> i = q1 \<or> i = 0" if "i < 256" for i
      using c2(1) ib1 that by (simp add: create_effect_def)
    moreover have "\<exists>i<256. i \<noteq> q1 \<and> i \<noteq> q2 \<and> i \<noteq> (0::nat)" by presburger
    ultimately show "\<exists>i<256. \<not> bitmap_test inode_bm i m2" by auto
    obtain j where "dir_used m2 0 j" using lookup_used [of m2 0 "str ''dd''" q1] l2 by auto
    then have "vacantFile (get_inode m2 0) \<noteq> 0" by (auto simp: dir_used_def)
    with n2(2) [unfolded dense_def, rule_format, of 0, OF _ d2(2)]
    have "bit (vacantFile (get_inode m2 0)) 0" by (simp add: dir_used_def)
    then have "vacant_loop (vacantFile (get_inode m2 0)) 0 \<noteq> 0"
      using vacant_loop_spec [of 0 "vacantFile (get_inode m2 0)"] by (intro notI) simp
    then show "block_available 0 m2" by (simp add: block_available_def)
  qed (use d2 l2 more_tokens(5) in simp_all)
  obtain q3 m where c3: "create_effect m2 0 (str ''a'') FS_REGULAR q3 m"
    and r3: "fs_create (Some (the_fs 3)) (Some (str ''/a'')) FS_REGULAR m2 = Some (0, m)"
    using fs_create_effect_blocks [OF n2(1,2) example_tokens(1,2) disjI1 [OF refl] poss2, of 3] by auto
  note n3 = create_effect_next [OF c3 n2(1)]
  have d3: "is_dir m q1" "is_dir m 0" using n3(5) [of q1] n3(5) [of 0] d2 n1(8) by simp_all
  have l3: "lookup m 0 n = (if n = str ''a'' then Some q3 else if n = str ''dd'' then Some q1 else None)" for n
    using n3(5) [of 0 n] d2 l2 by simp
  have x3: "lookup m q1 n = (if n = str ''x'' then Some q2 else None)" for n
    using n3(5) [of q1 n] d2 x2 n1(7,8) by simp
  obtain j where "dir_used m q1 j" using lookup_used [of m q1 "str ''x''" q2] x3 by auto
  then have v: "vacantFile (get_inode m q1) \<noteq> 0" by (auto simp: dir_used_def)
  have "names_file m (str ''/dd'') 0 q1" "names_file m (str ''/a'') 0 q3"
    unfolding names_file_def using n1(7) n3(7) d3 l3 path_a more_tokens by simp_all
  moreover have "get_inode m q3 = new_inode FS_REGULAR q3" using c3 by (simp add: create_effect_def)
  moreover have "d = 0 \<or> d = q1" if d: "d < 256" "is_dir m d" for d
  proof (rule ccontr)
    assume n: "\<not> (d = 0 \<or> d = q1)"
    have "d \<noteq> q3" "d \<noteq> q2"
      using n3(4) n2(4) d c3 by (auto simp: create_effect_def)
    then have "is_dir formatted d" using d n c1(1) c2(1) c3 by (simp add: create_effect_def)
    moreover have "get_inode formatted d = zero_inode" using fresh_formatted d(1) n by (simp add: fresh_fs_def)
    ultimately show False by (simp add: is_dir_def zero_inode_def)
  qed
  moreover have "\<not> bitmap_test inode_bm q3 m2" "bitmap_test inode_bm q1 m2" "bitmap_test inode_bm q2 m2"
    using c3 c2(1) n1(3,8) n2(3) by (auto simp: create_effect_def)
  then have "q1 \<noteq> q3" "q2 \<noteq> q3" by auto
  ultimately show thesis by (intro that) (rule formatted_create_possible poss1 poss2 r1 r2 r3 n3 d3 v n1(7) l3 x3 | assumption)+
qed

section \<open>Properties\<close>

text \<open>C19: linking a regular file under a new name, into a directory that already has entries,
  makes the name lead to the same inode, counts one link more, and keeps the invariant, every other
  name and every other block.\<close>

theorem fs_link_adds_name:
  assumes "fs_inv m" and "names_file m src sp q" and "free_name m dst dp"
    and "\<exists>j<31. \<not> dir_used m dp j" and "linkCount (get_inode m q) < 255"
    and "fileType (get_inode m q) = ch_r" and "vacantFile (get_inode m dp) \<noteq> 0"
  shows "\<exists>m'. fs_link (Some (the_fs h)) (Some src) (Some dst) m = (0, m') \<and> fs_inv m' \<and>
    (\<forall>i<256. is_dir m i \<longrightarrow> (\<forall>n. lookup m' i n = (if i = dp \<and> n = c_basename dst then Some q else lookup m i n))) \<and>
    get_inode m' q = (get_inode m q)\<lparr>linkCount := linkCount (get_inode m q) + 1\<rparr> \<and>
    (\<forall>j<65528. 17 \<le> j \<and> j \<noteq> direct0 (get_inode m dp) \<longrightarrow> get_block m' j = get_block m j) \<and>
    (\<forall>j<65528. bitmap_test whole_bm j m' = bitmap_test whole_bm j m)"
  using fs_link_adds [OF assms, of h] by blast

lemma path_c: "isValidPath (Some (str ''/c''))" "0 \<notin> set (str ''/c'')" "c_basename (str ''/c'') = str ''c''"
  "strtok_all slash (c_dirname (str ''/c'')) = []" "length (str ''c'') < 32" "str ''c'' \<noteq> str ''a''" "str ''c'' \<noteq> str ''b''"
  by code_simp+

lemma two_letters: "0 \<notin> set (str ''b'')" "length (str ''b'') < 32" "0 \<notin> set (str ''a'')" "length (str ''a'') < 32"
  "str ''b'' \<noteq> str ''a''"
  by code_simp+

theorem fs_link_adds_name_witness:
  "\<exists>m'. fs_link (Some (the_fs 3)) (Some (str ''/a'')) (Some (str ''/c'')) (two_names (str ''b'') 1 (str ''a'') 1) = (0, m') \<and>
    lookup m' 0 (str ''c'') = Some 2 \<and> linkCount (get_inode m' 2) = 2"
proof -
  note st = two_names_state [OF two_letters, of 1 1]
  let ?m = "two_names (str ''b'') 1 (str ''a'') 1"
  have s: "names_file ?m (str ''/a'') 0 2" using path_a st(5,8) by (simp add: names_file_def)
  have "lookup ?m 0 (str ''c'') = None" by (rule two_names_lookup [OF two_letters path_c(7,6)])
  then have d: "free_name ?m (str ''/c'') 0" using path_c(1-5) st(5) by (simp add: free_name_def)
  have room: "\<exists>j<31. \<not> dir_used ?m 0 j" by (intro exI [of _ 5]) (simp add: st(9))
  have v: "vacantFile (get_inode ?m 0) \<noteq> 0" by (simp add: st(1) two_root_def)
  show ?thesis
    using fs_link_adds_name [OF st(4) s d room _ _ v, of 3] st(5) by (auto simp: st(2) path_c(3))
qed

text \<open>C36: linking into a directory that never had an entry writes the entry over block 0: the bytes of the new name
  become the bit map of the inodes.\<close>

theorem fs_link_overwrites_inode_bitmap:
  assumes "fs_inv m" and "names_file m src sp q" and "free_name m dst dp" and "linkCount (get_inode m q) < 255"
    and "vacantFile (get_inode m dp) = 0" and "directPointer (get_inode m dp) ! 0 = 0"
  shows "\<exists>m'. fs_link (Some (the_fs h)) (Some src) (Some dst) m = (0, m') \<and>
    (\<forall>i<256. bitmap_test inode_bm i m' \<longleftrightarrow> bit (c_strncpy (c_basename dst) 32 ! (i div 8)) (i mod 8))"
  using fs_link_block_0 [OF assms] .

lemma path_ac: "isValidPath (Some (str ''/a/b''))" "0 \<notin> set (str ''/a/b'')" "c_basename (str ''/a/b'') = str ''b''"
  "strtok_all slash (c_dirname (str ''/a/b'')) = [str ''a'']" "\<not> bit (c_strncpy (str ''b'') 32 ! 0) 0"
  by code_simp+

theorem fs_link_overwrites_inode_bitmap_witness:
  "\<exists>m m'. fs_create (Some (the_fs 3)) (Some (str ''/a'')) FS_DIRECTORY formatted = Some (0, m) \<and>
    fs_link (Some (the_fs 3)) (Some (str ''/a'')) (Some (str ''/a/b'')) m = (0, m') \<and> \<not> bitmap_test inode_bm 0 m'"
proof -
  obtain q m where c: "fs_create (Some (the_fs 3)) (Some (str ''/a'')) FS_DIRECTORY formatted = Some (0, m)"
    "create_effect formatted 0 (str ''a'') FS_DIRECTORY q m" "names_file m (str ''/a'') 0 q" "fs_inv m"
    "\<And>n. lookup m 0 n = (if n = str ''a'' then Some q else None)"
    by (rule created_example [of FS_DIRECTORY]) auto
  note n = create_effect_next [OF c(2) formatted_inv(1)]
  have i: "get_inode m q = new_inode FS_DIRECTORY q" using c(2) by (simp add: create_effect_def)
  have "is_dir m 0" using c(4) by (simp add: fs_inv_def)
  then have "free_name m (str ''/a/b'') q"
    using path_ac two_letters(2) c(5) n(4,6) by (simp add: free_name_def)
  from fs_link_overwrites_inode_bitmap [OF c(4,3) this, of 3] i obtain m' where
    "fs_link (Some (the_fs 3)) (Some (str ''/a'')) (Some (str ''/a/b'')) m = (0, m')"
    "\<forall>i<256. bitmap_test inode_bm i m' \<longleftrightarrow> bit (c_strncpy (str ''b'') 32 ! (i div 8)) (i mod 8)"
    by (auto simp: path_ac(3))
  with c(1) path_ac(5) show ?thesis by (metis div_0 mod_0 zero_less_numeral)
qed

text \<open>C33: moving a file into a directory with entries reports success and loses the file: its name is
  gone from the source, and the entry written into the destination is never marked as used, so that
  every other name of every directory leads where it led before. If the name was the only one of the
  file, no name of any directory leads to its inode any more, which stays in use.\<close>

theorem fs_move_loses_file:
  assumes "fs_inv m" and "names_file m src sp q" and "names_file m dst dp dq" and "length src \<noteq> length dst"
    and "is_dir m dq" and "dq \<noteq> sp" and "vacantFile (get_inode m dq) \<noteq> 0" and "\<exists>j<31. \<not> dir_used m dq j"
    and "\<forall>t \<in> set (strtok_all slash (c_dirname dst)). take (length (c_basename src)) t \<noteq> c_basename src"
    and "\<forall>j. dir_used m sp j \<and> take (length (c_basename src)) (entry_name (dir_block m sp) j) = c_basename src \<longrightarrow>
      entry_name (dir_block m sp) j = c_basename src"
  shows "\<exists>m'. fs_move garbage (Some (the_fs h)) (Some src) (Some dst) m = Some (0, m') \<and>
    (\<forall>d<256. is_dir m' d \<longleftrightarrow> is_dir m d) \<and> (\<forall>i<256. bitmap_test inode_bm i m' = bitmap_test inode_bm i m) \<and>
    (\<forall>d<256. is_dir m d \<longrightarrow> (\<forall>n. lookup m' d n = (if d = sp \<and> n = c_basename src then None else lookup m d n))) \<and>
    ((\<forall>d<256. \<forall>n. is_dir m d \<and> lookup m d n = Some q \<longrightarrow> d = sp \<and> n = c_basename src) \<longrightarrow>
      (\<forall>d<256. \<forall>n. is_dir m' d \<longrightarrow> lookup m' d n \<noteq> Some q))"
proof -
  have n: "0 \<notin> set (c_basename src)" "lookup m sp (c_basename src) = Some q" "is_dir m sp" "length (c_basename src) < 32"
    "resolve m 0 (strtok_all slash (c_dirname src)) = Some sp" "lookup m dp (c_basename dst) = Some dq"
    using assms(2,3) path_parts_no_nul(2) by (auto simp: names_file_def)
  have sp: "sp < 256" and dq: "dq < 256" using resolve_bound [OF _ n(5)] lookup_inode_bound [OF n(6)] by simp_all
  have "dir_ok m sp" using assms(1) sp n(3) by (simp add: fs_inv_def dirs_ok_def)
  from index_of_name [OF this n(1,2) assms(10)] obtain k where
    k: "getFileIndexInDir (get_inode m sp) (dir_block m sp) (c_basename src) = int k"
      "entry_name (dir_block m sp) k = c_basename src" by blast
  from move_entry_effect [OF assms(1) sp n(3) dq assms(5,6,7,8) k(1) n(4), where h = h and q = q] obtain m' where
    m': "fs_move garbage (Some (the_fs h)) (Some src) (Some dst) m = Some (0, m')"
      "\<forall>d<256. is_dir m' d \<longleftrightarrow> is_dir m d" "\<forall>i<256. bitmap_test inode_bm i m' = bitmap_test inode_bm i m"
      "\<forall>d<256. is_dir m d \<longrightarrow> (\<forall>n. lookup m' d n = (if d = sp \<and> n = c_basename src then None else lookup m d n))"
    unfolding fs_move_enters [OF assms(1-4,6,9)] k(2) by blast
  moreover have "lookup m' d n \<noteq> Some q"
    if only: "\<forall>d<256. \<forall>n. is_dir m d \<and> lookup m d n = Some q \<longrightarrow> d = sp \<and> n = c_basename src" and d: "d < 256" "is_dir m' d" for d n
  proof
    assume l: "lookup m' d n = Some q"
    have dm: "is_dir m d" using m'(2) d by simp
    then have "lookup m' d n = (if d = sp \<and> n = c_basename src then None else lookup m d n)" using m'(4) d(1) by blast
    with l have "\<not> (d = sp \<and> n = c_basename src)" "lookup m d n = Some q" by (simp_all split: if_splits)
    with only d(1) dm show False by blast
  qed
  ultimately show ?thesis by blast
qed

theorem fs_move_loses_file_witness:
  "\<exists>m q dq m'. names_file m (str ''/a'') 0 q \<and> names_file m (str ''/dd'') 0 dq \<and> is_dir m dq \<and>
    fs_move zero_inode (Some (the_fs 3)) (Some (str ''/a'')) (Some (str ''/dd'')) m = Some (0, m') \<and>
    lookup m' 0 (str ''a'') = None \<and> (\<forall>d<256. \<forall>n. is_dir m' d \<longrightarrow> lookup m' d n \<noteq> Some q)"
proof -
  obtain q1 q2 q3 m where e: "fs_inv m" "names_file m (str ''/dd'') 0 q1" "names_file m (str ''/a'') 0 q3" "is_dir m q1"
    "vacantFile (get_inode m q1) \<noteq> 0" "q1 \<noteq> 0"
    "\<And>n. lookup m 0 n = (if n = str ''a'' then Some q3 else if n = str ''dd'' then Some q1 else None)"
    "\<And>n. lookup m q1 n = (if n = str ''x'' then Some q2 else None)"
    "\<And>d. d < 256 \<Longrightarrow> is_dir m d \<Longrightarrow> d = 0 \<or> d = q1" "q1 \<noteq> q3" "q2 \<noteq> q3"
    by (rule sub_example) blast
  have q1: "q1 < 256" using e(7) lookup_inode_bound [of m 0 "str ''dd''" q1] more_tokens(5) by simp
  have ok: "dir_ok m q1" "dir_ok m 0" using e(1,4) q1 by (simp_all add: fs_inv_def dirs_ok_def)
  have room: "\<exists>j<31. \<not> dir_used m q1 j"
    by (rule room_for_name [OF ok(1), of "{str ''x''}"]) (auto simp: e(8) split: if_splits)
  have pre: "\<forall>j. dir_used m 0 j \<and> take (length (str ''a'')) (entry_name (dir_block m 0) j) = str ''a'' \<longrightarrow>
      entry_name (dir_block m 0) j = str ''a''"
  proof (intro allI impI; elim conjE)
    fix j assume j: "dir_used m 0 j" "take (length (str ''a'')) (entry_name (dir_block m 0) j) = str ''a''"
    have "entry_name (dir_block m 0) j = str ''a'' \<or> entry_name (dir_block m 0) j = str ''dd''"
      using used_lookup [OF ok(2) j(1)] e(7) [of "entry_name (dir_block m 0) j"] by (auto split: if_splits)
    with j(2) more_tokens(11) show "entry_name (dir_block m 0) j = str ''a''" by auto
  qed
  have only: "\<forall>d<256. \<forall>n. is_dir m d \<and> lookup m d n = Some q3 \<longrightarrow> d = 0 \<and> n = str ''a''"
  proof (intro allI impI; elim conjE)
    fix d n assume d: "d < 256" "is_dir m d" "lookup m d n = Some q3"
    from e(9) [OF d(1,2)] d(3) e(7) [of n] e(8) [of n] e(10,11) show "d = 0 \<and> n = str ''a''"
      by (elim disjE) (simp_all split: if_splits)
  qed
  have d0: "is_dir m 0" using e(1) by (simp add: fs_inv_def)
  from fs_move_loses_file [OF e(1,3,2) more_tokens(10) e(4,6,5) room, of zero_inode 3] pre only obtain m' where
    m': "fs_move zero_inode (Some (the_fs 3)) (Some (str ''/a'')) (Some (str ''/dd'')) m = Some (0, m')"
      "\<forall>d<256. is_dir m d \<longrightarrow> (\<forall>n. lookup m' d n = (if d = 0 \<and> n = str ''a'' then None else lookup m d n))"
      "\<forall>d<256. \<forall>n. is_dir m' d \<longrightarrow> lookup m' d n \<noteq> Some q3"
    by (auto simp: path_a(3) more_tokens(8))
  have "lookup m' 0 (str ''a'') = None" using m'(2) d0 by simp
  with m' e(2,3,4) show ?thesis by blast
qed

text \<open>\<^verbatim>\<open>fs_move\<close> refuses to move between two different paths of the same length, and changes nothing.\<close>

theorem fs_move_same_length:
  assumes "isValidPath (Some src)" and "isValidPath (Some dst)" and "0 \<notin> set src" and "0 \<notin> set dst"
    and "length src = length dst" and "src \<noteq> dst"
  shows "fs_move garbage (Some fs) (Some src) (Some dst) m = Some (-11, m)"
proof -
  have "c_strncmp src dst (length dst) \<noteq> 0" using assms(3-6) by (simp add: c_strncmp_eq_0 cstr_at_id)
  then show ?thesis
    using assms(1,2,5) valid_path_length [OF assms(1)] valid_path_length [OF assms(2)] by (simp add: fs_move_def)
qed

theorem fs_move_same_length_witness:
  "fs_move zero_inode (Some (the_fs 3)) (Some (str ''/a'')) (Some (str ''/c'')) formatted = Some (-11, formatted)"
proof -
  have "length (str ''/a'') = length (str ''/c'')" "str ''/a'' \<noteq> str ''/c''" by code_simp+
  then show ?thesis using fs_move_same_length [OF path_a(1) path_c(1) path_a(2) path_c(2)] by simp
qed

end
