(* ===== verification/FS_Transfer.thy ===== *)
theory FS_Transfer
  imports FS_Write
begin

text \<open>
  What \<^verbatim>\<open>fs_write\<close>, \<^verbatim>\<open>fs_read\<close> and \<^verbatim>\<open>fs_seek\<close> promise their callers: the properties of the three
  transfer operations, over the lemmas of the theories on reading and writing, with an example
  image on which each of them is applied.
\<close>

section \<open>An example image\<close>

text \<open>
  A formatted image in which inode 1 is a regular file of 1034 bytes over the blocks 17 and 18,
  and descriptor 0 is open.
\<close>

definition sample_inode :: inode_t where
  "sample_inode = zero_inode\<lparr>fileType := ch_r, fileSize := 1034, inodeNumber := 1, linkCount := 1,
     directPointer := [17, 18, 0, 0, 0, 0]\<rparr>"

definition sample :: "fd_t \<Rightarrow> mem" where
  "sample d = put_fd 0 d (bitmap_set fd_bm 0 (put_inode 1 sample_inode
     (bitmap_set whole_bm 18 (put_block 18 (replicate 1024 8)
       (bitmap_set whole_bm 17 (put_block 17 (replicate 1024 7) formatted))))))"

lemma inode_wf_sample [simp]: "inode_wf sample_inode"
  using inode_wf_zero by (simp add: sample_inode_def inode_wf_def)

lemma sample_simps:
  "get_inode (sample d) (Suc 0) = sample_inode" "get_fd (sample d) 0 = d" "bitmap_test fd_bm 0 (sample d)"
  "b < 65528 \<Longrightarrow> bitmap_test whole_bm b (sample d) \<longleftrightarrow> b \<le> 18"
  "get_block (sample d) 17 = replicate 1024 7" "get_block (sample d) 18 = replicate 1024 8"
proof -
  let ?m2 = "bitmap_set whole_bm 18 (put_block 18 (replicate 1024 8)
       (bitmap_set whole_bm 17 (put_block 17 (replicate 1024 7) formatted)))"
  let ?m3 = "put_inode 1 sample_inode ?m2"
  have img: "sample d Image = ?m3 Image" by (simp add: sample_def image_fd)
  have gi: "get_inode (sample d) i = get_inode ?m3 i" for i by (rule image_cong(2)) (rule img)
  have gb: "get_block (sample d) j = get_block ?m3 j" for j by (rule image_cong(1)) (rule img)
  show "get_inode (sample d) (Suc 0) = sample_inode" by (simp add: gi get_put_inode)
  show "get_fd (sample d) 0 = d" "bitmap_test fd_bm 0 (sample d)"
    by (simp_all add: sample_def get_put_fd fd_test_put_fd bitmap_test_set)
  show "get_block (sample d) 17 = replicate 1024 7" "get_block (sample d) 18 = replicate 1024 8"
    by (simp_all add: gb get_block_put_inode get_block_alloc get_put_block)
  show "bitmap_test whole_bm b (sample d) \<longleftrightarrow> b \<le> 18" if "b < 65528"
  proof -
    have "bitmap_test whole_bm b (sample d) = bitmap_test whole_bm b ?m3"
      by (rule bitmap_test_cong) (simp add: img byte_at_def bitmap_byte_def whole_bm_def)
    then show ?thesis
      using that by (auto simp: whole_test_put_inode bitmap_test_set whole_test_put_block formatted_simps)
  qed
qed

lemma sample_blocks:
  "file_block (the_fs h) sample_inode m b = (if b = 0 then 17 else if b = 1 then 18 else 0)"
proof -
  have "b < 6 \<Longrightarrow> b = 0 \<or> b = 1 \<or> b = 2 \<or> b = 3 \<or> b = 4 \<or> b = 5" by arith
  moreover have "file_table (the_fs h) sample_inode m b = 0"
    by (simp add: file_table_def sample_inode_def zero_inode_def)
  ultimately show ?thesis by (auto simp: file_block_def sample_inode_def)
qed

lemma sample_file_ok: "file_ok (the_fs h) (sample d) 1"
proof -
  have "map_of_file (the_fs h) sample_inode (sample d) b = (if b = 0 then 17 else if b = 1 then 18 else 0)" if "b < 518" for b
    using file_block_map [OF that, of "the_fs h" sample_inode "sample d"] sample_blocks
    by (simp add: map_of_file_def)
  moreover have "tables sample_inode = {}" by (simp add: tables_def sample_inode_def zero_inode_def)
  ultimately show ?thesis by (auto simp: file_ok_def blocks_ok_def sample_simps)
qed

lemma sample_free: "free_blocks (sample d) = 65509"
proof -
  have "{j. j < 65528 \<and> \<not> bitmap_test whole_bm j (sample d)} = {19..<65528}" by (auto simp: sample_simps)
  then show ?thesis by (simp add: free_blocks_def)
qed

lemma holes_le: "holes B c e \<le> e"
proof -
  have "holes B c e \<le> card {..<e}" unfolding holes_def by (intro card_mono) auto
  then show ?thesis by simp
qed

lemma sample_needed: "e \<le> 518 \<Longrightarrow> blocks_needed (the_fs h) sample_inode m c e \<le> free_blocks (sample d)"
  using holes_le [of "map_of_file (the_fs h) sample_inode m" c e] by (simp add: blocks_needed_def sample_free)

section \<open>A second-level pointer block that is new\<close>

lemma image_bit_objects: "ob \<noteq> Image \<Longrightarrow> bitmap_set whole_bm i m ob = m ob" "ob \<noteq> Image \<Longrightarrow> put_block j bs m ob = m ob"
  by (simp_all add: bitmap_set_def bitmap_byte_def Let_def mwrite_def put_block_def)

lemma write_indirect_one:
  fixes h :: int
  assumes t: "t \<le> 65528" and c: "6 \<le> c" and v: "v = unat (read_ptrs (the_fs h) t m ! ((c - 6) mod 512))" "v \<noteq> 0" "v \<le> 65528"
    and n: "0 < n" "off + n \<le> 1024"
  shows "write_indirect_block (the_fs h) ino c off src n t m = Some (n, ino,
    write_ptrs (the_fs h) t (read_ptrs (the_fs h) t m) (put_block v (buf_write (get_block m v) off (src_bytes src n)) m))"
proof -
  let ?w = "indirect_write_start (the_fs h) c off src n t m"
  have i: "ws_index ?w = (c - 6) mod 512" using c by (simp add: indirect_write_start_def indirect_index_nat)
  have "min (1024 - off) n = n" using n by arith
  then have b: "blank_space off n = n" using n by (simp add: blank_space_eq)
  have p: "ws_ptrs ?w ! ws_index ?w \<noteq> 0" using v(1,2) i by (auto simp: indirect_write_start_def)
  have "indirect_write_loop (the_fs h) ?w = indirect_write_loop (the_fs h) (write_step (the_fs h) ?w)"
    by (rule indirect_write_loop_cases(2) [OF _ _ p]) (use n i in \<open>simp_all add: indirect_write_start_def\<close>)
  also have "\<dots> = write_step (the_fs h) ?w"
    using n b by (intro indirect_write_loop_cases(1)) (simp add: write_step_def indirect_store_def Let_def indirect_write_start_def)
  finally have w: "indirect_write_loop (the_fs h) ?w = write_step (the_fs h) ?w" .
  have "ws_mem (write_step (the_fs h) ?w) = put_block v (buf_write (get_block m v) off (src_bytes src n)) m"
    using v i b by (simp add: write_step_def indirect_store_def Let_def indirect_write_start_def)
  then show ?thesis
    using b by (subst write_indirect_block.simps)
      (simp add: w Let_def, simp add: write_step_def indirect_store_def Let_def indirect_write_start_def)
qed

lemma fs_write_second_level:
  fixes h :: int and m :: mem
  assumes f: "f < 256" "bitmap_test fd_bm f m"
  defines "d \<equiv> get_fd m f" and "i \<equiv> unat (inodeNum (get_fd m f))"
  defines "c \<equiv> unat (locate_order d)" and "off \<equiv> unat (locate_offset d)"
  defines "dd \<equiv> unat (doubleIndirectPointer (get_inode m i))"
  assumes c: "518 \<le> c" and dd: "17 \<le> dd" "dd < 65528" "bitmap_test whole_bm dd m"
    "read_ptrs (the_fs h) dd m ! ((c - 518) div 512) = 0"
    and nid: "block_store_allocate (Some (whole_store h)) m = (nid, m1)" "nid < 65528" "17 \<le> nid" "\<not> bitmap_test whole_bm nid m"
    and v: "v = unat (read_ptrs (the_fs h) nid m ! ((c - 6) mod 512))" "17 \<le> v" "v < 65528" "v \<noteq> nid" "v \<noteq> dd"
    and n: "0 < n" "off + n \<le> 1024"
  shows "\<exists>m'. fs_write (Some (the_fs h)) (int f) (Some src) n m = Some (int n, m') \<and>
    get_block m' v = buf_write (get_block m v) off (src_bytes src n)"
proof -
  let ?fs = "the_fs h" and ?ino = "get_inode m i" and ?k = "(c - 518) div 512"
  have "bitmap_ffz (Some whole_bm) m \<noteq> SIZE_MAX" using nid(1,2) by (auto simp: allocate_whole Let_def split: if_splits)
  then have m1: "m1 = bitmap_set whole_bm nid m" using nid(1) by (auto simp: allocate_whole Let_def)
  define ptrs where "ptrs = read_ptrs ?fs dd m"
  define m2 where "m2 = put_block dd (ptrs_bytes (ptrs[?k := of_nat nid])) m1"
  have dd0: "doubleIndirectPointer ?ino \<noteq> 0" using dd(1) by (auto simp: dd_def)
  have nd: "nid \<noteq> dd" using nid(4) dd(3) by auto
  have len: "length ptrs = 512" by (simp add: ptrs_def read_ptrs_def)
  have r1: "read_ptrs ?fs dd m1 = ptrs" unfolding ptrs_def m1 by (rule read_ptrs_cong) (use nid(2) dd in \<open>simp add: get_block_alloc\<close>)
  have tgt: "double_direct_target ?fs ?ino c m = Some (Some nid, ?ino, m2)"
  proof -
    have p: "read_ptrs ?fs (unat (doubleIndirectPointer ?ino)) m ! nat (double_index c) = 0"
      using dd(4) c by (simp add: dd_def double_index_nat)
    have "dd \<noteq> SIZE_MAX" using dd(2) by simp
    then show ?thesis
      using dd0 p nid dd(2) c
      by (simp add: double_direct_target_def Let_def dd_def [symmetric] m2_def write_ptrs_def ptrs_def double_index_nat)
  qed
  have g2: "get_block m2 j = get_block m j" if "j \<noteq> dd" "j < 65528" for j
    using that len nid(2) unfolding m2_def m1 by (simp add: get_put_block get_block_alloc)
  have rn: "read_ptrs ?fs nid m2 = read_ptrs ?fs nid m" by (rule read_ptrs_cong) (rule g2, use nd nid(2) in simp_all)
  define m3 where "m3 = write_ptrs ?fs nid (read_ptrs ?fs nid m2) (put_block v (buf_write (get_block m2 v) off (src_bytes src n)) m2)"
  have wi: "write_indirect_block ?fs ?ino c off src n nid m2 = Some (n, ?ino, m3)"
    unfolding m3_def using nid(2) c v n by (intro write_indirect_one) (simp_all add: rn)
  have "write_from ?fs ?ino c off src n m = Some (n, ?ino, m3)"
    using c tgt wi by (simp add: write_from_def write_double_direct_block_def)
  moreover have "m3 FdData = m FdData" using nid(2) by (simp add: m3_def m2_def m1 write_ptrs_def image_bit_objects)
  ultimately have W: "fs_write (Some ?fs) (int f) (Some src) n m = Some (int n, write_done f i ?ino n m3)"
    unfolding i_def using n(1) by (intro fs_write_from [OF f]) (simp_all add: d_def i_def c_def off_def)
  have "i < 256" using unsigned_less [of "inodeNum (get_fd m f)", where 'a = nat] by (simp add: i_def)
  then have "get_block (write_done f i ?ino n m3) v = get_block m3 v" using v(2) by (intro write_done_blocks(1) inode_wf_get)
  also have "\<dots> = buf_write (get_block m v) off (src_bytes src n)"
  proof -
    have "length (ptrs_bytes (read_ptrs ?fs nid m2)) = 1024" by (simp add: read_ptrs_def)
    moreover have "length (buf_write (get_block m2 v) off (src_bytes src n)) = 1024" using n by simp
    ultimately show ?thesis
      using v(3-5) nid(2) g2 [of v] by (simp add: m3_def write_ptrs_def get_put_block)
  qed
  finally show ?thesis using W by blast
qed

section \<open>Properties of writing\<close>

text \<open>C9: a write through an open descriptor, into the part of the file that the direct and the
  indirect pointers reach (518 blocks), when enough blocks are free for the holes it fills, returns
  the number of bytes asked for; the bytes of the range are those of the source, every other byte
  of the file, every other file, every other allocated block and every other descriptor is
  unchanged, and the cursor stands after the range. (A write into a hole among the direct blocks
  has to start at the beginning of the block.)\<close>

theorem fs_write_stores:
  fixes h :: int and m :: mem
  assumes "f < 256" and "bitmap_test fd_bm f m" and "cursor_ok (get_fd m f)"
    and "i = unat (inodeNum (get_fd m f))" and "pos = cursor_pos (get_fd m f)"
    and "0 < n" and "pos + n \<le> e * 1024" and "e \<le> 518" and "file_ok (the_fs h) m i"
    and "blocks_needed (the_fs h) (get_inode m i) m (pos div 1024) e \<le> free_blocks m"
    and "pos div 1024 < 6 \<and> file_block (the_fs h) (get_inode m i) m (pos div 1024) = 0 \<longrightarrow> pos mod 1024 = 0"
  shows "\<exists>m'. fs_write (Some (the_fs h)) (int f) (Some src) n m = Some (int n, m') \<and> file_ok (the_fs h) m' i \<and>
    (\<forall>p. pos \<le> p \<and> p < pos + n \<longrightarrow> file_byte (the_fs h) (get_inode m' i) m' p = src (p - pos)) \<and>
    (\<forall>p<518 * 1024. \<not> (pos \<le> p \<and> p < pos + n) \<and> file_block (the_fs h) (get_inode m i) m (p div 1024) \<noteq> 0 \<longrightarrow>
       file_byte (the_fs h) (get_inode m' i) m' p = file_byte (the_fs h) (get_inode m i) m p) \<and>
    (\<forall>j<65528. 17 \<le> j \<and> bitmap_test whole_bm j m \<and> j \<notin> tables (get_inode m i) \<and>
       (\<forall>b<518. file_block (the_fs h) (get_inode m i) m b \<noteq> j) \<longrightarrow> get_block m' j = get_block m j) \<and>
    (\<forall>i'<256. i' \<noteq> i \<longrightarrow> get_inode m' i' = get_inode m i') \<and>
    (\<forall>g<256. g \<noteq> f \<longrightarrow> get_fd m' g = get_fd m g) \<and> cursor_pos (get_fd m' f) = pos + n"
proof -
  have c: "unat (locate_order (get_fd m f)) = pos div 1024" "unat (locate_offset (get_fd m f)) = pos mod 1024"
    using cursor_split [OF assms(3)] assms(5) by simp_all
  show ?thesis
    using fs_write_bytes [OF assms(1-3), of n e h src] assms(4-) unfolding c by blast
qed

text \<open>The descriptor with its cursor at the end of the file.\<close>

abbreviation at_end :: fd_t where "at_end \<equiv> \<lparr>inodeNum = 1, usage = 1, locate_order = 1, locate_offset = 10\<rparr>"

lemma at_end_simps [simp]: "cursor_ok at_end" "cursor_pos at_end = 1034"
  by (simp_all add: cursor_ok_def cursor_pos_def)

theorem fs_write_stores_witness:
  "\<exists>m'. fs_write (Some (the_fs 3)) 0 (Some (\<lambda>k. of_nat k)) 2000 (sample at_end) = Some (2000, m') \<and>
    file_byte (the_fs 3) (get_inode m' 1) m' 1035 = 1 \<and> file_byte (the_fs 3) (get_inode m' 1) m' 0 = 7"
proof -
  have b: "file_byte (the_fs 3) sample_inode (sample at_end) 0 = 7"
    by (simp add: file_byte_def sample_blocks sample_simps)
  obtain m' where m': "fs_write (Some (the_fs 3)) (int 0) (Some (\<lambda>k. of_nat k)) 2000 (sample at_end) = Some (int 2000, m')"
    "\<forall>p. 1034 \<le> p \<and> p < 1034 + 2000 \<longrightarrow> file_byte (the_fs 3) (get_inode m' 1) m' p = of_nat (p - 1034)"
    "\<forall>p<518 * 1024. \<not> (1034 \<le> p \<and> p < 1034 + 2000) \<and>
        file_block (the_fs 3) (get_inode (sample at_end) 1) (sample at_end) (p div 1024) \<noteq> 0 \<longrightarrow>
       file_byte (the_fs 3) (get_inode m' 1) m' p = file_byte (the_fs 3) (get_inode (sample at_end) 1) (sample at_end) p"
    using fs_write_stores [of 0 "sample at_end" 1 1034 2000 3 3 "\<lambda>k. of_nat k"] sample_needed [of 3]
    by (auto simp: sample_simps sample_blocks sample_file_ok [unfolded One_nat_def])
  have "file_byte (the_fs 3) (get_inode m' 1) m' 0 = 7"
    using m'(3) [rule_format, of 0] b by (simp add: sample_simps sample_blocks)
  moreover have "file_byte (the_fs 3) (get_inode m' 1) m' 1035 = 1"
    using m'(2) [rule_format, of 1035] by simp
  ultimately show ?thesis using m'(1) by auto
qed

text \<open>C20: overwriting a mapped part of a file, through the direct, the indirect and the double
  indirect blocks alike, stores exactly the range, allocates nothing and touches no other block;
  but the size of the file grows by the number of bytes written although the file did not
  become longer.\<close>

theorem fs_write_overwrites:
  fixes h :: int and m :: mem
  assumes "f < 256" and "bitmap_test fd_bm f m" and "cursor_ok (get_fd m f)"
    and "i = unat (inodeNum (get_fd m f))" and "pos = cursor_pos (get_fd m f)" and "F = file_block (the_fs h) (get_inode m i) m"
    and "mapped (the_fs h) (get_inode m i) m b e" and "b \<le> pos div 1024"
    and "\<forall>t \<in> file_tables (the_fs h) (get_inode m i) m e. t = 0 \<or> 17 \<le> t \<and> t < 65528"
    and "0 < n" and "pos + n \<le> e * 1024"
  shows "\<exists>m'. fs_write (Some (the_fs h)) (int f) (Some src) n m = Some (int n, m') \<and>
    get_inode m' i = (get_inode m i)\<lparr>fileSize := fileSize (get_inode m i) + of_nat n\<rparr> \<and>
    (\<forall>p. b * 1024 \<le> p \<and> p < e * 1024 \<longrightarrow> file_byte (the_fs h) (get_inode m' i) m' p =
       (if pos \<le> p \<and> p < pos + n then src (p - pos) else file_byte (the_fs h) (get_inode m i) m p)) \<and>
    (\<forall>j. 17 \<le> j \<and> j \<notin> F ` {b..<e} \<longrightarrow> get_block m' j = get_block m j) \<and>
    (\<forall>j<65528. bitmap_test whole_bm j m' = bitmap_test whole_bm j m)"
  using fs_write_mapped [OF assms(1-3), of h b e n src] assms(4-) cursor_split(1) [OF assms(3)] by auto

text \<open>The descriptor of the example with its cursor at byte 10.\<close>

abbreviation at_ten :: fd_t where "at_ten \<equiv> \<lparr>inodeNum = 1, usage = 1, locate_order = 0, locate_offset = 10\<rparr>"

lemma at_ten_simps [simp]: "cursor_ok at_ten" "cursor_pos at_ten = 10"
  by (simp_all add: cursor_ok_def cursor_pos_def)

lemma sample_tables: "file_tables (the_fs h) sample_inode m 2 = {0}"
  by (simp add: file_tables_def sample_inode_def zero_inode_def)

lemma sample_mapped: "mapped (the_fs h) sample_inode m 0 2"
  by (auto simp: mapped_def sample_tables sample_blocks inj_on_def)

theorem fs_write_overwrites_witness:
  "\<exists>m'. fs_write (Some (the_fs 3)) 0 (Some (\<lambda>k. of_nat k)) 5 (sample at_ten) = Some (5, m') \<and>
    fileSize (get_inode m' 1) = 1039"
proof -
  obtain m' where "fs_write (Some (the_fs 3)) (int 0) (Some (\<lambda>k. of_nat k)) 5 (sample at_ten) = Some (int 5, m')"
    "get_inode m' 1 = (get_inode (sample at_ten) 1)\<lparr>fileSize := fileSize (get_inode (sample at_ten) 1) + of_nat 5\<rparr>"
    using fs_write_overwrites [of 0 "sample at_ten" 1 10 _ 3 0 2 5 "\<lambda>k. of_nat k"]
    by (auto simp: sample_simps sample_mapped sample_tables)
  then show ?thesis by (auto simp: sample_simps) (simp add: sample_inode_def)
qed

text \<open>C29: writing at the first byte of a new second-level block of the double indirect range allocates that pointer
  block but does not clear it, as \<^verbatim>\<open>allocate_indirectPtr_block\<close> does for the others: when the block
  still holds pointers from an earlier use, the write reports success and goes to the block that
  an old pointer names, which may belong to another file.\<close>

theorem fs_write_stale_pointers:
  fixes h :: int and m :: mem
  assumes "f < 256" and "bitmap_test fd_bm f m" and "i = unat (inodeNum (get_fd m f))"
    and "c = unat (locate_order (get_fd m f))" and "off = unat (locate_offset (get_fd m f))" and "518 \<le> c"
    and "dd = unat (doubleIndirectPointer (get_inode m i))" and "17 \<le> dd" and "dd < 65528" and "bitmap_test whole_bm dd m"
    and "read_ptrs (the_fs h) dd m ! ((c - 518) div 512) = 0"
    and "block_store_allocate (Some (whole_store h)) m = (nid, m1)" and "nid < 65528" and "17 \<le> nid" and "\<not> bitmap_test whole_bm nid m"
    and "v = unat (read_ptrs (the_fs h) nid m ! ((c - 6) mod 512))" and "17 \<le> v" and "v < 65528" and "v \<noteq> nid" and "v \<noteq> dd"
    and "0 < n" and "off + n \<le> 1024"
  shows "\<exists>m'. fs_write (Some (the_fs h)) (int f) (Some src) n m = Some (int n, m') \<and>
    get_block m' v = buf_write (get_block m v) off (src_bytes src n)"
  using fs_write_second_level [of f m h nid m1 v n src] assms by blast

text \<open>The example image with a second file, inode 2, that has a double indirect block without entries; the next
  free block, 20, still holds pointers to block 17, the first block of the file of inode 1.\<close>

definition stale_image :: mem where
  "stale_image = put_inode 2 (sample_inode\<lparr>directPointer := replicate 6 0, doubleIndirectPointer := 19\<rparr>)
     (put_block 20 (ptrs_bytes (replicate 512 17)) (bitmap_set whole_bm 19 (put_block 19 zero_block
       (sample \<lparr>inodeNum = 2, usage = 1, locate_order = 518, locate_offset = 0\<rparr>))))"

lemma stale_image_simps:
  "get_fd stale_image 0 = \<lparr>inodeNum = 2, usage = 1, locate_order = 518, locate_offset = 0\<rparr>"
  "bitmap_test fd_bm 0 stale_image" "doubleIndirectPointer (get_inode stale_image 2) = 19"
  "get_inode stale_image 1 = sample_inode" "get_block stale_image 17 = replicate 1024 7"
  "read_ptrs (the_fs h) 19 stale_image = replicate 512 0" "read_ptrs (the_fs h) 20 stale_image = replicate 512 17"
  "j < 65528 \<Longrightarrow> bitmap_test whole_bm j stale_image \<longleftrightarrow> j \<le> 19"
proof -
  let ?d = "\<lparr>inodeNum = 2, usage = 1, locate_order = 518, locate_offset = 0\<rparr> :: fd_t"
  have wf: "inode_wf (sample_inode\<lparr>directPointer := replicate 6 0, doubleIndirectPointer := 19\<rparr>)"
    using inode_wf_sample by (simp add: inode_wf_def)
  have o: "stale_image ob = sample ?d ob" if "ob \<noteq> Image" for ob
    using that by (simp add: stale_image_def put_inode_def mwrite_def image_bit_objects)
  have "get_fd stale_image 0 = get_fd (sample ?d) 0" by (rule get_fd_Image) (rule o, simp)
  then show "get_fd stale_image 0 = ?d" by (simp add: sample_simps)
  have "bitmap_test fd_bm 0 stale_image = bitmap_test fd_bm 0 (sample ?d)"
    by (rule bitmap_test_cong) (simp add: byte_at_def bitmap_byte_def fd_bm_def bitmap_struct_def o)
  then show "bitmap_test fd_bm 0 stale_image" by (simp add: sample_simps)
  show "doubleIndirectPointer (get_inode stale_image 2) = 19" "get_inode stale_image 1 = sample_inode"
    using wf by (simp_all add: stale_image_def get_put_inode get_inode_put_block get_inode_alloc sample_simps)
  have g: "get_block stale_image j = (if j = 20 then ptrs_bytes (replicate 512 17) else if j = 19 then zero_block else get_block (sample ?d) j)"
    if "17 \<le> j" "j < 65528" for j
    using that wf by (simp add: stale_image_def get_block_put_inode get_put_block get_block_alloc)
  show "get_block stale_image 17 = replicate 1024 7" using g [of 17] by (simp add: sample_simps)
  show "read_ptrs (the_fs h) 19 stale_image = replicate 512 0" using g [of 19] by (simp add: read_ptrs_def zero_block_ptrs)
  show "read_ptrs (the_fs h) 20 stale_image = replicate 512 17"
    using g [of 20] by (simp add: read_ptrs_def codec_simps)
  show "j < 65528 \<Longrightarrow> bitmap_test whole_bm j stale_image \<longleftrightarrow> j \<le> 19"
    using wf by (auto simp: stale_image_def whole_test_put_inode whole_test_put_block bitmap_test_set sample_simps)
qed

text \<open>Three bytes written to the file of inode 2 appear at the beginning of the file of inode 1.\<close>

theorem fs_write_stale_pointers_witness:
  "\<exists>m'. fs_write (Some (the_fs 3)) (int 0) (Some (\<lambda>k. of_nat k)) 3 stale_image = Some (int 3, m') \<and>
    directPointer (get_inode stale_image 1) ! 0 = 17 \<and> take 4 (get_block m' 17) = [0, 1, 2, 7]"
proof -
  note s = stale_image_simps
  have "\<exists>m1. block_store_allocate (Some (whole_store 3)) stale_image = (20, m1)"
  proof (cases rule: allocate_whole_cases [of 3 stale_image])
    case full
    from full(2) [of 20] show ?thesis by (simp add: s(8))
  next
    case (found b)
    have "b = 20" using found(2,3) found(4) [of 20] s(8) [of b] s(8) [of 20] by (cases b "20::nat" rule: linorder_cases) auto
    with found(1) show ?thesis by blast
  qed
  then obtain m1 where a: "block_store_allocate (Some (whole_store 3)) stale_image = (20, m1)" by blast
  obtain m' where m': "fs_write (Some (the_fs 3)) (int 0) (Some (\<lambda>k. of_nat k)) 3 stale_image = Some (int 3, m')"
    "get_block m' 17 = buf_write (get_block stale_image 17) 0 (src_bytes (\<lambda>k. of_nat k) 3)"
    using fs_write_stale_pointers [OF _ s(2) refl refl refl _ refl _ _ _ _ a _ _ _ refl, of 3 "\<lambda>k. of_nat k"]
    by (auto simp: s(1,3,6,7,8))
  have "take 4 (get_block m' 17) = [0, 1, 2, 7]"
    unfolding m'(2) s(5) by (simp add: buf_write_def src_bytes_def upt_rec)
  with m'(1) s(4) show ?thesis by (simp add: sample_inode_def)
qed

section \<open>Properties of reading and seeking\<close>

text \<open>C10: a read of a range that lies within the size of the file and whose blocks are there
  returns the number of bytes asked for and the bytes of the range, moves the cursor past it and
  leaves the image alone.\<close>

theorem fs_read_returns_bytes:
  fixes h :: int and m :: mem
  assumes "f < 256" and "bitmap_test fd_bm f m" and "cursor_ok (get_fd m f)"
    and "ino = get_inode m (unat (inodeNum (get_fd m f)))" and "pos = cursor_pos (get_fd m f)"
    and "pos + n \<le> unat (fileSize ino)" and "pos + n < 2 ^ 26 - 1024"
    and "\<And>p. pos \<le> p \<Longrightarrow> p < pos + n \<Longrightarrow>
      file_block (the_fs h) ino m (p div 1024) \<noteq> 0 \<and> file_block (the_fs h) ino m (p div 1024) \<le> 65528"
  shows "\<exists>m'. fs_read (Some (the_fs h)) (int f) True n m =
      Some (int n, map (file_byte (the_fs h) ino m) [pos..<pos + n], m') \<and>
    m' Image = m Image \<and> cursor_pos (get_fd m' f) = pos + n"
  using fs_read_range [OF assms(1-3), of n h] assms(4-) by (auto simp: file_bytes_def)

theorem fs_read_returns_bytes_witness:
  "\<exists>m'. fs_read (Some (the_fs 3)) 0 True 3 (sample at_ten) = Some (3, [7, 7, 7], m')"
proof -
  have size: "unat (fileSize sample_inode) = 1034" by (simp add: sample_inode_def)
  have b: "map (file_byte (the_fs 3) sample_inode (sample at_ten)) [10..<10 + 3] = [7, 7, 7]"
    by (simp add: upt_rec file_byte_def sample_blocks sample_simps)
  show ?thesis
    using fs_read_returns_bytes [of 0 "sample at_ten" sample_inode 10 3 3] size
    unfolding b by (auto simp: sample_simps sample_blocks)
qed

text \<open>C8: writing, seeking back and reading gives the bytes that were written.\<close>

theorem fs_write_then_read:
  fixes h :: int and m :: mem
  assumes "f < 256" and "bitmap_test fd_bm f m" and "cursor_ok (get_fd m f)"
    and "i = unat (inodeNum (get_fd m f))" and "pos = cursor_pos (get_fd m f)"
    and "0 < n" and "pos + n \<le> e * 1024" and "e \<le> 518" and "file_ok (the_fs h) m i"
    and "blocks_needed (the_fs h) (get_inode m i) m (pos div 1024) e \<le> free_blocks m"
    and "pos \<le> unat (fileSize (get_inode m i))" and "unat (fileSize (get_inode m i)) + n < 2 ^ 26"
    and "pos div 1024 < 6 \<and> file_block (the_fs h) (get_inode m i) m (pos div 1024) = 0 \<longrightarrow> pos mod 1024 = 0"
  shows "\<exists>m1 m2 m3. fs_write (Some (the_fs h)) (int f) (Some src) n m = Some (int n, m1) \<and>
    fs_seek (Some (the_fs h)) (int f) (int pos) FS_SEEK_SET m1 = (int pos, m2) \<and>
    fs_read (Some (the_fs h)) (int f) True n m2 = Some (int n, map src [0..<n], m3)"
proof -
  have c: "unat (locate_order (get_fd m f)) = pos div 1024" "unat (locate_offset (get_fd m f)) = pos mod 1024"
    using cursor_split [OF assms(3)] assms(5) by simp_all
  show ?thesis
    using fs_write_seek_read [OF assms(1-3), of n e h src] assms(4-) unfolding c by blast
qed

theorem fs_write_then_read_witness:
  "\<exists>m1 m2 m3. fs_write (Some (the_fs 3)) 0 (Some (\<lambda>k. of_nat k)) 3 (sample at_end) = Some (3, m1) \<and>
    fs_seek (Some (the_fs 3)) 0 1034 FS_SEEK_SET m1 = (1034, m2) \<and>
    fs_read (Some (the_fs 3)) 0 True 3 m2 = Some (3, [0, 1, 2], m3)"
proof -
  have "unat (fileSize sample_inode) = 1034" by (simp add: sample_inode_def)
  moreover have "map (\<lambda>k. of_nat k) [0..<3] = [0, 1, 2 :: byte]" by (simp add: upt_rec)
  ultimately show ?thesis
    using fs_write_then_read [of 0 "sample at_end" 1 1034 3 3 3 "\<lambda>k. of_nat k"] sample_needed [of 3]
    by (auto simp: sample_simps sample_blocks sample_file_ok [unfolded One_nat_def])
qed

text \<open>C31: at the end of a file \<^verbatim>\<open>fs_read\<close> reads on: when the cursor stands at the end, neither in
  the first block nor at the beginning of one, the code takes it to stand 1024 bytes earlier and
  returns bytes that lie behind the end of the file.\<close>

theorem fs_read_past_end:
  fixes h :: int and m :: mem
  assumes "f < 256" and "bitmap_test fd_bm f m" and "cursor_ok (get_fd m f)"
    and "ino = get_inode m (unat (inodeNum (get_fd m f)))" and "pos = cursor_pos (get_fd m f)"
    and "pos = unat (fileSize ino)" and "1024 \<le> pos" and "pos mod 1024 \<noteq> 0" and "pos mod 1024 + n \<le> 1024"
    and "pos < 2 ^ 26 - 1024"
    and "file_block (the_fs h) ino m (pos div 1024) \<noteq> 0" and "file_block (the_fs h) ino m (pos div 1024) \<le> 65528"
  shows "\<exists>m'. fs_read (Some (the_fs h)) (int f) True n m =
      Some (int n, map (file_byte (the_fs h) ino m) [pos..<pos + n], m')"
proof -
  have c: "unat (locate_order (get_fd m f)) = pos div 1024" "unat (locate_offset (get_fd m f)) = pos mod 1024"
    using cursor_split [OF assms(3)] assms(5) by simp_all
  define c where "c = pos div 1024"
  have cp: "cursor_pos (get_fd m f) div 1024 = c" using assms(5) by (simp add: c_def)
  have pos: "pos = c * 1024 + pos mod 1024" by (simp add: c_def)
  have "1 \<le> c" unfolding c_def using assms(7) by (simp add: Suc_le_eq)
  then have l: "lost (get_fd m f) = 1024" using c assms(8) by (auto simp: lost_def c_def)
  have "c < 65535" using assms(10) unfolding c_def by (intro less_mult_imp_div_less) simp
  then have pr: "present (the_fs h) ino m c (Suc c)"
    using assms(11,12) by (auto simp: present_def c_def less_Suc_eq_le dest: le_antisym)
  have fit: "pos + n \<le> Suc c * 1024" using assms(9) pos by simp
  then have "stops (the_fs h) ino m pos n (Suc c)" by (simp add: stops_def)
  moreover have n: "min n (unat (fileSize ino) - (pos - 1024)) = n" "min n (Suc c * 1024 - pos) = n"
    using assms(6,7,9) fit by simp_all
  moreover have "pos + n < 2 ^ 64" using assms(9,10) by simp
  ultimately show ?thesis
    using fs_read_result [OF assms(1-3), of n h "Suc c"] assms(4-6) pr
    by (auto simp: l c cp file_bytes_def)
qed

lemma sample_at_end:
  "cursor_ok (get_fd (sample at_end) 0)" "1034 = cursor_pos (get_fd (sample at_end) 0)"
  "sample_inode = get_inode (sample at_end) (unat (inodeNum (get_fd (sample at_end) 0)))"
  "1034 = unat (fileSize sample_inode)"
  by (simp_all add: sample_simps) (simp add: sample_inode_def)

theorem fs_read_past_end_witness:
  "\<exists>m'. fs_read (Some (the_fs 3)) (int 0) True 3 (sample at_end) = Some (int 3, [8, 8, 8], m')"
proof -
  have b: "map (file_byte (the_fs 3) sample_inode (sample at_end)) [1034..<1034 + 3] = [8, 8, 8]"
    by (simp add: upt_rec file_byte_def sample_blocks sample_simps)
  show ?thesis
    by (rule fs_read_past_end [OF _ sample_simps(3) sample_at_end(1,3,2,4), of 3 3, unfolded b]) (simp_all add: sample_blocks)
qed

text \<open>C30: behind the end of a file \<^verbatim>\<open>fs_read\<close> overruns the buffer: when the cursor stands at the
  beginning of a block behind the end, which another descriptor of the file can bring about, the
  difference of size and position wraps around, and the code stores the whole block however few
  bytes were asked for.\<close>

theorem fs_read_overruns:
  fixes h :: int and m :: mem
  assumes "f < 256" and "bitmap_test fd_bm f m" and "cursor_ok (get_fd m f)"
    and "ino = get_inode m (unat (inodeNum (get_fd m f)))" and "pos = cursor_pos (get_fd m f)"
    and "unat (fileSize ino) < pos" and "pos mod 1024 = 0" and "pos < 2 ^ 26 - 1024" and "0 < n" and "n < 1024"
    and "file_block (the_fs h) ino m (pos div 1024) \<noteq> 0" and "file_block (the_fs h) ino m (pos div 1024) \<le> 65528"
    and "file_block (the_fs h) ino m (Suc (pos div 1024)) = 0"
  shows "\<exists>m'. fs_read (Some (the_fs h)) (int f) True n m =
      Some (int 1024, map (file_byte (the_fs h) ino m) [pos..<pos + 1024], m')"
proof -
  define c where "c = pos div 1024"
  have pos: "pos = c * 1024" unfolding c_def using div_mult_mod_eq [of pos 1024] assms(7) by linarith
  have d: "unat (locate_order (get_fd m f)) = c" "unat (locate_offset (get_fd m f)) = 0"
    using cursor_split [OF assms(3)] assms(5,7) by (simp_all add: c_def)
  have "locate_offset (get_fd m f) = 0" using d(2) by (simp add: unat_eq_zero)
  then have l: "lost (get_fd m f) = 0" by (simp add: lost_def)
  have "c < 65535" using assms(8) unfolding c_def by (intro less_mult_imp_div_less) simp
  then have pr: "present (the_fs h) ino m c (Suc c)"
    using assms(11,12) by (auto simp: present_def c_def less_Suc_eq_le dest: le_antisym)
  have lim: "clamp_nbyte (fileSize ino) (int (pos - 0)) n = 2 ^ 64 + unat (fileSize ino) - pos"
    using clamp_nbyte_behind [of pos n "fileSize ino"] assms(6,8,10) by simp
  have "min (2 ^ 64 + unat (fileSize ino) - pos) (Suc c * 1024 - pos) = 1024" using pos assms(8) by simp
  moreover have "stops (the_fs h) ino m pos k (Suc c)" for k using assms(13) by (simp add: stops_def c_def)
  ultimately show ?thesis
    using fs_read_clamped [OF assms(1,2,9,3), of h "Suc c"] pr
    unfolding assms(4) [symmetric] assms(5) [symmetric] d l lim by (auto simp: file_bytes_def)
qed

text \<open>The example image with a size of 500 bytes.\<close>

definition short_image :: mem where
  "short_image = put_inode 1 (sample_inode\<lparr>fileSize := 500\<rparr>)
     (sample \<lparr>inodeNum = 1, usage = 1, locate_order = 1, locate_offset = 0\<rparr>)"

theorem fs_read_overruns_witness:
  "\<exists>bytes m'. fs_read (Some (the_fs 3)) (int 0) True 3 short_image = Some (1024, bytes, m') \<and> length bytes = 1024"
proof -
  let ?d = "\<lparr>inodeNum = 1, usage = 1, locate_order = 1, locate_offset = 0\<rparr> :: fd_t"
  let ?ino = "sample_inode\<lparr>fileSize := 500\<rparr>"
  have wf: "inode_wf ?ino" using inode_wf_sample by (simp add: inode_wf_def)
  have o: "short_image ob = sample ?d ob" if "ob \<noteq> Image" for ob
    using that by (simp add: short_image_def put_inode_def mwrite_def)
  have "get_fd short_image 0 = get_fd (sample ?d) 0" by (rule get_fd_Image) (rule o, simp)
  then have fd: "get_fd short_image 0 = ?d" by (simp add: sample_simps)
  have "bitmap_test fd_bm 0 short_image = bitmap_test fd_bm 0 (sample ?d)"
    by (rule bitmap_test_cong) (simp add: byte_at_def bitmap_byte_def fd_bm_def bitmap_struct_def o)
  then have bit: "bitmap_test fd_bm 0 short_image" by (simp add: sample_simps)
  have gi: "get_inode short_image 1 = ?ino" using wf by (simp add: short_image_def get_put_inode)
  have fb: "file_block (the_fs 3) ?ino m b = (if b = 0 then 17 else if b = 1 then 18 else 0)" for m b
  proof -
    have "file_block (the_fs 3) ?ino m b = file_block (the_fs 3) sample_inode m b"
      by (simp add: file_block_def file_table_def)
    then show ?thesis using sample_blocks by simp
  qed
  have cur: "cursor_ok (get_fd short_image 0)" "1024 = cursor_pos (get_fd short_image 0)"
    "?ino = get_inode short_image (unat (inodeNum (get_fd short_image 0)))"
    using gi by (simp_all add: fd cursor_ok_def cursor_pos_def)
  have "\<exists>m'. fs_read (Some (the_fs 3)) (int 0) True 3 short_image =
      Some (int 1024, map (file_byte (the_fs 3) ?ino short_image) [1024..<1024 + 1024], m')"
    by (rule fs_read_overruns [OF _ bit cur(1,3,2)]) (simp_all add: fb)
  then show ?thesis by auto
qed

lemma sample_read:
  "pointers_ok (the_fs 3) sample_inode (sample d)"
  "clamp_nbyte (fileSize sample_inode) (getPreviosOffset at_ten) 2000 = 1024"
proof -
  have t: "file_table (the_fs 3) sample_inode (sample d) b = 0" for b
    by (simp add: file_table_def sample_inode_def zero_inode_def)
  show "pointers_ok (the_fs 3) sample_inode (sample d)"
    by (simp add: pointers_ok_def t sample_blocks) (simp add: sample_inode_def zero_inode_def)
  show "clamp_nbyte (fileSize sample_inode) (getPreviosOffset at_ten) 2000 = 1024"
    using clamp_nbyte_eq [of 10 2000 "fileSize sample_inode"]
    by (simp add: getPreviosOffset_lost lost_def) (simp add: sample_inode_def)
qed

text \<open>C15: a read ends, even when the pointers of the file form a cycle: with the pointers in range, the
  cursor within its block and the (clamped) request within the first 65535 blocks, \<^verbatim>\<open>fs_read\<close> returns.
  It stops short of the request only at a hole, and what it has stored are the bytes that the block
  map of the file gives.\<close>

theorem fs_read_returns:
  fixes h :: int and m :: mem
  assumes "f < 256" and "bitmap_test fd_bm f m" and "cursor_ok (get_fd m f)" and "0 < n"
    and "ino = get_inode m (unat (inodeNum (get_fd m f)))" and "pos = cursor_pos (get_fd m f)"
    and "pointers_ok (the_fs h) ino m"
    and "limit = clamp_nbyte (fileSize ino) (getPreviosOffset (get_fd m f)) n" and "pos + limit \<le> 65535 * 1024"
  shows "\<exists>k m'. fs_read (Some (the_fs h)) (int f) True n m =
      Some (int k, map (file_byte (the_fs h) ino m) [pos..<pos + k], m') \<and>
    k \<le> limit \<and> (k < limit \<longrightarrow> file_block (the_fs h) ino m ((pos + k) div 1024) = 0)"
  using fs_read_ends [OF assms(1,2,4,3), of h] assms(7,9)
  unfolding assms(5,6,8) file_bytes_def getPreviosOffset_lost by blast

theorem fs_read_returns_witness:
  "\<exists>k m'. fs_read (Some (the_fs 3)) (int 0) True 2000 (sample at_ten) =
      Some (int k, map (file_byte (the_fs 3) sample_inode (sample at_ten)) [10..<10 + k], m') \<and>
    k \<le> 1024 \<and> (k < 1024 \<longrightarrow> file_block (the_fs 3) sample_inode (sample at_ten) ((10 + k) div 1024) = 0)"
  using fs_read_returns [of 0 "sample at_ten" 2000 sample_inode 10 3 1024] sample_read by (simp add: sample_simps)

text \<open>Past block 65535 the 16 bit locator wraps around, and the code accesses \<^verbatim>\<open>doubleDirectPtrBuffer[-1]\<close>
  (\<open>fs_read_wraps\<close>). An image on which this happens: every pointer leads to block 4369, which holds
  nothing but that number.\<close>

definition cyclic_inode :: inode_t where
  "cyclic_inode = sample_inode\<lparr>fileSize := 2 ^ 27, doubleIndirectPointer := 4369\<rparr>"

definition cyclic_image :: mem where
  "cyclic_image = put_inode 1 cyclic_inode (put_block 4369 (ptrs_bytes (replicate 512 4369))
     (sample \<lparr>inodeNum = 1, usage = 1, locate_order = 65535, locate_offset = 0\<rparr>))"

theorem fs_read_wraps_example: "fs_read (Some (the_fs 3)) (int 0) True 10000 cyclic_image = None"
proof -
  let ?d = "\<lparr>inodeNum = 1, usage = 1, locate_order = 65535, locate_offset = 0\<rparr> :: fd_t"
  have wf: "inode_wf cyclic_inode" using inode_wf_sample by (simp add: inode_wf_def cyclic_inode_def)
  have o: "cyclic_image ob = sample ?d ob" if "ob \<noteq> Image" for ob
    using that by (simp add: cyclic_image_def put_inode_def put_block_def mwrite_def)
  have "get_fd cyclic_image 0 = get_fd (sample ?d) 0" by (rule get_fd_Image) (rule o, simp)
  then have fd: "get_fd cyclic_image 0 = ?d" by (simp add: sample_simps)
  have "bitmap_test fd_bm 0 cyclic_image = bitmap_test fd_bm 0 (sample ?d)"
    by (rule bitmap_test_cong) (simp add: byte_at_def bitmap_byte_def fd_bm_def bitmap_struct_def o)
  then have bit: "bitmap_test fd_bm 0 cyclic_image" by (simp add: sample_simps)
  have gi: "get_inode cyclic_image 1 = cyclic_inode" using wf by (simp add: cyclic_image_def get_put_inode)
  have "get_block cyclic_image 4369 = ptrs_bytes (replicate 512 4369)"
    using wf by (simp add: cyclic_image_def get_block_put_inode get_put_block)
  then have ptr: "read_ptrs (the_fs 3) 4369 cyclic_image ! i = 4369" if "i < 512" for i
    using that by (simp add: read_ptrs_def bytes_ptrs_bytes)
  have tab: "file_table (the_fs 3) cyclic_inode cyclic_image 65535 = 4369"
    using ptr [of 126] by (simp add: file_table_def) (simp add: cyclic_inode_def)
  have "clamp_nbyte (fileSize cyclic_inode) (getPreviosOffset ?d) 10000 = 10000"
    using clamp_nbyte_eq [of 67107840 10000 "2 ^ 27"]
    by (simp add: getPreviosOffset_lost lost_def cursor_pos_def cyclic_inode_def)
  then show ?thesis
    using fs_read_wraps [of 0 cyclic_image 10000 3] bit ptr by (simp add: fd gi [unfolded One_nat_def] tab cursor_ok_def)
qed

text \<open>C16: the result of \<^verbatim>\<open>fs_read\<close> says what was done: -1 or -2 is returned with nothing stored and
  nothing changed, anything else is the number of bytes stored in the buffer, and then the image, the
  descriptors in use and the other cursors are as before. This holds whatever holes and cycles the
  pointers of the file make, as long as they name blocks of the store. (A call that accesses memory
  outside an array has no result.)\<close>

theorem fs_read_counts_bytes:
  fixes h :: int and m :: mem
  assumes "fs_read (Some (the_fs h)) fd has_dst n m = Some (r, dst, m')" and "cursor_ok (get_fd m (nat fd))"
    and "pointers_ok (the_fs h) (get_inode m (unat (inodeNum (get_fd m (nat fd))))) m"
  shows "r \<in> {-1, -2} \<and> dst = [] \<and> m' = m \<or>
    r = int (length dst) \<and> m' Image = m Image \<and>
    (\<forall>g<256. bitmap_test fd_bm g m' = bitmap_test fd_bm g m \<and> (int g \<noteq> fd \<longrightarrow> get_fd m' g = get_fd m g))"
proof (cases "0 \<le> fd \<and> fd < 256 \<and> has_dst \<and> bitmap_test fd_bm (nat fd) m \<and> n \<noteq> 0")
  case True
  define f where "f = nat fd"
  have f: "fd = int f" "f < 256" "bitmap_test fd_bm f m" using True by (auto simp: f_def)
  let ?d = "get_fd m f"
  from assms(1) True obtain sum where "read_at (the_fs h) (get_inode m (unat (inodeNum ?d))) (unat (locate_order ?d))
      (unat (locate_offset ?d)) (clamp_nbyte (fileSize (get_inode m (unat (inodeNum ?d)))) (getPreviosOffset ?d) n) m =
      Some (sum, dst)" and r: "r = int sum" "m' = put_fd f (updateFD ?d (int sum)) m"
    using fs_read_at [OF f(2,3), of n h] by (auto simp: f(1))
  then have "length dst = sum"
    using assms(2) read_at_length by (fastforce simp: f(1) cursor_ok_def)
  with r show ?thesis by (simp add: f(1) get_put_fd image_fd fd_test_put_fd)
next
  case False
  then show ?thesis using assms(1) by (auto simp: fs_read_def Let_def block_store_get_bm_def split: if_splits)
qed

theorem fs_read_counts_bytes_witness:
  "\<exists>r dst m'. fs_read (Some (the_fs 3)) (int 0) True 2000 (sample at_ten) = Some (r, dst, m') \<and>
    r = int (length dst) \<and> m' Image = sample at_ten Image"
proof -
  have "\<exists>k m'. fs_read (Some (the_fs 3)) (int 0) True 2000 (sample at_ten) =
      Some (int k, file_bytes (the_fs 3) sample_inode (sample at_ten) 10 k, m')"
    using fs_read_ends [of 0 "sample at_ten" 2000 3] sample_read
    by (auto simp: sample_simps getPreviosOffset_lost)
  then obtain r dst m' where r: "fs_read (Some (the_fs 3)) (int 0) True 2000 (sample at_ten) = Some (r, dst, m')" and "0 \<le> r"
    by auto
  then show ?thesis using fs_read_counts_bytes [OF r] sample_read(1) by (auto simp: sample_simps)
qed

text \<open>C23: from the beginning and from the end of the file, \<^verbatim>\<open>fs_seek\<close> moves the cursor to the position asked
  for, cut to the bounds of the file, and returns it.\<close>

theorem fs_seek_set_end:
  fixes h :: int and m :: mem
  assumes "f < 256" and "bitmap_test fd_bm f m" and "whence = FS_SEEK_SET \<or> whence = FS_SEEK_END"
    and "file_size = unat (fileSize (get_inode m (unat (inodeNum (get_fd m f)))))" and "file_size < 2 ^ 26"
    and "- (2 ^ 62) \<le> offset" and "offset < 2 ^ 62" and "cursor_pos (get_fd m f) < 2 ^ 26"
    and "target = max 0 (min (int file_size) (if whence = FS_SEEK_SET then offset else int file_size + offset))"
  shows "\<exists>m'. fs_seek (Some (the_fs h)) (int f) offset whence m = (target, m') \<and> m' Image = m Image \<and>
    int (cursor_pos (get_fd m' f)) = target \<and> cursor_ok (get_fd m' f) \<and>
    (\<forall>g<256. g \<noteq> f \<longrightarrow> get_fd m' g = get_fd m g)"
proof -
  have "of_nat file_size = fileSize (get_inode m (unat (inodeNum (get_fd m f))))" by (simp add: assms(4))
  then have s: "seek_offset whence (fileSize (get_inode m (unat (inodeNum (get_fd m f))))) (get_fd m f) offset = target"
    using seek_lands(1,3) [OF assms(8,5,6,7)] assms(3,9) by (elim disjE) simp_all
  have t: "0 \<le> target" "target < 2 ^ 26" using assms(5,9) by (simp_all add: min_def max_def)
  have w: "whence \<noteq> Other_whence" using assms(3) by (elim disjE) simp_all
  from fs_seek_moves [OF assms(1,2) w, of offset h, unfolded s, OF t] show ?thesis by blast
qed

theorem fs_seek_set_end_witness:
  "\<exists>m'. fs_seek (Some (the_fs 3)) 0 (-4) FS_SEEK_END (sample at_ten) = (1030, m') \<and> cursor_pos (get_fd m' 0) = 1030"
proof -
  have size: "unat (fileSize sample_inode) = 1034" by (simp add: sample_inode_def)
  then show ?thesis
    using fs_seek_set_end [of 0 "sample at_ten" FS_SEEK_END 1034 "-4" 1030 3] by (auto simp: sample_simps)
qed

text \<open>C32: seeking from the current position lands 1024 bytes short of the position asked for
  whenever the cursor is neither in the first block nor at the beginning of one; even
  \<^verbatim>\<open>fs_seek(fs, fd, 0, FS_SEEK_CUR)\<close> moves it back.\<close>

theorem fs_seek_current_short:
  fixes h :: int and m :: mem
  assumes "f < 256" and "bitmap_test fd_bm f m" and "cursor_ok (get_fd m f)" and "pos = cursor_pos (get_fd m f)"
    and "file_size = unat (fileSize (get_inode m (unat (inodeNum (get_fd m f)))))" and "file_size < 2 ^ 26"
    and "pos < 2 ^ 26" and "1024 \<le> pos" and "pos mod 1024 \<noteq> 0"
    and "1024 \<le> int pos + offset" and "int pos + offset \<le> int file_size"
  shows "\<exists>m'. fs_seek (Some (the_fs h)) (int f) offset FS_SEEK_CUR m = (int pos + offset - 1024, m') \<and>
    int (cursor_pos (get_fd m' f)) = int pos + offset - 1024"
proof -
  have c: "unat (locate_order (get_fd m f)) = pos div 1024" "unat (locate_offset (get_fd m f)) = pos mod 1024"
    using cursor_split [OF assms(3)] assms(4) by simp_all
  moreover have "pos div 1024 \<noteq> 0" using assms(8) by simp
  ultimately have l: "lost (get_fd m f) = 1024" using assms(9) by (auto simp: lost_def)
  have "of_nat file_size = fileSize (get_inode m (unat (inodeNum (get_fd m f))))" by (simp add: assms(5))
  moreover have "- (2 ^ 62) \<le> offset" "offset < 2 ^ 62" using assms(6,7,10,11) by simp_all
  ultimately have s: "seek_offset FS_SEEK_CUR (fileSize (get_inode m (unat (inodeNum (get_fd m f))))) (get_fd m f) offset =
      int pos + offset - 1024"
    using seek_lands(2) [of "get_fd m f" file_size offset] assms(4,6-11) l by (simp add: of_nat_diff)
  have t: "0 \<le> int pos + offset - 1024" "int pos + offset - 1024 < 2 ^ 26" using assms(6,10,11) by simp_all
  from fs_seek_moves [OF assms(1,2) seek_t.distinct(9), of offset h, unfolded s, OF t] show ?thesis by blast
qed

theorem fs_seek_current_short_witness:
  "\<exists>m'. fs_seek (Some (the_fs 3)) (int 0) 0 FS_SEEK_CUR (sample at_end) = (int 1034 + 0 - 1024, m') \<and>
    int (cursor_pos (get_fd m' 0)) = int 1034 + 0 - 1024"
  by (rule fs_seek_current_short [OF _ sample_simps(3) sample_at_end(1,2) sample_at_end(4) [unfolded sample_at_end(3)]])
    simp_all

end
