(* ===== verification/FS_System.thy ===== *)
theory FS_System
  imports FS_Ops FS_Transfer
begin

text \<open>
  The file system as a whole: an invariant over directories, files, blocks and descriptors, a step
  relation whose steps are the calls of the interface, and the states that a formatted image can
  reach. The steps are the calls under the conditions in which the code keeps its own data
  consistent; what happens outside them is stated by the properties of the single operations.
\<close>

section \<open>Files and the blocks they own\<close>

definition is_reg :: "mem \<Rightarrow> nat \<Rightarrow> bool" where
  "is_reg m i \<longleftrightarrow> fileType (get_inode m i) = ch_r"

definition own_blocks :: "int \<Rightarrow> mem \<Rightarrow> nat \<Rightarrow> nat set" where
  "own_blocks h m i = tables (get_inode m i) \<union> (map_of_file (the_fs h) (get_inode m i) m ` {..<518} - {0})"

text \<open>The files: in use, with consistent pointers, and no block in common with a directory or
  with each other.\<close>

definition files_ok :: "int \<Rightarrow> mem \<Rightarrow> bool" where
  "files_ok h m \<longleftrightarrow> (\<forall>i<256. is_reg m i \<longrightarrow> bitmap_test inode_bm i m \<and> file_ok (the_fs h) m i \<and>
     doubleIndirectPointer (get_inode m i) = 0 \<and> no_dir_blocks m (own_blocks h m i) \<and>
     (\<forall>i'<256. is_reg m i' \<and> i' \<noteq> i \<longrightarrow> own_blocks h m i \<inter> own_blocks h m i' = {}))"

text \<open>The names: each leads to a file or directory in use, and no two to the same.\<close>

definition names_ok :: "mem \<Rightarrow> bool" where
  "names_ok m \<longleftrightarrow> (\<forall>d<256. is_dir m d \<longrightarrow> (\<forall>n i. lookup m d n = Some i \<longrightarrow>
     bitmap_test inode_bm i m \<and> i \<noteq> 0 \<and> (is_dir m i \<or> is_reg m i) \<and>
     (\<forall>d'<256. \<forall>n'. is_dir m d' \<and> lookup m d' n' = Some i \<longrightarrow> d' = d \<and> n' = n)))"

text \<open>The open descriptors: each at a position within a block of a regular file.\<close>

definition fds_ok :: "mem \<Rightarrow> bool" where
  "fds_ok m \<longleftrightarrow> (\<forall>f<256. bitmap_test fd_bm f m \<longrightarrow>
     cursor_ok (get_fd m f) \<and> is_reg m (unat (inodeNum (get_fd m f))))"

definition sys_inv :: "int \<Rightarrow> mem \<Rightarrow> bool" where
  "sys_inv h m \<longleftrightarrow> fs_inv m \<and> dense m \<and> files_ok h m \<and> names_ok m \<and> fds_ok m"

lemma own_blocks_file_ok:
  assumes "file_ok (the_fs h) m i" and "j \<in> own_blocks h m i"
  shows "17 \<le> j" "j < 65528" "bitmap_test whole_bm j m"
  using assms blocks_okD(1,3) [of "tables (get_inode m i)" "map_of_file (the_fs h) (get_inode m i) m" m]
  by (auto simp: own_blocks_def file_ok_def)

text \<open>A file whose inode and pointer block are unchanged keeps its blocks.\<close>

lemma file_same:
  assumes ok: "file_ok (the_fs h) m i" and ino: "get_inode m' i = get_inode m i"
    and blk: "\<And>j. j \<in> own_blocks h m i \<Longrightarrow> get_block m' j = get_block m j"
    and bits: "\<And>j. j \<in> own_blocks h m i \<Longrightarrow> bitmap_test whole_bm j m'" and low: "\<And>b. b < 17 \<Longrightarrow> bitmap_test whole_bm b m'"
  shows "own_blocks h m' i = own_blocks h m i" and "file_ok (the_fs h) m' i"
proof -
  have T: "t \<in> tables (get_inode m i) \<Longrightarrow> t \<in> own_blocks h m i" for t by (simp add: own_blocks_def)
  have T2: "tables (get_inode m i) \<subseteq> {..65528}"
    using blocks_ok_tables ok by (simp add: file_ok_def)
  have M: "map_of_file (the_fs h) (get_inode m i) m' = map_of_file (the_fs h) (get_inode m i) m"
    by (rule map_of_file_cong) (use blk T T2 in auto)
  then show "own_blocks h m' i = own_blocks h m i" by (simp add: own_blocks_def ino)
  have B: "b < 518 \<Longrightarrow> map_of_file (the_fs h) (get_inode m i) m b \<noteq> 0 \<Longrightarrow>
      map_of_file (the_fs h) (get_inode m i) m b \<in> own_blocks h m i" for b by (simp add: own_blocks_def)
  show "file_ok (the_fs h) m' i"
    using ok bits T B low unfolding file_ok_def ino M blocks_ok_def by blast
qed

text \<open>What a step has to show of the regular files: of one inode \<open>q\<close> all the clauses, of the
  others that nothing of theirs has changed.\<close>

lemma files_ok_step:
  assumes old: "files_ok h m" and low: "\<And>b. b < 17 \<Longrightarrow> bitmap_test whole_bm b m'"
    and reg: "\<And>i. i < 256 \<Longrightarrow> is_reg m' i \<Longrightarrow> i \<noteq> q \<Longrightarrow> is_reg m i"
    and ino: "\<And>i. i < 256 \<Longrightarrow> is_reg m i \<Longrightarrow> i \<noteq> q \<Longrightarrow> get_inode m' i = get_inode m i \<and> bitmap_test inode_bm i m'"
    and blk: "\<And>i j. i < 256 \<Longrightarrow> is_reg m i \<Longrightarrow> i \<noteq> q \<Longrightarrow> j \<in> own_blocks h m i \<Longrightarrow>
      get_block m' j = get_block m j \<and> bitmap_test whole_bm j m'"
    and dirs: "\<And>i. i < 256 \<Longrightarrow> is_reg m i \<Longrightarrow> i \<noteq> q \<Longrightarrow> no_dir_blocks m' (own_blocks h m i)"
    and new: "q < 256 \<Longrightarrow> is_reg m' q \<Longrightarrow> bitmap_test inode_bm q m' \<and> file_ok (the_fs h) m' q \<and>
      doubleIndirectPointer (get_inode m' q) = 0 \<and> no_dir_blocks m' (own_blocks h m' q) \<and>
      (\<forall>i<256. is_reg m i \<and> i \<noteq> q \<longrightarrow> own_blocks h m i \<inter> own_blocks h m' q = {})"
  shows "files_ok h m'"
proof -
  have o: "bitmap_test inode_bm i m" "file_ok (the_fs h) m i" "doubleIndirectPointer (get_inode m i) = 0"
    "i' < 256 \<Longrightarrow> is_reg m i' \<Longrightarrow> i' \<noteq> i \<Longrightarrow> own_blocks h m i \<inter> own_blocks h m i' = {}" if "i < 256" "is_reg m i" for i i'
    using old that unfolding files_ok_def by blast+
  have s: "own_blocks h m' i = own_blocks h m i" "file_ok (the_fs h) m' i" if i: "i < 256" "is_reg m i" "i \<noteq> q" for i
    using file_same [OF o(2) [OF i(1,2)], of m'] ino [OF i] blk [OF i] low by blast+
  show ?thesis
    unfolding files_ok_def
  proof (intro allI impI)
    fix i assume i: "i < 256" "is_reg m' i"
    show "bitmap_test inode_bm i m' \<and> file_ok (the_fs h) m' i \<and>
     doubleIndirectPointer (get_inode m' i) = 0 \<and> no_dir_blocks m' (own_blocks h m' i) \<and>
     (\<forall>i'<256. is_reg m' i' \<and> i' \<noteq> i \<longrightarrow> own_blocks h m' i \<inter> own_blocks h m' i' = {})"
    proof (cases "i = q")
      case True
      have "own_blocks h m' q \<inter> own_blocks h m' i' = {}" if i': "i' < 256" "is_reg m' i'" "i' \<noteq> q" for i'
        using new i i' True s(1) [OF i'(1) reg [OF i'] i'(3)] reg [OF i'] by (simp add: Int_commute)
      then show ?thesis using new i True by blast
    next
      case False
      note r = reg [OF i False]
      have "own_blocks h m' i \<inter> own_blocks h m' i' = {}" if i': "i' < 256" "is_reg m' i'" "i' \<noteq> i" for i'
      proof (cases "i' = q")
        case True
        then show ?thesis using new i'(1,2) i(1) r False s(1) [OF i(1) r False] by blast
      next
        case f: False
        show ?thesis
          using s(1) [OF i(1) r False] s(1) [OF i'(1) reg [OF i'(1,2) f] f] o(4) [OF i(1) r i'(1) reg [OF i'(1,2) f] i'(3)]
          by simp
      qed
      then show ?thesis
        using ino [OF i(1) r False] s [OF i(1) r False] o(3) [OF i(1) r] dirs [OF i(1) r False] by simp
    qed
  qed
qed

section \<open>Steps that leave the image alone\<close>

lemma image_bits:
  assumes "m' Image = m Image"
  shows "bitmap_test whole_bm j m' = bitmap_test whole_bm j m" "bitmap_test inode_bm j m' = bitmap_test inode_bm j m"
  using assms by (simp_all add: bitmap_test_bit byte_at_def bitmap_byte_def whole_bm_def inode_bm_def)

lemma image_sys_inv:
  fixes m m' :: mem and h :: int
  assumes img: "m' Image = m Image" and inv: "sys_inv h m" and fds: "fds_ok m'"
  shows "sys_inv h m'"
proof -
  have same: "same_dirs m m'" by (rule same_dirs_image) (rule img)
  have gi: "get_inode m' i = get_inode m i" for i by (rule image_cong(2)) (rule img)
  have gb: "get_block m' j = get_block m j" for j by (rule image_cong(1)) (rule img)
  have b: "bitmap_test whole_bm j m' = bitmap_test whole_bm j m" "bitmap_test inode_bm j m' = bitmap_test inode_bm j m" for j
    by (rule image_bits, rule img)+
  have "dir_block m' d = dir_block m d" for d by (simp add: dir_block_def gi gb)
  then have l: "lookup m' d n = lookup m d n" for d n by (simp add: lookup_def gi)
  have rp: "read_ptrs (the_fs h) t m' = read_ptrs (the_fs h) t m" for t by (rule image_cong(3)) (rule img)
  have "map_of_file (the_fs h) ino m' = map_of_file (the_fs h) ino m" for ino
    by (simp add: map_of_file_def indirect_ptrs_def rp)
  then have "files_ok h m'"
    using inv unfolding sys_inv_def files_ok_def is_reg_def own_blocks_def file_ok_def blocks_ok_def no_dir_blocks_def is_dir_def
    by (simp add: gi b)
  moreover have "is_dir m' d = is_dir m d" "is_reg m' d = is_reg m d" for d by (simp_all add: is_dir_def is_reg_def gi)
  then have "names_ok m' = names_ok m" unfolding names_ok_def by (simp only: b l)
  ultimately show ?thesis
    using inv fds same_dirs_inv [OF _ same] same_dirs_dense [OF _ same] by (simp add: sys_inv_def)
qed

text \<open>The image being the same, only the descriptors have to be looked at.\<close>

lemma fds_ok_step:
  assumes old: "fds_ok m" and img: "m' Image = m Image"
    and fd: "\<And>g. g < 256 \<Longrightarrow> bitmap_test fd_bm g m' \<Longrightarrow>
      bitmap_test fd_bm g m \<and> inodeNum (get_fd m' g) = inodeNum (get_fd m g) \<and> (cursor_ok (get_fd m g) \<longrightarrow> cursor_ok (get_fd m' g))"
  shows "fds_ok m'"
proof -
  have gi: "get_inode m' i = get_inode m i" for i by (rule image_cong(2)) (rule img)
  show ?thesis using old fd unfolding fds_ok_def is_reg_def by (simp add: gi)
qed

text \<open>The descriptors depend on the objects other than the image.\<close>

lemma fd_objects:
  fixes m m' :: mem
  assumes "\<And>ob. ob \<noteq> Image \<Longrightarrow> m' ob = m ob"
  shows "get_fd m' f = get_fd m f" and "bitmap_test fd_bm f m' = bitmap_test fd_bm f m"
proof -
  show "get_fd m' f = get_fd m f" using assms by (intro get_fd_Image) simp_all
  show "bitmap_test fd_bm f m' = bitmap_test fd_bm f m"
    by (rule bitmap_test_cong) (use assms in \<open>simp add: byte_at_def bitmap_byte_def fd_bm_def\<close>)
qed

lemma fds_ok_objects:
  assumes old: "fds_ok m" and ob: "\<And>ob. ob \<noteq> Image \<Longrightarrow> m' ob = m ob"
    and reg: "\<And>f. f < 256 \<Longrightarrow> bitmap_test fd_bm f m \<Longrightarrow> is_reg m (unat (inodeNum (get_fd m f))) \<Longrightarrow>
      is_reg m' (unat (inodeNum (get_fd m f)))"
  shows "fds_ok m'"
  using old reg unfolding fds_ok_def by (simp add: fd_objects [OF ob])

lemma fs_close_inv:
  assumes "sys_inv h m" and "fs_close (Some (the_fs h)) fd m = (r, m')"
  shows "sys_inv h m'"
proof -
  have "m' = m \<or> (\<exists>f. m' = bitmap_reset fd_bm f m)"
    using assms(2) by (auto simp: fs_close_def block_store_sub_release_def Let_def split: if_splits)
  then consider "m' = m" | f where "m' = bitmap_reset fd_bm f m" by blast
  then show ?thesis
  proof cases
    case 2
    then have img: "m' Image = m Image" by (simp add: image_fd)
    have "fds_ok m'"
      by (rule fds_ok_step [where m = m, OF _ _ conjI])
        (use assms(1) img 2 in \<open>auto simp: sys_inv_def bitmap_test_reset get_fd_bits\<close>)
    then show ?thesis by (rule image_sys_inv [where m = m, rotated 2]) (rule img assms(1))+
  qed (use assms(1) in simp)
qed

text \<open>Advancing a cursor keeps it within a block, whatever the count.\<close>

lemma updateFD_cursor_ok:
  assumes "cursor_ok f"
  shows "cursor_ok (updateFD f (int k))"
proof -
  define p where "p = unat (locate_offset f)"
  have p: "p < 1024" using assms by (simp add: cursor_ok_def p_def)
  have blank: "unat (1024 - locate_offset f :: uint16_t) = 1024 - p"
    using p by (simp add: unat_sub word_le_nat_alt p_def)
  then have blank': "uint (1024 - locate_offset f :: uint16_t) = int (1024 - p)" by (metis of_nat_unat)
  show ?thesis
  proof (cases "k \<le> 1024 - p")
    case True
    have off: "unat (locate_offset f + of_nat k) = p + k"
      using True p by (subst unat_add_u16) (simp_all add: unat_of_nat p_def)
    then have eq: "locate_offset f + of_nat k = 1024 \<longleftrightarrow> p + k = 1024" by (simp add: word_unat_eq_iff)
    have "int k \<le> 1024 - int p" using True p by simp
    with True off eq p show ?thesis by (simp add: updateFD_def Let_def blank' cursor_ok_def)
  next
    case False
    then have nle: "\<not> int k \<le> int (1024 - p)" by simp
    let ?r = "int k - int (1024 - p)"
    have "updateFD f (int k) = f\<lparr>locate_order := locate_order f + 1 + of_int (?r div 1024),
        locate_offset := of_int (?r mod 1024)\<rparr>"
      unfolding updateFD_def Let_def blank by (rule if_not_P [OF nle])
    moreover have "unat (of_int (?r mod 1024) :: uint16_t) < 1024"
    proof -
      have "0 \<le> ?r mod 1024" "?r mod 1024 < 1024" by simp_all
      then obtain n where n: "?r mod 1024 = int n" "n < 1024" by (metis nonneg_int_cases of_nat_less_iff of_nat_numeral)
      then show ?thesis by (simp add: unat_of_nat)
    qed
    ultimately show ?thesis by (simp add: cursor_ok_def)
  qed
qed

lemma updateFD_inodeNum [simp]: "inodeNum (updateFD f k) = inodeNum f"
  by (simp add: updateFD_def Let_def)

lemma put_fd_inv:
  assumes inv: "sys_inv h m" and f: "f < 256" "bitmap_test fd_bm f m"
    and d: "inodeNum d = inodeNum (get_fd m f)" "cursor_ok (get_fd m f) \<Longrightarrow> cursor_ok d"
  shows "sys_inv h (put_fd f d m)"
proof -
  have img: "put_fd f d m Image = m Image" by (rule image_fd)
  have "fds_ok (put_fd f d m)"
    by (rule fds_ok_step [where m = m, OF _ _ conjI])
      (use inv img d f in \<open>auto simp: sys_inv_def get_put_fd fd_test_put_fd\<close>)
  then show ?thesis by (rule image_sys_inv [where m = m, rotated 2]) (rule img inv)+
qed

lemma fs_read_inv:
  assumes inv: "sys_inv h m" and run: "fs_read (Some (the_fs h)) fd has_dst n m = Some (r, bytes, m')"
  shows "sys_inv h m'"
proof (cases "0 \<le> fd \<and> fd < 256 \<and> has_dst \<and> bitmap_test fd_bm (nat fd) m \<and> n \<noteq> 0")
  case True
  define f where "f = nat fd"
  have f: "f < 256" "bitmap_test fd_bm f m" "fd = int f" using True by (simp_all add: f_def nat_less_iff)
  have n0: "0 < n" using True by simp
  have "fs_read (Some (the_fs h)) (int f) True n m = Some (r, bytes, m')" using run True f(3) by simp
  then obtain k where "m' = put_fd f (updateFD (get_fd m f) (int k)) m"
    unfolding fs_read_at [OF f(1,2) n0]
    by auto
  then show ?thesis using inv f updateFD_cursor_ok by (auto intro!: put_fd_inv)
next
  case False
  then consider "fd < 0 \<or> 256 \<le> fd \<or> \<not> has_dst"
    | "0 \<le> fd" "fd < 256" has_dst "\<not> bitmap_test fd_bm (nat fd) m"
    | "0 \<le> fd" "fd < 256" has_dst "bitmap_test fd_bm (nat fd) m" "n = 0" by fastforce
  then have "m' = m" using run by cases (auto simp: fs_read_def block_store_get_bm_def Let_def)
  with inv show ?thesis by simp
qed

lemma fs_seek_inv:
  assumes inv: "sys_inv h m" and run: "fs_seek (Some (the_fs h)) fd offset whence m = (r, m')"
    and small: "unat (fileSize (get_inode m (unat (inodeNum (get_fd m (nat fd)))))) < 2 ^ 31"
  shows "sys_inv h m'"
proof (cases "0 \<le> fd \<and> fd < 256 \<and> bitmap_test fd_bm (nat fd) m \<and> whence \<noteq> Other_whence")
  case True
  define f where "f = nat fd"
  have f: "f < 256" "bitmap_test fd_bm f m" "fd = int f" using True by (simp_all add: f_def nat_less_iff)
  define d where "d = get_fd m f"
  define sz where "sz = fileSize (get_inode m (unat (inodeNum d)))"
  have i: "unat (inodeNum d) < 256" using unsigned_less [of "inodeNum d", where 'a = nat] by simp
  have "unat sz < 2 ^ 31" using small by (simp only: sz_def d_def f_def)
  then have "uint sz < 2 ^ 31" unfolding uint_nat by (metis of_nat_less_iff of_nat_numeral of_nat_power)
  then have "0 \<le> as_int32 (uint sz)" by (subst as_int_id(1)) simp_all
  then have t: "0 \<le> seek_offset whence sz d offset"
    using True by (cases whence) (simp_all add: seek_offset_def Let_def cutBoundary_clamp)
  let ?s = "d\<lparr>locate_order := 0, locate_offset := 0\<rparr>"
  have "whence = FS_SEEK_CUR \<or> whence = FS_SEEK_END \<or> whence = FS_SEEK_SET" using True by (cases whence) auto
  then have "m' = put_fd f (updateFD ?s (seek_offset whence sz d offset)) m"
    using run f i by (auto simp: fs_seek_def block_store_get_bm_def d_def sz_def Let_def simp del: disj_not1)
  moreover have "cursor_ok (updateFD ?s (int (nat (seek_offset whence sz d offset))))"
    by (rule updateFD_cursor_ok) (simp add: cursor_ok_def)
  ultimately show ?thesis using inv f t by (auto intro!: put_fd_inv simp: d_def)
next
  case False
  then consider "fd < 0 \<or> 256 \<le> fd" | "0 \<le> fd" "fd < 256" "\<not> bitmap_test fd_bm (nat fd) m"
    | "0 \<le> fd" "fd < 256" "bitmap_test fd_bm (nat fd) m" "whence = Other_whence" by fastforce
  then have "m' = m" using run by cases (auto simp: fs_seek_def block_store_get_bm_def Let_def)
  with inv show ?thesis by simp
qed

lemma resolve_names:
  assumes "names_ok m" and "is_dir m 0" and "resolve m 0 tokens = Some i"
  shows "i = 0 \<or> (bitmap_test inode_bm i m \<and> (is_dir m i \<or> is_reg m i))"
proof (cases tokens rule: rev_cases)
  case (snoc ts t)
  then obtain d where d: "resolve m 0 ts = Some d" "is_dir m d" "lookup m d t = Some i"
    using assms(3) by (auto simp: resolve_append split: option.splits if_splits)
  then have "d < 256" using resolve_bound [OF _ d(1)] by simp
  with assms(1) d(2,3) show ?thesis unfolding names_ok_def by blast
qed (use assms(3) in simp)

lemma fs_open_inv:
  assumes inv: "sys_inv h m" and ct: "checked_tokens path = Some (tokens, cnt)" and nul: "0 \<notin> set path"
    and reg: "\<And>i. resolve m 0 tokens = Some i \<Longrightarrow> \<not> is_dir m i"
    and run: "fs_open (Some (the_fs h)) (Some path) m = Some (r, m')"
  shows "sys_inv h m'"
proof -
  have fs: "fs_inv m" using inv by (simp add: sys_inv_def)
  then have dok: "dirs_ok m" "is_dir m 0" by (simp_all add: fs_inv_def)
  note c = fs_open_cases [OF dok(1) ct nul, where h = h]
  let ?f = "bitmap_ffz (Some fd_bm) m"
  show ?thesis
  proof (cases "resolve m 0 tokens = None \<or> ?f = SIZE_MAX")
    case True
    then have "m' = m" using c(1,2) run by (cases "resolve m 0 tokens") auto
    with inv show ?thesis by simp
  next
    case False
    then obtain i where i: "resolve m 0 tokens = Some i" by auto
    have f: "?f \<noteq> SIZE_MAX" "?f < 256" using False fds.ffz_found [of m] by auto
    have m': "m' = opened ?f i m" using c(4) [OF i f(1) reg [OF i]] run by simp
    have i256: "i < 256" using resolve_bound [OF _ i] by simp
    have "is_reg m i" using resolve_names [OF _ dok(2) i] reg [OF i] inv dok(2) by (auto simp: sys_inv_def)
    moreover have img: "m' Image = m Image" unfolding m' by (rule opened_fd(3))
    moreover have "get_inode m' x = get_inode m x" for x by (rule image_cong(2)) (rule img)
    ultimately have "fds_ok m'"
      using inv i256 opened_fd(1) [OF f(2)] opened_fd(2) [of _ ?f i m] unfolding sys_inv_def fds_ok_def is_reg_def m'
      by (auto simp: cursor_ok_def unat_of_nat)
    then show ?thesis by (rule image_sys_inv [where m = m, rotated 2]) (rule img inv)+
  qed
qed

section \<open>\<^verbatim>\<open>fs_write\<close>\<close>

lemma map_of_file_block: "b < 518 \<Longrightarrow> map_of_file fs ino m b = file_block fs ino m b"
  using file_block_map [of b fs ino m] by (simp add: map_of_file_def)

text \<open>When a write goes through: the bounds within which \<open>fs_write_result\<close> describes it.\<close>

definition write_fits :: "int \<Rightarrow> mem \<Rightarrow> nat \<Rightarrow> nat \<Rightarrow> bool" where
  "write_fits h m f n \<longleftrightarrow> (let pos = cursor_pos (get_fd m f); ino = get_inode m (unat (inodeNum (get_fd m f)));
      e = (pos + n + 1023) div 1024 in
     e \<le> 518 \<and> blocks_needed (the_fs h) ino m (pos div 1024) e \<le> free_blocks m \<and>
     (pos div 1024 < 6 \<and> file_block (the_fs h) ino m (pos div 1024) = 0 \<longrightarrow> pos mod 1024 = 0))"

lemma write_fitsD:
  assumes "cursor_ok (get_fd m f)" and "write_fits h m f n"
  defines "e \<equiv> (cursor_pos (get_fd m f) + n + 1023) div 1024"
  defines "ino \<equiv> get_inode m (unat (inodeNum (get_fd m f)))"
  shows "cursor_pos (get_fd m f) + n \<le> e * 1024" "e \<le> 518"
    "blocks_needed (the_fs h) ino m (unat (locate_order (get_fd m f))) e \<le> free_blocks m"
    "unat (locate_order (get_fd m f)) < 6 \<Longrightarrow> file_block (the_fs h) ino m (unat (locate_order (get_fd m f))) = 0 \<Longrightarrow>
      unat (locate_offset (get_fd m f)) = 0"
proof -
  note c = cursor_split [OF assms(1)]
  show "cursor_pos (get_fd m f) + n \<le> e * 1024" unfolding e_def by linarith
  show "e \<le> 518" "blocks_needed (the_fs h) ino m (unat (locate_order (get_fd m f))) e \<le> free_blocks m"
    "unat (locate_order (get_fd m f)) < 6 \<Longrightarrow> file_block (the_fs h) ino m (unat (locate_order (get_fd m f))) = 0 \<Longrightarrow>
      unat (locate_offset (get_fd m f)) = 0"
    using assms(2) unfolding c e_def ino_def by (simp_all add: write_fits_def Let_def)
qed

text \<open>What a write through a descriptor of inode \<open>i\<close> does to the rest of the file system: it only
  takes blocks that were free, keeps what it had, and touches no other inode and no block in use
  that the file does not own.\<close>

definition write_owned :: "int \<Rightarrow> mem \<Rightarrow> nat \<Rightarrow> mem \<Rightarrow> bool" where
  "write_owned h m i m' \<longleftrightarrow> file_ok (the_fs h) m' i \<and>
    fileType (get_inode m' i) = fileType (get_inode m i) \<and>
    doubleIndirectPointer (get_inode m' i) = doubleIndirectPointer (get_inode m i) \<and>
    linkCount (get_inode m' i) = linkCount (get_inode m i) \<and>
    (\<forall>x<256. x \<noteq> i \<longrightarrow> get_inode m' x = get_inode m x) \<and> (\<forall>x<256. bitmap_test inode_bm x m' = bitmap_test inode_bm x m) \<and>
    (\<forall>j<65528. bitmap_test whole_bm j m' \<longleftrightarrow> bitmap_test whole_bm j m \<or> j \<in> own_blocks h m' i) \<and>
    (\<forall>j<65528. 17 \<le> j \<and> bitmap_test whole_bm j m \<and> j \<notin> own_blocks h m i \<longrightarrow> get_block m' j = get_block m j) \<and>
    (\<forall>j \<in> own_blocks h m' i. j \<in> own_blocks h m i \<or> \<not> bitmap_test whole_bm j m) \<and>
    (\<forall>g. bitmap_test fd_bm g m' = bitmap_test fd_bm g m) \<and>
    (\<forall>g. inodeNum (get_fd m' g) = inodeNum (get_fd m g) \<and> (cursor_ok (get_fd m g) \<longrightarrow> cursor_ok (get_fd m' g)))"

lemma write_ownedD:
  assumes "write_owned h m i m'"
  shows "file_ok (the_fs h) m' i" "fileType (get_inode m' i) = fileType (get_inode m i)"
    "doubleIndirectPointer (get_inode m' i) = doubleIndirectPointer (get_inode m i)"
    "\<And>x. x < 256 \<Longrightarrow> x \<noteq> i \<Longrightarrow> get_inode m' x = get_inode m x"
    "\<And>x. x < 256 \<Longrightarrow> bitmap_test inode_bm x m' = bitmap_test inode_bm x m"
    "\<And>j. j < 65528 \<Longrightarrow> bitmap_test whole_bm j m \<Longrightarrow> bitmap_test whole_bm j m'"
    "\<And>j. j < 65528 \<Longrightarrow> 17 \<le> j \<Longrightarrow> bitmap_test whole_bm j m \<Longrightarrow> j \<notin> own_blocks h m i \<Longrightarrow> get_block m' j = get_block m j"
    "\<And>j. j \<in> own_blocks h m' i \<Longrightarrow> j \<in> own_blocks h m i \<or> \<not> bitmap_test whole_bm j m"
    "\<And>g. bitmap_test fd_bm g m' = bitmap_test fd_bm g m"
    "\<And>g. inodeNum (get_fd m' g) = inodeNum (get_fd m g) \<and> (cursor_ok (get_fd m g) \<longrightarrow> cursor_ok (get_fd m' g))"
    "\<And>j. j < 65528 \<Longrightarrow> bitmap_test whole_bm j m' \<longleftrightarrow> bitmap_test whole_bm j m \<or> j \<in> own_blocks h m' i"
    "linkCount (get_inode m' i) = linkCount (get_inode m i)"
  using assms unfolding write_owned_def by blast+

lemma fs_write_owns:
  fixes h :: int and m :: mem
  assumes f: "f < 256" "bitmap_test fd_bm f m" and i: "i = unat (inodeNum (get_fd m f))"
    and cur: "cursor_ok (get_fd m f)" and n: "0 < n" "write_fits h m f n" and ok: "file_ok (the_fs h) m i"
  shows "\<exists>m'. fs_write (Some (the_fs h)) (int f) (Some src) n m = Some (int n, m') \<and> write_owned h m i m' \<and>
    file_block (the_fs h) (get_inode m' i) m' (cursor_pos (get_fd m f) div 1024) \<noteq> 0"
proof -
  let ?fs = "the_fs h" and ?ino = "get_inode m i"
  have i256: "i < 256" unfolding i using unsigned_less [of "inodeNum (get_fd m f)", where 'a = nat] by simp
  define e where "e = (cursor_pos (get_fd m f) + n + 1023) div 1024"
  note w = write_fitsD [OF cur n(2), folded e_def]
  obtain ino1 m1 where R: "fs_write (Some ?fs) (int f) (Some src) n m = Some (int n, write_done f i ino1 n m1)"
    "same_but_blocks ?ino ino1"
    "wrote (tables ?ino) (map_of_file ?fs ?ino m) m (cursor_pos (get_fd m f)) (cursor_pos (get_fd m f) + n)
      (\<lambda>p. src (p - cursor_pos (get_fd m f))) (tables ino1) (map_of_file ?fs ino1 m1) m1"
    using fs_write_result [OF f cur n(1) w(1,2) ok [unfolded i] w(3,4)] unfolding i [symmetric] by blast
  note sb = same_but_blocksD [OF R(2)]
  let ?m' = "write_done f i ino1 n m1" and ?ino' = "ino1\<lparr>fileSize := fileSize ino1 + of_nat n\<rparr>"
  note wd = write_done_blocks [OF sb(1) i256, where f = f and k = n and m = m1]
  have gi: "get_inode ?m' i = ?ino'" using wd(3) [OF i256] by simp
  have T: "tables ?ino' = tables ino1" by (simp add: tables_def)
  have T17: "t \<in> tables ino1 \<Longrightarrow> 17 \<le> t" "tables ino1 \<subseteq> {..65528}" for t
    using blocks_okD(3) [OF wrote_ok [OF R(3)]] blocks_ok_tables [OF wrote_ok [OF R(3)]] by auto
  have M: "map_of_file ?fs ?ino' ?m' = map_of_file ?fs ino1 m1"
    using T17 wd(1) by (intro map_of_file_cong) simp_all
  have own: "own_blocks h ?m' i = tables ino1 \<union> (map_of_file ?fs ino1 m1 ` {..<518} - {0})"
    by (simp add: own_blocks_def gi T M)
  have "blocks_ok (tables ino1) (map_of_file ?fs ino1 m1) ?m'"
    by (rule blocks_ok_cong [OF _ wrote_ok [OF R(3)]]) (rule wd(2))
  then have fok: "file_ok ?fs ?m' i" by (simp add: file_ok_def gi T M)
  have new: "j \<in> own_blocks h m i \<or> \<not> bitmap_test whole_bm j m" if "j \<in> own_blocks h ?m' i" for j
  proof -
    consider "j \<in> tables ino1" | b where "b < 518" "map_of_file ?fs ino1 m1 b = j" "j \<noteq> 0"
      using \<open>j \<in> own_blocks h ?m' i\<close> unfolding own by auto
    then show ?thesis
    proof cases
      case 1
      then show ?thesis using wrote_T_new [OF R(3) 1] by (auto simp: own_blocks_def)
    next
      case 2
      then show ?thesis using wrote_new [OF R(3) 2(1)]
        by (cases "map_of_file ?fs ino1 m1 b = map_of_file ?fs ?ino m b") (auto simp: own_blocks_def)
    qed
  qed
  have frame: "get_block ?m' j = get_block m j"
    if "j < 65528" "17 \<le> j" "bitmap_test whole_bm j m" "j \<notin> own_blocks h m i" for j
  proof -
    have "j \<notin> tables ?ino" "\<forall>b<518. map_of_file ?fs ?ino m b \<noteq> j"
      using that(2,4) by (auto simp: own_blocks_def)
    then show ?thesis using wrote_frame [OF R(3) that(1,3)] that(2) wd(1) by simp
  qed
  have fd1: "get_fd m1 g = get_fd m g" for g using wrote_objects [OF R(3), of FdData] by (intro get_fd_Image) simp_all
  have fb: "bitmap_test fd_bm g ?m' = bitmap_test fd_bm g m" for g
    using wd(6) wrote_objects [OF R(3), of FdBits]
    by (simp add: bitmap_test_bit byte_at_def bitmap_byte_def fd_bm_def bitmap_struct_def padd_def)
  have bits: "bitmap_test whole_bm j ?m' \<longleftrightarrow> bitmap_test whole_bm j m \<or> j \<in> own_blocks h ?m' i" if "j < 65528" for j
    using wd(2) [of j] wrote_bits [OF R(3) that] unfolding own by auto
  show ?thesis
    unfolding write_owned_def
  proof (intro exI [of _ ?m'] conjI allI impI)
    show "bitmap_test inode_bm x ?m' = bitmap_test inode_bm x m" if "x < 256" for x
      using wd(4) [OF that] wrote_inodes(2) [OF R(3) that] by simp
    show "get_inode ?m' x = get_inode m x" if "x < 256" "x \<noteq> i" for x
      using wd(3) [OF that(1)] wrote_inodes(1) [OF R(3) that(1)] that by simp
    show "cursor_ok (get_fd ?m' g)" if "cursor_ok (get_fd m g)" for g
      using wd(5) fd1 updateFD_cursor_ok that by simp
    show "inodeNum (get_fd ?m' g) = inodeNum (get_fd m g)" for g using wd(5) fd1 by simp
    have "cursor_pos (get_fd m f) < e * 1024" using w(1) n(1) unfolding e_def by linarith
    then have b: "cursor_pos (get_fd m f) div 1024 < 518"
      using w(2) by (simp add: e_def less_mult_imp_div_less [THEN less_le_trans])
    have "map_of_file ?fs ino1 m1 (cursor_pos (get_fd m f) div 1024) \<noteq> 0"
      using R(3) n(1) unfolding wrote_def by (meson add.right_neutral less_add_same_cancel1 order_refl)
    then show "file_block ?fs (get_inode ?m' i) ?m' (cursor_pos (get_fd m f) div 1024) \<noteq> 0"
      using map_of_file_block [OF b, of ?fs ?ino' ?m'] by (simp add: gi M)
  qed (use R(1) fok gi sb frame new fb bits in simp_all)
qed

text \<open>The directories do not notice.\<close>

lemma dir_direct0:
  "fs_inv m \<Longrightarrow> d < 256 \<Longrightarrow> is_dir m d \<Longrightarrow> vacantFile (get_inode m d) \<noteq> 0 \<Longrightarrow>
    17 \<le> direct0 (get_inode m d) \<and> direct0 (get_inode m d) < 65528 \<and> bitmap_test whole_bm (direct0 (get_inode m d)) m"
  by (auto simp: fs_inv_def dir_blocks_ok_def)

lemma write_owned_same_dirs:
  assumes inv: "sys_inv h m" and i: "i < 256" and reg: "is_reg m i" and w: "write_owned h m i m'"
  shows "same_dirs m m'" and "x < 256 \<Longrightarrow> is_dir m' x = is_dir m x" and "x < 256 \<Longrightarrow> is_reg m' x = is_reg m x"
proof -
  note W = write_ownedD [OF w]
  have fs: "fs_inv m" and fok: "file_ok (the_fs h) m i" "no_dir_blocks m (own_blocks h m i)"
    using inv i reg by (simp_all add: sys_inv_def files_ok_def)
  have nd: "\<not> is_dir m i" using reg by (simp add: is_reg_def is_dir_def)
  have d: "is_dir m' x = is_dir m x" "is_reg m' x = is_reg m x" if "x < 256" for x
    using W(2) W(4) [OF that] by (cases "x = i"; simp add: is_dir_def is_reg_def)+
  have db: "direct0 (get_inode m x) \<notin> own_blocks h m i" if "x < 256" "is_dir m x" "vacantFile (get_inode m x) \<noteq> 0" for x
    using fok(2) that by (simp add: no_dir_blocks_def)
  have same: "same_dirs m m'"
    unfolding same_dirs_def
  proof (intro conjI allI impI)
    fix x assume x: "x < 256" "is_dir m x"
    then have xi: "x \<noteq> i" using nd by auto
    show g: "get_inode m' x = get_inode m x" using W(4) [OF x(1) xi] .
    assume v: "vacantFile (get_inode m x) \<noteq> 0"
    note b = dir_direct0 [OF fs x v]
    show "dir_block m' x = dir_block m x" using W(7) b db [OF x v] by (simp add: dir_block_def g)
    show "bitmap_test whole_bm (direct0 (get_inode m x)) m'" using W(6) b by simp
  next
    show "bitmap_test whole_bm b m'" if "b < 17" "bitmap_test whole_bm b m" for b using W(6) that by simp
  qed (use d W(5) in simp_all)
  then show "same_dirs m m'" .
  show "x < 256 \<Longrightarrow> is_dir m' x = is_dir m x" "x < 256 \<Longrightarrow> is_reg m' x = is_reg m x" using d by blast+
qed

lemma write_owned_inv:
  assumes inv: "sys_inv h m" and i: "i < 256" and reg: "is_reg m i" and w: "write_owned h m i m'"
  shows "sys_inv h m'"
proof -
  note W = write_ownedD [OF w] and same = write_owned_same_dirs(1) [OF inv i reg w] and d = write_owned_same_dirs(2,3) [OF inv i reg w]
  have fs: "fs_inv m" "files_ok h m" "fds_ok m" using inv by (simp_all add: sys_inv_def)
  then have fok: "file_ok (the_fs h) m i" "no_dir_blocks m (own_blocks h m i)" and dz: "doubleIndirectPointer (get_inode m i) = 0"
    and iu: "bitmap_test inode_bm i m"
    using i reg by (simp_all add: files_ok_def)
  have db: "direct0 (get_inode m x) \<notin> own_blocks h m i" if "x < 256" "is_dir m x" "vacantFile (get_inode m x) \<noteq> 0" for x
    using fok(2) that by (simp add: no_dir_blocks_def)
  note inv' = same_dirs_inv [OF fs(1) same] and l = same_dirsD(4) [OF same]
  have disj: "own_blocks h m x \<inter> own_blocks h m i = {}" if "x < 256" "is_reg m x" "x \<noteq> i" for x
    using fs(2) that i reg unfolding files_ok_def by blast
  have xok: "file_ok (the_fs h) m x" "no_dir_blocks m (own_blocks h m x)" "bitmap_test inode_bm x m" if "x < 256" "is_reg m x" for x
    using fs(2) that by (simp_all add: files_ok_def)
  have ndb: "no_dir_blocks m' S" if "no_dir_blocks m S" for S
    using that d(1) same_dirsD(2) [OF same] unfolding no_dir_blocks_def by (metis (no_types, lifting))
  have "no_dir_blocks m' (own_blocks h m' i)"
  proof (rule ndb)
    show "no_dir_blocks m (own_blocks h m' i)"
      unfolding no_dir_blocks_def
    proof (intro conjI allI impI)
      show "own_blocks h m' i \<inter> {..<17} = {}" using own_blocks_file_ok(1) [OF W(1)] by fastforce
      fix x assume "x < 256" and x: "is_dir m x \<and> vacantFile (get_inode m x) \<noteq> 0"
      with \<open>x < 256\<close> have x': "x < 256" "is_dir m x" "vacantFile (get_inode m x) \<noteq> 0" by blast+
      show "direct0 (get_inode m x) \<notin> own_blocks h m' i"
        using W(8) db [OF x'] dir_direct0 [OF fs(1) x'] by blast
    qed
  qed
  moreover have "own_blocks h m x \<inter> own_blocks h m' i = {}" if "x < 256" "is_reg m x" "x \<noteq> i" for x
    using disj [OF that] W(8) own_blocks_file_ok(3) [OF xok(1) [OF that(1,2)]] by blast
  moreover have oth: "get_block m' j = get_block m j \<and> bitmap_test whole_bm j m'"
    if x: "x < 256" "is_reg m x" "x \<noteq> i" and j: "j \<in> own_blocks h m x" for x j
  proof -
    note o = own_blocks_file_ok [OF xok(1) [OF x(1,2)] j]
    have "j \<notin> own_blocks h m i" using disj [OF x] j by blast
    then show ?thesis using W(7) [OF o(2) o(1) o(3)] W(6) [OF o(2) o(3)] by simp
  qed
  moreover have low: "\<And>b. b < 17 \<Longrightarrow> bitmap_test whole_bm b m'" using inv' by (simp add: fs_inv_def)
  moreover have "get_inode m' x = get_inode m x \<and> bitmap_test inode_bm x m'" if "x < 256" "is_reg m x" "x \<noteq> i" for x
    using W(4,5) xok(3) that by simp
  moreover have "no_dir_blocks m' (own_blocks h m x)" if "x < 256" "is_reg m x" for x
    using ndb [OF xok(2)] that .
  moreover have "is_reg m x" if "x < 256" "is_reg m' x" for x using d(2) that by simp
  moreover have "bitmap_test inode_bm i m'" using W(5) i iu by simp
  ultimately have "files_ok h m'"
    using W(1,3) dz by (intro files_ok_step [OF fs(2), of m' i]) simp_all
  moreover have "names_ok m'"
    using inv d W(5) l lookup_inode_bound unfolding sys_inv_def names_ok_def by metis
  moreover have "fds_ok m'"
    using fs(3) W(9,10) d(2) unsigned_less [of "inodeNum (get_fd m _)", where 'a = nat] unfolding fds_ok_def by simp
  ultimately show ?thesis
    using inv inv' same_dirs_dense [OF _ same] by (simp add: sys_inv_def)
qed

lemma fs_write_inv:
  assumes inv: "sys_inv h m" and f: "f < 256" "bitmap_test fd_bm f m" and n: "0 < n" "write_fits h m f n"
    and run: "fs_write (Some (the_fs h)) (int f) (Some src) n m = Some (r, m')"
  shows "sys_inv h m'"
proof -
  define i where "i = unat (inodeNum (get_fd m f))"
  have i: "i < 256" unfolding i_def using unsigned_less [of "inodeNum (get_fd m f)", where 'a = nat] by simp
  have reg: "is_reg m i" and cur: "cursor_ok (get_fd m f)" using inv f by (simp_all add: sys_inv_def fds_ok_def i_def)
  then have "file_ok (the_fs h) m i" using inv i by (simp add: sys_inv_def files_ok_def)
  from fs_write_owns [OF f i_def cur n this, of src] run have "write_owned h m i m'" by auto
  then show ?thesis by (rule write_owned_inv [OF inv i reg])
qed

section \<open>\<^verbatim>\<open>fs_create\<close>\<close>

text \<open>A file without blocks.\<close>

lemma no_blocks:
  assumes "directPointer ino = replicate 6 0" and "indirectPointer ino = 0"
  shows "tables ino = {}" "b < 518 \<Longrightarrow> map_of_file fs ino m b = 0"
proof -
  show "tables ino = {}" by (simp add: tables_def assms)
  show "map_of_file fs ino m b = 0" if "b < 518"
    unfolding map_of_file_block [OF that] by (simp add: file_block_def file_table_def assms that)
qed

lemma new_inode_ok:
  assumes g: "get_inode m q = new_inode type q" and low: "\<And>b. b < 17 \<Longrightarrow> bitmap_test whole_bm b m"
  shows "own_blocks h m q = {}" "file_ok (the_fs h) m q"
proof -
  note n = no_blocks [of "new_inode type q", OF new_inode_simps(7,8)]
  show "own_blocks h m q = {}" using n by (auto simp: own_blocks_def g)
  show "file_ok (the_fs h) m q" using n low by (simp add: file_ok_def blocks_ok_def g)
qed

text \<open>The files keep their inodes and blocks, and the block of the directory is none of theirs.\<close>

lemma created_files_kept:
  assumes inv: "sys_inv h m" and eff: "create_effect m p name type q m'" and blks: "create_blocks m p q m'"
    and p: "p < 256" "is_dir m p" and x: "x < 256" "is_reg m x"
  shows "x \<noteq> q" "get_inode m' x = get_inode m x" "direct0 (get_inode m' p) \<notin> own_blocks h m x"
    "j \<in> own_blocks h m x \<Longrightarrow> get_block m' j = get_block m j \<and> bitmap_test whole_bm j m'"
proof -
  define b where "b = direct0 (get_inode m' p)"
  have B: "if vacantFile (get_inode m p) = 0 then \<not> bitmap_test whole_bm b m else b = direct0 (get_inode m p)"
    "\<And>j. j < 65528 \<Longrightarrow> bitmap_test whole_bm j m' \<longleftrightarrow> bitmap_test whole_bm j m \<or> j = b"
    "\<And>j. j < 65528 \<Longrightarrow> 17 \<le> j \<Longrightarrow> j \<noteq> b \<Longrightarrow> get_block m' j = get_block m j"
    "\<And>i. i < 256 \<Longrightarrow> i \<noteq> p \<Longrightarrow> i \<noteq> q \<Longrightarrow> get_inode m' i = get_inode m i"
    using blks unfolding create_blocks_def Let_def b_def by blast+
  have xok: "file_ok (the_fs h) m x" "no_dir_blocks m (own_blocks h m x)" "bitmap_test inode_bm x m"
    using inv x by (simp_all add: sys_inv_def files_ok_def)
  show "x \<noteq> q" using xok(3) eff by (auto simp: create_effect_def)
  moreover have "x \<noteq> p" using x(2) p(2) by (auto simp: is_reg_def is_dir_def)
  ultimately show "get_inode m' x = get_inode m x" using B(4) x(1) by blast
  have bx: "b \<notin> own_blocks h m x"
    using B(1) xok(2) own_blocks_file_ok(3) [OF xok(1)] p by (auto simp: no_dir_blocks_def split: if_splits)
  then show "direct0 (get_inode m' p) \<notin> own_blocks h m x" by (simp add: b_def)
  assume j: "j \<in> own_blocks h m x"
  note o = own_blocks_file_ok [OF xok(1) j]
  have "j \<noteq> b" using bx j by blast
  then show "get_block m' j = get_block m j \<and> bitmap_test whole_bm j m'" using B(2) [OF o(2)] B(3) [OF o(2) o(1)] o(3) by simp
qed

lemma created_reg:
  assumes eff: "create_effect m p name type q m'" and blks: "create_blocks m p q m'" and m: "fs_inv m"
    and p: "p < 256" "is_dir m p" and i: "i < 256" "i \<noteq> q"
  shows "is_reg m' i \<longleftrightarrow> is_reg m i"
proof (cases "i = p")
  case True
  then show ?thesis using create_effect_next(5) [OF eff m p] p by (auto simp: is_reg_def is_dir_def)
next
  case False
  then have "get_inode m' i = get_inode m i" using blks i unfolding create_blocks_def Let_def by blast
  then show ?thesis by (simp add: is_reg_def)
qed

lemma created_names_ok:
  assumes inv: "sys_inv h m" and eff: "create_effect m p name type q m'" and blks: "create_blocks m p q m'"
    and p: "p < 256" "is_dir m p" and ty: "type = FS_REGULAR \<or> type = FS_DIRECTORY"
  shows "names_ok m'"
proof -
  have fs: "fs_inv m" "names_ok m" using inv by (simp_all add: sys_inv_def)
  note E = create_effect_next [OF eff fs(1)]
  have q: "\<not> bitmap_test inode_bm q m" "get_inode m' q = new_inode type q"
    "\<And>i. i < 256 \<Longrightarrow> bitmap_test inode_bm i m' \<longleftrightarrow> i = q \<or> bitmap_test inode_bm i m"
    "\<And>d. d < 256 \<Longrightarrow> d \<noteq> q \<Longrightarrow> is_dir m' d \<longleftrightarrow> is_dir m d"
    using eff by (simp_all add: create_effect_def)
  note reg = created_reg [OF eff blks fs(1) p]
  show ?thesis
    unfolding names_ok_def
  proof (intro allI impI, goal_cases)
    case (1 d n i)
    have nl: "lookup m d n = Some x \<Longrightarrow> bitmap_test inode_bm x m \<and> x \<noteq> 0 \<and> (is_dir m x \<or> is_reg m x) \<and> x < 256 \<and> x \<noteq> q" 
      if "d < 256" "is_dir m d" for d n x
      using fs(2) that lookup_inode_bound q(1) unfolding names_ok_def by metis
    have nd: "is_dir m d \<and> d \<noteq> q" if "d < 256" "is_dir m' d" "lookup m' d n = Some i" for d n i
      using that q(4) E(6) by (cases "d = q") auto
    have L: "lookup m' d n = (if d = p \<and> n = name then Some q else lookup m d n)" if "d < 256" "is_dir m d" for d n
      using E(5) [OF that] by blast
    have old: "is_dir m d" using nd 1 by blast
    have l: "(if d = p \<and> n = name then Some q else lookup m d n) = Some i" using L [OF 1(1) old] 1(3) by simp
    have ty: "is_dir m' q \<or> is_reg m' q" using q(2) ty by (auto simp: is_dir_def is_reg_def)
    show ?case
    proof (cases "d = p \<and> n = name")
      case True
      then have iq: "i = q" using l by simp
      have "d' = d \<and> n' = n" if d': "d' < 256" "is_dir m' d' \<and> lookup m' d' n' = Some i" for d' n'
        using nd d' L [of d' n'] nl [of d' n' q] True iq by (auto split: if_splits)
      then show ?thesis using iq ty E(3,7) by blast
    next
      case False
      then have lo: "lookup m d n = Some i" using l by auto
      note o = nl [OF 1(1) old lo]
      have "is_dir m' i \<or> is_reg m' i" using o q(4) reg by blast
      moreover have "bitmap_test inode_bm i m'" using o q(3) by blast
      moreover have "d' = d \<and> n' = n" if d': "d' < 256" "is_dir m' d' \<and> lookup m' d' n' = Some i" for d' n'
      proof -
        have "is_dir m d'" using nd d' by blast
        moreover from this have "lookup m d' n' = Some i" using L [OF d'(1)] d'(2) o by (auto split: if_splits)
        ultimately show ?thesis using fs(2) 1(1) old lo d'(1) unfolding names_ok_def by blast
      qed
      ultimately show ?thesis using o by blast
    qed
  qed
qed

lemma fs_create_inv:
  assumes inv: "sys_inv h m" and ct: "checked_tokens path = Some (tokens, cnt)" and nul: "0 \<notin> set path"
    and ty: "type = FS_REGULAR \<or> type = FS_DIRECTORY" and poss: "create_possible m tokens p"
    and run: "fs_create (Some (the_fs h)) (Some path) type m = Some (r, m')"
  shows "sys_inv h m'"
proof -
  have fs: "fs_inv m" "dense m" "files_ok h m" "names_ok m" "fds_ok m" using inv by (simp_all add: sys_inv_def)
  obtain q where c: "create_effect m p (last tokens) type q m'" "create_blocks m p q m'"
    using fs_create_effect_blocks [OF fs(1,2) ct nul ty poss, of h] run by auto
  note E = create_effect_next [OF c(1) fs(1)]
  have pd: "is_dir m p" using poss by (simp add: create_possible_def)
  have p: "p < 256" using poss resolve_bound [of 0] by (auto simp: create_possible_def)
  have q: "\<not> bitmap_test inode_bm q m" "get_inode m' q = new_inode type q"
    "\<And>i. i < 256 \<Longrightarrow> bitmap_test inode_bm i m' \<longleftrightarrow> i = q \<or> bitmap_test inode_bm i m"
    "\<And>ob. ob \<noteq> Image \<Longrightarrow> m' ob = m ob" "\<And>d. d < 256 \<Longrightarrow> d \<noteq> q \<Longrightarrow> is_dir m' d \<longleftrightarrow> is_dir m d"
    using c(1) by (simp_all add: create_effect_def)
  define b where "b = direct0 (get_inode m' p)"
  have B: "17 \<le> b" "b < 65528"
    "if vacantFile (get_inode m p) = 0 then \<not> bitmap_test whole_bm b m else b = direct0 (get_inode m p)"
    "\<And>j. j < 65528 \<Longrightarrow> bitmap_test whole_bm j m' \<longleftrightarrow> bitmap_test whole_bm j m \<or> j = b"
    "\<And>j. j < 65528 \<Longrightarrow> 17 \<le> j \<Longrightarrow> j \<noteq> b \<Longrightarrow> get_block m' j = get_block m j"
    "\<And>i. i < 256 \<Longrightarrow> i \<noteq> p \<Longrightarrow> i \<noteq> q \<Longrightarrow> get_inode m' i = get_inode m i"
    using c(2) unfolding create_blocks_def Let_def b_def by blast+
  have dirp: "is_dir m' p" using E(5) [OF p pd] by blast
  have pq: "p \<noteq> q" using q(1) fs(1) p pd by (auto simp: fs_inv_def)
  note reg = created_reg [OF c fs(1) p pd]
  have low: "\<And>b. b < 17 \<Longrightarrow> bitmap_test whole_bm b m'" using E(1) by (simp add: fs_inv_def)
  have xok: "file_ok (the_fs h) m x" "no_dir_blocks m (own_blocks h m x)" "bitmap_test inode_bm x m" if "x < 256" "is_reg m x" for x
    using fs(3) that by (simp_all add: files_ok_def)
  note K = created_files_kept [OF inv c p pd]
  have "files_ok h m'"
  proof (rule files_ok_step [OF fs(3), where q = q])
    show "get_block m' j = get_block m j \<and> bitmap_test whole_bm j m'"
      if "i < 256" "is_reg m i" "j \<in> own_blocks h m i" for i j
      using K(4) that .
    show "no_dir_blocks m' (own_blocks h m i)" if x: "i < 256" "is_reg m i" "i \<noteq> q" for i
      unfolding no_dir_blocks_def
    proof (intro conjI allI impI)
      show "own_blocks h m i \<inter> {..<17} = {}" using xok(2) [OF x(1,2)] by (simp add: no_dir_blocks_def)
      fix d assume "d < 256" and d: "is_dir m' d \<and> vacantFile (get_inode m' d) \<noteq> 0"
      then show "direct0 (get_inode m' d) \<notin> own_blocks h m i"
      proof (cases "d = p")
        case True
        then show ?thesis using K(3) [OF x(1,2)] by simp
      next
        case False
        have "d \<noteq> q" using d q(2) by auto
        then show ?thesis
          using False d q(5) B(6) xok(2) [OF x(1,2)] \<open>d < 256\<close> by (simp add: no_dir_blocks_def)
      qed
    qed
    show "get_inode m' i = get_inode m i \<and> bitmap_test inode_bm i m'" if "i < 256" "is_reg m i" for i
      using K(2) q(3) xok(3) that by simp
    show "bitmap_test inode_bm q m' \<and> file_ok (the_fs h) m' q \<and>
      doubleIndirectPointer (get_inode m' q) = 0 \<and> no_dir_blocks m' (own_blocks h m' q) \<and>
      (\<forall>i<256. is_reg m i \<and> i \<noteq> q \<longrightarrow> own_blocks h m i \<inter> own_blocks h m' q = {})"
      using E(3) q(2) new_inode_ok [OF q(2) low, of h] by (simp add: no_dir_blocks_def)
  qed (use low reg in blast)+
  moreover have "names_ok m'" by (rule created_names_ok [OF inv c p pd ty])
  moreover have "fds_ok m'"
  proof (rule fds_ok_objects [OF fs(5) q(4)])
    show "is_reg m' (unat (inodeNum (get_fd m f)))" if "is_reg m (unat (inodeNum (get_fd m f)))" for f
      using reg xok(3) q(1) that unsigned_less [of "inodeNum (get_fd m f)", where 'a = nat] by (simp, metis)
  qed
  ultimately show ?thesis using E(1,2) by (simp add: sys_inv_def)
qed

section \<open>\<^verbatim>\<open>fs_remove\<close>\<close>

lemma length_read_ptrs: "length (read_ptrs fs t m) = 512"
  by (simp add: read_ptrs_def)

lemma nonzero_image: "unat ` (set ps - {0}) = (\<lambda>b. unat (ps ! b)) ` {..<length ps} - {0}"
proof -
  have "(\<lambda>b. unat (ps ! b)) ` {..<length ps} = unat ` set ps"
    by (simp add: set_conv_nth image_image lessThan_def setcompr_eq_image [symmetric] image_Collect)
      (metis (mono_tags, opaque_lifting))
  then show ?thesis by (auto simp: unat_eq_0)
qed

text \<open>Without a double indirect block, the blocks that \<^verbatim>\<open>fs_remove\<close> releases are those of the map.\<close>

lemma file_blocks_own:
  assumes "inode_wf (get_inode m i)" and dz: "doubleIndirectPointer (get_inode m i) = 0"
  shows "file_blocks h m (get_inode m i) = own_blocks h m i"
proof -
  let ?ino = "get_inode m i"
  let ?ps = "indirect_ptrs (the_fs h) ?ino m"
  have l: "length (directPointer ?ino) = 6" using assms(1) by (simp add: inode_wf_def)
  have lp: "length ?ps = 512" by (simp add: indirect_ptrs_def length_read_ptrs)
  have "{..<518::nat} = {..<6} \<union> {6..<518}" by auto
  then have "map_of_file (the_fs h) ?ino m ` {..<518} =
      map_of_file (the_fs h) ?ino m ` {..<6} \<union> map_of_file (the_fs h) ?ino m ` {6..<518}" by (simp only: image_Un)
  moreover have "map_of_file (the_fs h) ?ino m ` {..<6} = (\<lambda>b. unat (directPointer ?ino ! b)) ` {..<6}"
    by (intro Set.image_cong refl) (simp add: map_of_file_def file_map_def)
  moreover have "map_of_file (the_fs h) ?ino m ` {6..<518} = (\<lambda>b. unat (?ps ! b)) ` {..<512}"
  proof -
    have "{6..<518::nat} = (\<lambda>b. b + 6) ` {..<512}"
      by (simp only: lessThan_atLeast0 image_add_atLeastLessThan') simp
    then show ?thesis by (simp only: image_image) (simp add: map_of_file_def file_map_def)
  qed
  moreover have "ptr_blocks (directPointer ?ino) = (\<lambda>b. unat (directPointer ?ino ! b)) ` {..<6} - {0}"
    unfolding ptr_blocks_def nonzero_image l ..
  moreover have "ptr_blocks ?ps = (\<lambda>b. unat (?ps ! b)) ` {..<512} - {0}"
    unfolding ptr_blocks_def nonzero_image lp ..
  ultimately have "map_of_file (the_fs h) ?ino m ` {..<518} - {0} = ptr_blocks (directPointer ?ino) \<union> ptr_blocks ?ps"
    by (simp only: Un_Diff)
  moreover have "indirect_blocks h m (indirectPointer ?ino) = tables ?ino \<union> ptr_blocks ?ps"
    by (simp add: indirect_blocks_def tables_def indirect_ptrs_def ptr_blocks_def)
  ultimately show ?thesis by (auto simp: file_blocks_def double_blocks_def dz own_blocks_def)
qed

text \<open>A file may go when it has one link and no descriptor, no other name starts with its name, and
  entry 0 of the directory stays in use or is the last.\<close>

definition remove_safe :: "mem \<Rightarrow> cstring \<Rightarrow> nat \<Rightarrow> nat \<Rightarrow> bool" where
  "remove_safe m path p q \<longleftrightarrow> names_file m path p q \<and> is_reg m q \<and> \<not> 1 < linkCount (get_inode m q) \<and>
     (\<forall>j. dir_used m p j \<and> take (length (c_basename path)) (entry_name (dir_block m p) j) = c_basename path \<longrightarrow>
        entry_name (dir_block m p) j = c_basename path) \<and>
     (entry_name (dir_block m p) 0 \<noteq> c_basename path \<or> vacantFile (get_inode m p) = 1) \<and>
     (\<forall>f<256. bitmap_test fd_bm f m \<longrightarrow> unat (inodeNum (get_fd m f)) \<noteq> q)"

lemma removed_dense:
  assumes dense: "dense m" and p: "p < 256" "is_dir m p" and q: "get_inode m' q = zero_inode"
    and ino: "\<And>i. i < 256 \<Longrightarrow> i \<noteq> p \<Longrightarrow> i \<noteq> q \<Longrightarrow> get_inode m' i = get_inode m i"
    and bits: "\<And>j. j < 32 \<Longrightarrow> bit (vacantFile (get_inode m' p)) j \<longleftrightarrow>
        bit (vacantFile (get_inode m p)) j \<and> (j < 31 \<longrightarrow> entry_name (dir_block m p) j \<noteq> name)"
    and l: "\<exists>j. dir_used m p j \<and> entry_name (dir_block m p) j = name"
    and e: "entry_name (dir_block m p) 0 \<noteq> name \<or> vacantFile (get_inode m p) = 1"
  shows "dense m'"
  unfolding dense_def
proof (intro allI impI)
  fix d assume d: "d < 256" "is_dir m' d"
  obtain k where k: "dir_used m p k" "entry_name (dir_block m p) k = name" using l by blast
  then have "vacantFile (get_inode m p) \<noteq> 0" by (auto simp: dir_used_def)
  with dense p have u: "dir_used m p 0" by (auto simp: dense_def)
  show "vacantFile (get_inode m' d) = 0 \<or> dir_used m' d 0"
  proof (cases "d = p")
    case True
    show ?thesis
    proof (cases "entry_name (dir_block m p) 0 = name")
      case True
      then have v: "vacantFile (get_inode m p) = 1" using e by simp
      have "\<not> bit (vacantFile (get_inode m' p)) j" for j
      proof (cases "j < 32")
        case j: True
        show ?thesis using bits [OF j] v True by (cases "j = 0") (simp_all add: bit_1_iff)
      next
        case False
        then show ?thesis using bit_imp_le_length [of "vacantFile (get_inode m' p)" j] by auto
      qed
      then have "vacantFile (get_inode m' p) = 0" by (intro bit_eqI) simp
      with \<open>d = p\<close> show ?thesis by simp
    next
      case False
      then have "bit (vacantFile (get_inode m' p)) 0" using bits [of 0] u by (simp add: dir_used_def)
      with \<open>d = p\<close> show ?thesis by (simp add: dir_used_def)
    qed
  next
    case False
    have "d \<noteq> q" using d q by (auto simp: is_dir_def zero_inode_def)
    then have "get_inode m' d = get_inode m d" using ino d False by blast
    then show ?thesis using dense d unfolding dense_def is_dir_def dir_used_def by metis
  qed
qed

text \<open>What a removal does, and what it leaves of the other files.\<close>

lemma remove_safe_effect:
  assumes inv: "sys_inv h m" and safe: "remove_safe m path p q"
  obtains m' where "fs_remove (Some (the_fs h)) (Some path) m = (0, m')" "removed_file m h p q (c_basename path) m'"
    "file_blocks h m (get_inode m q) = own_blocks h m q" "p < 256" "q < 256" "vacantFile (get_inode m p) \<noteq> 0"
proof -
  have fs: "fs_inv m" "files_ok h m" using inv by (simp_all add: sys_inv_def)
  have n: "names_file m path p q" and reg: "is_reg m q" and lc: "\<not> 1 < linkCount (get_inode m q)"
    and pre: "\<forall>j. dir_used m p j \<and> take (length (c_basename path)) (entry_name (dir_block m p) j) = c_basename path \<longrightarrow>
      entry_name (dir_block m p) j = c_basename path"
    using safe by (simp_all add: remove_safe_def)
  note b = fs_remove_unfold(1,2) [OF fs(1) n]
  have l: "lookup m p (c_basename path) = Some q" using n by (simp add: names_file_def)
  have qok: "file_ok (the_fs h) m q" "no_dir_blocks m (own_blocks h m q)" "bitmap_test inode_bm q m"
    "doubleIndirectPointer (get_inode m q) = 0"
    using fs(2) b(2) reg by (simp_all add: files_ok_def)
  note own = file_blocks_own [OF inode_wf_get qok(4), of h]
  have sub: "own_blocks h m q \<subseteq> {..<65528}" using own_blocks_file_ok(2) [OF qok(1)] by blast
  obtain m' where "fs_remove (Some (the_fs h)) (Some path) m = (0, m')" "removed_file m h p q (c_basename path) m'"
    using fs_remove_single [OF fs(1) n reg [unfolded is_reg_def] lc qok(3), of h] own sub qok(2) pre by auto
  moreover have "vacantFile (get_inode m p) \<noteq> 0" using lookup_used [OF l] by (auto simp: dir_used_def)
  ultimately show thesis using that own b by blast
qed

lemma removed_files_kept:
  assumes inv: "sys_inv h m" and rm: "removed_file m h p q name m'" and p: "p < 256" "is_dir m p" "vacantFile (get_inode m p) \<noteq> 0"
    and q: "q < 256" "is_reg m q" and own: "file_blocks h m (get_inode m q) = own_blocks h m q"
    and x: "x < 256" "is_reg m x" "x \<noteq> q"
  shows "get_inode m' x = get_inode m x"
    "j \<in> own_blocks h m x \<Longrightarrow> get_block m' j = get_block m j \<and> bitmap_test whole_bm j m'"
proof -
  have R: "\<And>i. i < 256 \<Longrightarrow> i \<noteq> p \<Longrightarrow> i \<noteq> q \<Longrightarrow> get_inode m' i = get_inode m i"
    "\<And>j. j < 65528 \<Longrightarrow> bitmap_test whole_bm j m' \<longleftrightarrow> bitmap_test whole_bm j m \<and> j \<notin> own_blocks h m q"
    "\<And>j. j < 65528 \<Longrightarrow> 17 \<le> j \<Longrightarrow> j \<noteq> direct0 (get_inode m p) \<Longrightarrow> get_block m' j = get_block m j"
    using rm unfolding removed_file_def own by blast+
  have "x \<noteq> p" using x(2) p(2) by (auto simp: is_reg_def is_dir_def)
  then show "get_inode m' x = get_inode m x" using R(1) x by blast
  have xok: "file_ok (the_fs h) m x" "no_dir_blocks m (own_blocks h m x)" "own_blocks h m x \<inter> own_blocks h m q = {}"
    using inv x q by (simp_all add: sys_inv_def files_ok_def)
  assume j: "j \<in> own_blocks h m x"
  note o = own_blocks_file_ok [OF xok(1) j]
  have "j \<noteq> direct0 (get_inode m p)" using xok(2) j p by (auto simp: no_dir_blocks_def)
  moreover have "j \<notin> own_blocks h m q" using xok(3) j by blast
  ultimately show "get_block m' j = get_block m j \<and> bitmap_test whole_bm j m'" using R(2) [OF o(2)] R(3) [OF o(2) o(1)] o(3) by simp
qed

lemma removed_reg:
  assumes rm: "removed_file m h p q name m'" and p: "p < 256" "is_dir m p" and q: "q < 256" "is_reg m q" and i: "i < 256"
  shows "is_reg m' i \<longleftrightarrow> i \<noteq> q \<and> is_reg m i"
proof -
  have R: "is_dir m' p" "get_inode m' q = zero_inode" "i \<noteq> p \<Longrightarrow> i \<noteq> q \<Longrightarrow> get_inode m' i = get_inode m i"
    using rm p i by (simp_all add: removed_file_def)
  have "\<not> is_reg m p" "\<not> is_reg m' p" using p(2) R(1) by (auto simp: is_reg_def is_dir_def)
  then show ?thesis using R(2,3) by (cases "i = q"; cases "i = p") (simp_all add: is_reg_def zero_inode_def)
qed

lemma removed_names_ok:
  assumes inv: "sys_inv h m" and rm: "removed_file m h p q name m'" and p: "p < 256" "is_dir m p"
    and q: "q < 256" "is_reg m q" and l: "lookup m p name = Some q"
  shows "names_ok m'"
proof -
  have names: "names_ok m" using inv by (simp add: sys_inv_def)
  have R: "\<And>d. d < 256 \<Longrightarrow> is_dir m' d \<longleftrightarrow> is_dir m d"
    "\<And>d n. d < 256 \<Longrightarrow> is_dir m d \<Longrightarrow> lookup m' d n = (if d = p \<and> n = name then None else lookup m d n)"
    "\<And>i. i < 256 \<Longrightarrow> bitmap_test inode_bm i m' \<longleftrightarrow> i \<noteq> q \<and> bitmap_test inode_bm i m"
    using rm unfolding removed_file_def by simp_all
  note r' = removed_reg [OF rm p q]
  show ?thesis
    unfolding names_ok_def
  proof (intro allI impI, goal_cases)
    case (1 d n i)
    have D: "is_dir m d" "lookup m d n = Some i" "\<not> (d = p \<and> n = name)"
      if "d < 256" "is_dir m' d" "lookup m' d n = Some i" for d n
      using that R(1,2) by (auto split: if_splits)
    note o = D [OF 1]
    have iq: "i \<noteq> q" using names o l 1(1) p unfolding names_ok_def by blast
    have i: "i < 256" by (rule lookup_inode_bound [OF o(2)])
    have "bitmap_test inode_bm i m" "i \<noteq> 0" "is_dir m i \<or> is_reg m i" using names o 1(1) unfolding names_ok_def by blast+
    then have "bitmap_test inode_bm i m'" "is_dir m' i \<or> is_reg m' i" using R(1) R(3) r' i iq by blast+
    moreover have "d' = d \<and> n' = n" if d': "d' < 256" "is_dir m' d' \<and> lookup m' d' n' = Some i" for d' n'
      using D [OF d'(1)] d' o 1(1) names unfolding names_ok_def by blast
    ultimately show ?case using \<open>i \<noteq> 0\<close> by blast
  qed
qed

lemma fs_remove_inv:
  assumes inv: "sys_inv h m" and safe: "remove_safe m path p q"
    and run: "fs_remove (Some (the_fs h)) (Some path) m = (r, m')"
  shows "sys_inv h m'"
proof -
  have fs: "fs_inv m" "dense m" "files_ok h m" "names_ok m" "fds_ok m" using inv by (simp_all add: sys_inv_def)
  have n: "names_file m path p q" and reg: "is_reg m q"
    and e0: "entry_name (dir_block m p) 0 \<noteq> c_basename path \<or> vacantFile (get_inode m p) = 1"
    and closed: "\<And>f. f < 256 \<Longrightarrow> bitmap_test fd_bm f m \<Longrightarrow> unat (inodeNum (get_fd m f)) \<noteq> q"
    using safe by (simp_all add: remove_safe_def)
  have pd: "is_dir m p" and l: "lookup m p (c_basename path) = Some q" using n by (simp_all add: names_file_def)
  have pq: "p \<noteq> q" using pd reg by (auto simp: is_reg_def is_dir_def)
  have xok: "no_dir_blocks m (own_blocks h m x)" "bitmap_test inode_bm x m" if "x < 256" "is_reg m x" for x
    using fs(3) that by (simp_all add: files_ok_def)
  have rm: "removed_file m h p q (c_basename path) m'" and own: "file_blocks h m (get_inode m q) = own_blocks h m q"
    and b: "p < 256" "q < 256" and v0: "vacantFile (get_inode m p) \<noteq> 0"
    using remove_safe_effect [OF inv safe] run by auto
  note K = removed_files_kept [OF inv rm b(1) pd v0 b(2) reg own]
  have R: "fs_inv m'" "\<And>d. d < 256 \<Longrightarrow> is_dir m' d \<longleftrightarrow> is_dir m d"
    "\<And>d n. d < 256 \<Longrightarrow> is_dir m d \<Longrightarrow> lookup m' d n = (if d = p \<and> n = c_basename path then None else lookup m d n)"
    "get_inode m' q = zero_inode" "\<And>i. i < 256 \<Longrightarrow> bitmap_test inode_bm i m' \<longleftrightarrow> i \<noteq> q \<and> bitmap_test inode_bm i m"
    "\<And>i. i < 256 \<Longrightarrow> i \<noteq> p \<Longrightarrow> i \<noteq> q \<Longrightarrow> get_inode m' i = get_inode m i"
    "\<And>j. j < 65528 \<Longrightarrow> bitmap_test whole_bm j m' \<longleftrightarrow> bitmap_test whole_bm j m \<and> j \<notin> own_blocks h m q"
    "\<And>j. j < 65528 \<Longrightarrow> 17 \<le> j \<Longrightarrow> j \<noteq> direct0 (get_inode m p) \<Longrightarrow> get_block m' j = get_block m j"
    "\<And>ob. ob \<noteq> Image \<Longrightarrow> m' ob = m ob" "get_inode m' p = (get_inode m p)\<lparr>vacantFile := vacantFile (get_inode m' p)\<rparr>"
    "\<And>j. j < 32 \<Longrightarrow> bit (vacantFile (get_inode m' p)) j \<longleftrightarrow>
        bit (vacantFile (get_inode m p)) j \<and> (j < 31 \<longrightarrow> entry_name (dir_block m p) j \<noteq> c_basename path)"
    using rm unfolding removed_file_def own by simp_all
  have lu: "\<exists>j. dir_used m p j \<and> entry_name (dir_block m p) j = c_basename path" by (rule lookup_used [OF l])
  have dense: "dense m'" using R(4,6,11) lu e0 by (intro removed_dense [OF fs(2) b(1) pd, of m' q]) blast+
  note r' = removed_reg [OF rm b(1) pd b(2) reg]
  have low: "\<And>b. b < 17 \<Longrightarrow> bitmap_test whole_bm b m'" using R(1) by (simp add: fs_inv_def)
  have "files_ok h m'"
  proof (rule files_ok_step [OF fs(3), where q = q])
    show "get_block m' j = get_block m j \<and> bitmap_test whole_bm j m'"
      if "i < 256" "is_reg m i" "i \<noteq> q" "j \<in> own_blocks h m i" for i j
      using K(2) that .
    show "no_dir_blocks m' (own_blocks h m i)" if x: "i < 256" "is_reg m i" for i
      unfolding no_dir_blocks_def
    proof (intro conjI allI impI)
      show "own_blocks h m i \<inter> {..<17} = {}" using xok(1) [OF x] by (simp add: no_dir_blocks_def)
      fix d assume "d < 256" and d: "is_dir m' d \<and> vacantFile (get_inode m' d) \<noteq> 0"
      have dd: "direct0 (get_inode m' p) = direct0 (get_inode m p)" by (subst R(10)) simp
      have "d \<noteq> q" using d R(4) by (auto simp: is_dir_def zero_inode_def)
      then show "direct0 (get_inode m' d) \<notin> own_blocks h m i"
        using d dd v0 b(1) pd R(2) R(6) [of d] xok(1) [OF x] \<open>d < 256\<close>
        by (cases "d = p") (simp_all add: no_dir_blocks_def)
    qed
    show "get_inode m' i = get_inode m i \<and> bitmap_test inode_bm i m'" if "i < 256" "is_reg m i" "i \<noteq> q" for i
      using K(1) R(5) xok(2) that by simp
  qed (use low r' in blast)+
  moreover have "names_ok m'" by (rule removed_names_ok [OF inv rm b(1) pd b(2) reg l])
  moreover have "fds_ok m'"
  proof (rule fds_ok_objects [OF fs(5) R(9)])
    show "is_reg m' (unat (inodeNum (get_fd m f)))"
      if "f < 256" "bitmap_test fd_bm f m" "is_reg m (unat (inodeNum (get_fd m f)))" for f
      using r' closed that unsigned_less [of "inodeNum (get_fd m f)", where 'a = nat] by simp
  qed
  ultimately show ?thesis using R(1) dense by (simp add: sys_inv_def)
qed

section \<open>Steps and reachable states\<close>

lemma fresh_sys_inv:
  assumes "fresh_fs m"
  shows "sys_inv h m"
proof -
  have ino: "i = 0 \<or> get_inode m i = zero_inode" if "i < 256" for i using assms that by (auto simp: fresh_fs_def)
  have r: "get_inode m 0 = root_inode" using assms by (simp add: fresh_fs_def)
  have reg: "\<not> is_reg m i" if "i < 256" for i using ino [OF that] r by (auto simp: is_reg_def root_inode_def zero_inode_def)
  have l: "d = 0 \<and> lookup m d n = None" if "d < 256" "is_dir m d" for d n
    using ino [OF that(1)] that(2) r by (auto simp: is_dir_def lookup_def lookup_in_def root_inode_def zero_inode_def find_None_iff)
  have "files_ok h m" using reg by (simp add: files_ok_def)
  moreover have "names_ok m" using l by (simp add: names_ok_def)
  moreover have "fds_ok m" using assms by (simp add: fds_ok_def fresh_fs_def)
  ultimately show ?thesis using fresh_fs_inv [OF assms] by (simp add: sys_inv_def)
qed

text \<open>One call of the interface on the mounted file system \<open>the_fs h\<close>.\<close>

inductive fs_step :: "int \<Rightarrow> mem \<Rightarrow> mem \<Rightarrow> bool" for h :: int where
  step_create: "checked_tokens path = Some (tokens, cnt) \<Longrightarrow> 0 \<notin> set path \<Longrightarrow> type = FS_REGULAR \<or> type = FS_DIRECTORY \<Longrightarrow>
    create_possible m tokens p \<Longrightarrow> fs_create (Some (the_fs h)) (Some path) type m = Some (r, m') \<Longrightarrow> fs_step h m m'"
| step_open: "checked_tokens path = Some (tokens, cnt) \<Longrightarrow> 0 \<notin> set path \<Longrightarrow>
    (\<And>i. resolve m 0 tokens = Some i \<Longrightarrow> \<not> is_dir m i) \<Longrightarrow>
    fs_open (Some (the_fs h)) (Some path) m = Some (r, m') \<Longrightarrow> fs_step h m m'"
| step_close: "fs_close (Some (the_fs h)) fd m = (r, m') \<Longrightarrow> fs_step h m m'"
| step_read: "fs_read (Some (the_fs h)) fd has_dst n m = Some (r, bytes, m') \<Longrightarrow> fs_step h m m'"
| step_seek: "fs_seek (Some (the_fs h)) fd offset whence m = (r, m') \<Longrightarrow>
    unat (fileSize (get_inode m (unat (inodeNum (get_fd m (nat fd)))))) < 2 ^ 31 \<Longrightarrow> fs_step h m m'"
| step_write: "f < 256 \<Longrightarrow> bitmap_test fd_bm f m \<Longrightarrow> 0 < n \<Longrightarrow> write_fits h m f n \<Longrightarrow>
    fs_write (Some (the_fs h)) (int f) (Some src) n m = Some (r, m') \<Longrightarrow> fs_step h m m'"
| step_remove: "remove_safe m path p q \<Longrightarrow> fs_remove (Some (the_fs h)) (Some path) m = (r, m') \<Longrightarrow> fs_step h m m'"

inductive reachable :: "int \<Rightarrow> mem \<Rightarrow> bool" for h :: int where
  reach_format: "host_ok host path h \<Longrightarrow> path \<noteq> [] \<Longrightarrow> fs_format host (Some path) m0 = Some (Some (the_fs h), m) \<Longrightarrow>
    reachable h m"
| reach_step: "reachable h m \<Longrightarrow> fs_step h m m' \<Longrightarrow> reachable h m'"

lemma fs_step_inv: "fs_step h m m' \<Longrightarrow> sys_inv h m \<Longrightarrow> sys_inv h m'"
proof (induction rule: fs_step.induct)
  case (step_create path tokens cnt type m p r m')
  then show ?case using fs_create_inv by blast
next
  case (step_open path tokens cnt m r m')
  show ?case by (rule fs_open_inv [OF step_open(5,1,2) _ step_open(4)]) (rule step_open(3))
next
  case (step_close fd m r m')
  then show ?case using fs_close_inv by blast
next
  case (step_read fd has_dst n m r bytes m')
  then show ?case using fs_read_inv by blast
next
  case (step_seek fd offset whence m r m')
  then show ?case using fs_seek_inv by blast
next
  case (step_write f m n src r m')
  then show ?case using fs_write_inv by blast
next
  case (step_remove m path p q r m')
  then show ?case using fs_remove_inv by blast
qed

lemma reachable_inv: "reachable h m \<Longrightarrow> sys_inv h m"
proof (induction rule: reachable.induct)
  case (reach_format host path m0 m)
  then obtain m' where "fs_format host (Some path) m0 = Some (Some (the_fs h), m')" "fresh_fs m'"
    using fs_format_fresh by blast
  with reach_format(3) show ?case by (simp add: fresh_sys_inv)
qed (rule fs_step_inv)

lemma reachable_formatted: "reachable 3 formatted"
proof (rule reach_format [OF example_host_ok str_disk])
  show "fs_format example_host (Some (str ''disk'')) (\<lambda>_ _. 0) = Some (Some (the_fs 3), formatted)"
    using fs_format_fresh [OF example_host_ok str_disk, of "\<lambda>_ _. 0"] by (auto simp: formatted_def)
qed

section \<open>Consequences\<close>

text \<open>The blocks of two files, in terms of the block function of the readers.\<close>

lemma sys_inv_separate:
  assumes inv: "sys_inv h m" and i: "i < 256" "is_reg m i" and i': "i' < 256" "is_reg m i'" "i \<noteq> i'"
    and b: "b < 518" "file_block (the_fs h) (get_inode m i) m b \<noteq> 0"
  shows "file_block (the_fs h) (get_inode m i) m b \<notin> own_blocks h m i'"
    "bitmap_test whole_bm (file_block (the_fs h) (get_inode m i) m b) m"
    "17 \<le> file_block (the_fs h) (get_inode m i) m b" "file_block (the_fs h) (get_inode m i) m b < 65528"
    "d < 256 \<Longrightarrow> is_dir m d \<Longrightarrow> vacantFile (get_inode m d) \<noteq> 0 \<Longrightarrow>
      file_block (the_fs h) (get_inode m i) m b \<noteq> direct0 (get_inode m d)"
proof -
  let ?j = "file_block (the_fs h) (get_inode m i) m b"
  have j: "?j \<in> own_blocks h m i"
    using b map_of_file_block [OF b(1), of "the_fs h" "get_inode m i" m] by (force simp: own_blocks_def)
  have fo: "file_ok (the_fs h) m i" "no_dir_blocks m (own_blocks h m i)" "own_blocks h m i \<inter> own_blocks h m i' = {}"
    using inv i i' by (auto simp: sys_inv_def files_ok_def)
  show "?j \<notin> own_blocks h m i'" using fo(3) j by blast
  show "bitmap_test whole_bm ?j m" "17 \<le> ?j" "?j < 65528" using own_blocks_file_ok [OF fo(1) j] by blast+
  show "d < 256 \<Longrightarrow> is_dir m d \<Longrightarrow> vacantFile (get_inode m d) \<noteq> 0 \<Longrightarrow> ?j \<noteq> direct0 (get_inode m d)"
    using fo(2) j unfolding no_dir_blocks_def by metis
qed

lemma fs_write_isolated:
  assumes inv: "sys_inv h m" and f: "f < 256" "bitmap_test fd_bm f m" and n: "0 < n" "write_fits h m f n"
    and x: "x < 256" "is_reg m x" "x \<noteq> unat (inodeNum (get_fd m f))"
  shows "\<exists>m'. fs_write (Some (the_fs h)) (int f) (Some src) n m = Some (int n, m') \<and> get_inode m' x = get_inode m x \<and>
    (\<forall>pos<518 * 1024. file_block (the_fs h) (get_inode m x) m (pos div 1024) \<noteq> 0 \<longrightarrow>
      file_byte (the_fs h) (get_inode m' x) m' pos = file_byte (the_fs h) (get_inode m x) m pos)"
proof -
  define i where "i = unat (inodeNum (get_fd m f))"
  have i: "i < 256" unfolding i_def using unsigned_less [of "inodeNum (get_fd m f)", where 'a = nat] by simp
  have fs: "files_ok h m" "fds_ok m" using inv by (simp_all add: sys_inv_def)
  have reg: "is_reg m i" and cur: "cursor_ok (get_fd m f)" using fs(2) f by (simp_all add: fds_ok_def i_def)
  have fok: "file_ok (the_fs h) m i" "file_ok (the_fs h) m x" and disj: "own_blocks h m x \<inter> own_blocks h m i = {}"
    using fs(1) i reg x by (auto simp: files_ok_def i_def)
  obtain m' where W: "fs_write (Some (the_fs h)) (int f) (Some src) n m = Some (int n, m')" "write_owned h m i m'"
    using fs_write_owns [OF f i_def cur n fok(1), of src] by blast
  note wo = write_ownedD [OF W(2)]
  have gi: "get_inode m' x = get_inode m x" using wo(4) x by (simp add: i_def)
  have gb: "get_block m' j = get_block m j" if j: "j \<in> own_blocks h m x" for j
    using wo(7) own_blocks_file_ok [OF fok(2) j] disj j by blast
  have T: "t \<in> tables (get_inode m x) \<Longrightarrow> t \<in> own_blocks h m x" for t by (simp add: own_blocks_def)
  have "tables (get_inode m x) \<subseteq> {..65528}" using blocks_ok_tables fok(2) by (simp add: file_ok_def)
  then have M: "map_of_file (the_fs h) (get_inode m x) m' = map_of_file (the_fs h) (get_inode m x) m"
    by (intro map_of_file_cong) (use gb T in auto)
  have "file_byte (the_fs h) (get_inode m' x) m' pos = file_byte (the_fs h) (get_inode m x) m pos"
    if p: "pos < 518 * 1024" and nz: "file_block (the_fs h) (get_inode m x) m (pos div 1024) \<noteq> 0" for pos
  proof -
    have b: "pos div 1024 < 518" using p by (simp add: less_mult_imp_div_less)
    note fb = map_of_file_block [OF b, of "the_fs h" "get_inode m x"]
    have "file_block (the_fs h) (get_inode m x) m (pos div 1024) \<in> own_blocks h m x"
      using nz b fb [of m] by (force simp: own_blocks_def)
    moreover have "file_block (the_fs h) (get_inode m x) m' (pos div 1024) = file_block (the_fs h) (get_inode m x) m (pos div 1024)"
      unfolding fb [symmetric] M ..
    ultimately show ?thesis using gb by (simp add: file_byte_def gi)
  qed
  then show ?thesis using W(1) gi by blast
qed

text \<open>A write into a new file: what it needs of the image.\<close>

lemma new_file_fits:
  assumes g: "get_fd m f = \<lparr>inodeNum = of_nat q, usage = 1, locate_order = 0, locate_offset = 0\<rparr>" and q: "q < 256"
    and ino: "get_inode m q = new_inode FS_REGULAR q" and n: "n \<le> e * 1024" "e \<le> 518" "e < free_blocks m"
  shows "cursor_ok (get_fd m f)" "cursor_pos (get_fd m f) = 0" "unat (inodeNum (get_fd m f)) = q"
    "blocks_needed (the_fs h) (get_inode m q) m 0 e \<le> free_blocks m"
proof -
  show "cursor_ok (get_fd m f)" "cursor_pos (get_fd m f) = 0" "unat (inodeNum (get_fd m f)) = q"
    using q by (simp_all add: g cursor_ok_def cursor_pos_def unat_of_nat)
  show "blocks_needed (the_fs h) (get_inode m q) m 0 e \<le> free_blocks m"
    using holes_le [of "map_of_file (the_fs h) (get_inode m q) m" 0 e] n(3) by (simp add: blocks_needed_def)
qed

lemma create_blocks_free:
  assumes "create_blocks m p q m'"
  shows "free_blocks m \<le> Suc (free_blocks m')"
proof -
  define b where "b = direct0 (get_inode m' p)"
  have "\<forall>j<65528. bitmap_test whole_bm j m' \<longleftrightarrow> bitmap_test whole_bm j m \<or> j = b"
    using assms by (simp add: create_blocks_def Let_def b_def)
  then have "{j. j < 65528 \<and> \<not> bitmap_test whole_bm j m} \<subseteq> insert b {j. j < 65528 \<and> \<not> bitmap_test whole_bm j m'}" by auto
  then have "free_blocks m \<le> card (insert b {j. j < 65528 \<and> \<not> bitmap_test whole_bm j m'})"
    unfolding free_blocks_def by (rule card_mono [rotated]) simp
  also have "\<dots> \<le> Suc (free_blocks m')" unfolding free_blocks_def by (simp add: card_insert_if)
  finally show ?thesis .
qed

text \<open>Making a file and opening it, from any consistent state.\<close>

lemma create_open:
  assumes inv: "sys_inv h m" and ct: "checked_tokens path = Some (tokens, cnt)" and nul: "0 \<notin> set path"
    and poss: "create_possible m tokens p" and fd: "\<exists>f<256. \<not> bitmap_test fd_bm f m"
  obtains q f m1 m2 where "fs_create (Some (the_fs h)) (Some path) FS_REGULAR m = Some (0, m1)"
    "fs_open (Some (the_fs h)) (Some path) m1 = Some (int f, m2)" "fs_step h m m1" "fs_step h m1 m2"
    "f < 256" "bitmap_test fd_bm f m2" "q < 256" "\<not> bitmap_test inode_bm q m" "get_inode m2 q = new_inode FS_REGULAR q"
    "get_fd m2 f = \<lparr>inodeNum = of_nat q, usage = 1, locate_order = 0, locate_offset = 0\<rparr>"
    "free_blocks m \<le> Suc (free_blocks m2)" "\<And>i. i < 256 \<Longrightarrow> i \<noteq> p \<Longrightarrow> i \<noteq> q \<Longrightarrow> get_inode m2 i = get_inode m i"
    "create_effect m p (last tokens) FS_REGULAR q m1" "create_blocks m p q m1" "m2 = opened f q m1" "\<not> bitmap_test fd_bm f m"
proof -
  have fs: "fs_inv m" "dense m" using inv by (simp_all add: sys_inv_def)
  obtain q m1 where c: "fs_create (Some (the_fs h)) (Some path) FS_REGULAR m = Some (0, m1)"
    "create_effect m p (last tokens) FS_REGULAR q m1" "create_blocks m p q m1"
    using fs_create_effect_blocks [OF fs ct nul disjI1 [OF refl] poss, of h] by blast
  note E = create_effect_next [OF c(2) fs(1)]
  have new: "get_inode m1 q = new_inode FS_REGULAR q" "\<not> bitmap_test inode_bm q m" "m1 FdBits = m FdBits"
    using c(2) by (simp_all add: create_effect_def)
  have p: "resolve m 0 (butlast tokens) = Some p" "is_dir m p" "lookup m p (last tokens) = None"
    using poss by (simp_all add: create_possible_def)
  have p256: "p < 256" using resolve_bound [OF _ p(1)] by simp
  have r: "resolve m1 0 tokens = Some q"
    using create_effect_resolve(2) [OF fs(1) c(2) p256 p(2,3,1)] valid_last(1) [OF ct nul] by simp
  have nd: "\<not> is_dir m1 q" by (simp add: is_dir_def new)
  have "bitmap_test fd_bm f m1 = bitmap_test fd_bm f m" for f using new(3) by (rule fd_test_object)
  then have free: "\<exists>f<256. \<not> bitmap_test fd_bm f m1" using fd by simp
  have d: "dirs_ok m1" using E(1) by (simp add: fs_inv_def)
  note f = ffz_fd_free [OF free]
  define g where "g = bitmap_ffz (Some fd_bm) m1"
  have o: "fs_open (Some (the_fs h)) (Some path) m1 = Some (int g, opened g q m1)"
    unfolding g_def by (rule fs_open_cases(4) [OF d ct nul r f(1) nd])
  have g: "g < 256" using f(2) by (simp add: g_def)
  have "bitmap_test fd_bm g m1 = bitmap_test fd_bm g m" using new(3) by (rule fd_test_object)
  then have gf0: "\<not> bitmap_test fd_bm g m" using f(3) by (simp add: g_def)
  have img: "opened g q m1 Image = m1 Image" by (rule opened_fd(3))
  have gi: "get_inode (opened g q m1) i = get_inode m1 i" for i by (rule image_cong(2)) (rule img)
  have wb: "bitmap_test whole_bm j (opened g q m1) = bitmap_test whole_bm j m1" for j by (rule image_bits) (rule img)
  then have "free_blocks (opened g q m1) = free_blocks m1" by (simp add: free_blocks_def)
  then have fr: "free_blocks m \<le> Suc (free_blocks (opened g q m1))" using create_blocks_free [OF c(3)] by simp
  have s1: "fs_step h m m1" by (rule step_create [OF ct nul disjI1 [OF refl] poss c(1)])
  have "\<not> is_dir m1 i" if "resolve m1 0 tokens = Some i" for i using that r nd by simp
  then have s2: "fs_step h m1 (opened g q m1)" by (rule step_open [OF ct nul _ o])
  have oth: "get_inode (opened g q m1) i = get_inode m i" if "i < 256" "i \<noteq> p" "i \<noteq> q" for i
    using c(3) that unfolding gi create_blocks_def Let_def by blast
  have gn: "get_inode (opened g q m1) q = new_inode FS_REGULAR q" using gi new(1) by simp
  have gf: "get_fd (opened g q m1) g = \<lparr>inodeNum = of_nat q, usage = 1, locate_order = 0, locate_offset = 0\<rparr>"
    and gt: "bitmap_test fd_bm g (opened g q m1)" using opened_fd(1) [OF g] opened_fd(2) by simp_all
  show thesis by (rule that [OF c(1) o s1 s2 g gt E(8) new(2) gn gf fr oth c(2,3) refl gf0])
qed

lemma reach_trans: "reachable h m \<Longrightarrow> fs_step h m m1 \<Longrightarrow> fs_step h m1 m2 \<Longrightarrow> reachable h m2"
  by (blast intro: reach_step)

text \<open>A whole session on a new file.\<close>

lemma session:
  assumes re: "reachable h m" and ct: "checked_tokens path = Some (tokens, cnt)" and nul: "0 \<notin> set path"
    and poss: "create_possible m tokens p" and fd: "\<exists>f<256. \<not> bitmap_test fd_bm f m"
    and n: "0 < n" "n \<le> e * 1024" "e \<le> 518" "e + 1 < free_blocks m"
  shows "\<exists>f m1 m2 m3 m4 m5. fs_create (Some (the_fs h)) (Some path) FS_REGULAR m = Some (0, m1) \<and>
    fs_open (Some (the_fs h)) (Some path) m1 = Some (int f, m2) \<and>
    fs_write (Some (the_fs h)) (int f) (Some src) n m2 = Some (int n, m3) \<and>
    fs_seek (Some (the_fs h)) (int f) 0 FS_SEEK_SET m3 = (0, m4) \<and>
    fs_read (Some (the_fs h)) (int f) True n m4 = Some (int n, map src [0..<n], m5)"
proof -
  obtain q f m1 m2 where c: "fs_create (Some (the_fs h)) (Some path) FS_REGULAR m = Some (0, m1)"
    "fs_open (Some (the_fs h)) (Some path) m1 = Some (int f, m2)" "fs_step h m m1" "fs_step h m1 m2"
    "f < 256" "bitmap_test fd_bm f m2" "q < 256" "\<not> bitmap_test inode_bm q m" "get_inode m2 q = new_inode FS_REGULAR q"
    "get_fd m2 f = \<lparr>inodeNum = of_nat q, usage = 1, locate_order = 0, locate_offset = 0\<rparr>"
    "free_blocks m \<le> Suc (free_blocks m2)"
    by (rule create_open [OF reachable_inv [OF re] ct nul poss fd]) blast
  have "sys_inv h m2" by (rule reachable_inv [OF reach_trans [OF re c(3,4)]])
  then have "fs_inv m2" by (simp add: sys_inv_def)
  then have "file_ok (the_fs h) m2 q" using new_inode_ok(2) [OF c(9)] by (simp add: fs_inv_def)
  note nf = new_file_fits [OF c(10,7,9) n(2,3)]
  have free: "e < free_blocks m2" using n(4) c(11) by linarith
  have le: "e * 1024 \<le> 518 * 1024" using n(3) by (rule mult_le_mono1)
  have "unat (locate_order (get_fd m2 f)) = 0" "unat (locate_offset (get_fd m2 f)) = 0" by (simp_all add: c(10))
  with fs_write_seek_read [OF c(5,6), of n e h src] nf free n le \<open>file_ok (the_fs h) m2 q\<close> c(9)
  have "\<exists>m3 m4 m5. fs_write (Some (the_fs h)) (int f) (Some src) n m2 = Some (int n, m3) \<and>
    fs_seek (Some (the_fs h)) (int f) (int 0) FS_SEEK_SET m3 = (int 0, m4) \<and>
    fs_read (Some (the_fs h)) (int f) True n m4 = Some (int n, map src [0..<n], m5)" by simp
  then show ?thesis using c(1,2) by force
qed

section \<open>An example\<close>

lemma formatted_free: "free_blocks formatted = 65511"
proof -
  have "{j. j < 65528 \<and> \<not> bitmap_test whole_bm j formatted} = {17..<65528}" by (auto simp: formatted_simps)
  then show ?thesis by (simp add: free_blocks_def)
qed

text \<open>Two calls on a fresh image make \<^verbatim>\<open>/dd\<close> and \<^verbatim>\<open>/dd/x\<close>; \<^verbatim>\<open>/a\<close> can be made next.\<close>

lemma two_creations:
  obtains q m where "reachable 3 m" "create_possible m [str ''a''] 0" "\<exists>f<256. \<not> bitmap_test fd_bm f m"
    "65509 \<le> free_blocks m" "q < 256" "q \<noteq> 0" "bitmap_test inode_bm q m" "get_inode m q = new_inode FS_REGULAR q"
    "vacantFile (get_inode m 0) \<noteq> 0" "\<And>n. lookup m 0 n \<noteq> None \<Longrightarrow> n = str ''dd''"
proof -
  obtain q1 q2 q3 m1 m2 m where s: "create_possible formatted [str ''dd''] 0" "create_possible m1 [str ''dd'', str ''x''] q1"
    "create_possible m2 [str ''a''] 0" "fs_create (Some (the_fs 3)) (Some (str ''/dd'')) FS_DIRECTORY formatted = Some (0, m1)"
    "fs_create (Some (the_fs 3)) (Some (str ''/dd/x'')) FS_REGULAR m1 = Some (0, m2)"
    "fs_create (Some (the_fs 3)) (Some (str ''/a'')) FS_REGULAR m2 = Some (0, m)"
    and l: "\<And>n. lookup m 0 n = (if n = str ''a'' then Some q3 else if n = str ''dd'' then Some q1 else None)"
    by (rule sub_example) blast
  have s1: "fs_step 3 formatted m1" by (rule step_create [OF more_tokens(1,2) disjI2 [OF refl] s(1,4)])
  have s2: "fs_step 3 m1 m2" by (rule step_create [OF more_tokens(3,4) disjI1 [OF refl] s(2,5)])
  note re1 = reach_step [OF reachable_formatted s1]
  note re2 = reach_step [OF re1 s2]
  have i1: "fs_inv m1" "dense m1" and i2: "fs_inv m2" "dense m2" using reachable_inv [OF re1] reachable_inv [OF re2]
    by (simp_all add: sys_inv_def)
  have c1: "\<exists>q. create_effect formatted 0 (str ''dd'') FS_DIRECTORY q m1 \<and> create_blocks formatted 0 q m1"
    using fs_create_effect_blocks [OF formatted_inv more_tokens(1,2) disjI2 [OF refl] s(1), of 3] s(4) by auto
  obtain q where c2: "create_effect m1 q1 (str ''x'') FS_REGULAR q m2" "create_blocks m1 q1 q m2"
    using fs_create_effect_blocks [OF i1 more_tokens(3,4) disjI1 [OF refl] s(2), of 3] s(5) by auto
  obtain q' where c3: "create_effect m2 0 (str ''a'') FS_REGULAR q' m"
    using fs_create_effect_blocks [OF i2 example_tokens(1,2) disjI1 [OF refl] s(3), of 3] s(6) by auto
  note n2 = create_effect_next [OF c2(1) i1(1)]
  have r: "get_inode m2 q = new_inode FS_REGULAR q" using c2(1) by (simp add: create_effect_def)
  have "m2 FdBits = formatted FdBits" using c1 c2(1) by (auto simp: create_effect_def)
  then have "bitmap_test fd_bm 0 m2 = bitmap_test fd_bm 0 formatted" by (rule fd_test_object)
  then have fd: "\<exists>f<256. \<not> bitmap_test fd_bm f m2" using formatted_simps(5) [of 0] by (intro exI [of _ 0]) simp
  have "free_blocks formatted \<le> Suc (free_blocks m1)" using c1 create_blocks_free by blast
  moreover have "free_blocks m1 \<le> Suc (free_blocks m2)" using c2(2) by (rule create_blocks_free)
  ultimately have fr: "65509 \<le> free_blocks m2" by (simp add: formatted_free)
  have d0: "is_dir m2 0" and la: "lookup m2 0 (str ''a'') = None" using s(3) by (simp_all add: create_possible_def)
  have l2: "lookup m2 0 n = (if n = str ''dd'' then Some q1 else None)" for n
    using create_effect_next(5) [OF c3 i2(1) _ d0, of n] l [of n] la more_tokens(5) by (cases "n = str ''a''") simp_all
  have "vacantFile (get_inode m2 0) \<noteq> 0"
    using lookup_used [of m2 0 "str ''dd''" q1] l2 by (auto simp: dir_used_def)
  moreover have "lookup m2 0 n \<noteq> None \<Longrightarrow> n = str ''dd''" for n using l2 [of n] by (simp split: if_splits)
  ultimately show thesis using that [OF re2 s(3) fd fr n2(8,7,3) r] by blast
qed

text \<open>Two files in different directories, one of them open.\<close>

lemma two_files_example:
  obtains f q q2 m where "reachable 3 m" "f < 256" "bitmap_test fd_bm f m" "q < 256" "get_inode m q = new_inode FS_REGULAR q"
    "get_fd m f = \<lparr>inodeNum = of_nat q, usage = 1, locate_order = 0, locate_offset = 0\<rparr>"
    "q2 < 256" "is_reg m q2" "q2 \<noteq> q" "3 < free_blocks m"
proof -
  obtain q' m2 where s: "reachable 3 m2" "create_possible m2 [str ''a''] 0" "\<exists>f<256. \<not> bitmap_test fd_bm f m2"
    "65509 \<le> free_blocks m2" "q' < 256" "q' \<noteq> 0" "bitmap_test inode_bm q' m2" "get_inode m2 q' = new_inode FS_REGULAR q'"
    by (rule two_creations) blast
  obtain q f m3 m4 where "fs_create (Some (the_fs 3)) (Some (str ''/a'')) FS_REGULAR m2 = Some (0, m3)"
    "fs_open (Some (the_fs 3)) (Some (str ''/a'')) m3 = Some (int f, m4)" and c: "fs_step 3 m2 m3" "fs_step 3 m3 m4"
    "f < 256" "bitmap_test fd_bm f m4" "q < 256" "\<not> bitmap_test inode_bm q m2" "get_inode m4 q = new_inode FS_REGULAR q"
    "get_fd m4 f = \<lparr>inodeNum = of_nat q, usage = 1, locate_order = 0, locate_offset = 0\<rparr>"
    "free_blocks m2 \<le> Suc (free_blocks m4)" "\<And>i. i < 256 \<Longrightarrow> i \<noteq> 0 \<Longrightarrow> i \<noteq> q \<Longrightarrow> get_inode m4 i = get_inode m2 i"
    by (rule create_open [OF reachable_inv [OF s(1)] example_tokens(1,2) s(2,3)]) blast
  have "q' \<noteq> q" using c(6) s(7) by auto
  moreover have "is_reg m4 q'" using c(10) [OF s(5,6) \<open>q' \<noteq> q\<close>] s(8) by (simp add: is_reg_def)
  moreover have "3 < free_blocks m4" using s(4) c(9) by simp
  ultimately show thesis using that [OF reach_trans [OF s(1) c(1,2)] c(3-5,7,8) s(5)] by blast
qed

lemma new_file_write_fits:
  assumes "get_fd m f = \<lparr>inodeNum = of_nat q, usage = 1, locate_order = 0, locate_offset = 0\<rparr>" "q < 256"
    "get_inode m q = new_inode FS_REGULAR q" "3 < free_blocks m"
  shows "write_fits h m f 3"
  using new_file_fits(1-3) [OF assms(1-3), where n = 3 and e = 1]
    new_file_fits(4) [OF assms(1-3), where n = 3 and e = 1 and h = h] assms(4) by (simp add: write_fits_def Let_def)

end
