(* ===== verification/FS_Spec.thy ===== *)
theory FS_Spec
  imports FS_System
begin

text \<open>
  What the calls of the interface promise, without blocks, inodes and bit maps: a file system is a
  set of directories, each a partial function from names to file numbers, a set of files, each a
  partial function from positions to bytes with a size, and a table of open files with their
  positions. \<open>spec_step\<close> relates a call, its reply and the states before and after; \<open>FS_Refine\<close> shows
  that the C code implements it.
\<close>

section \<open>Executions and refinement\<close>

text \<open>A sequence of calls with their replies, over any step relation.\<close>

inductive exec :: "('s \<Rightarrow> 'c \<Rightarrow> 'r \<Rightarrow> 's \<Rightarrow> bool) \<Rightarrow> 's \<Rightarrow> ('c \<times> 'r) list \<Rightarrow> 's \<Rightarrow> bool" for step where
  exec_Nil: "exec step s [] s"
| exec_Cons: "step s c r s1 \<Longrightarrow> exec step s1 tr s' \<Longrightarrow> exec step s ((c, r) # tr) s'"

inductive_simps exec_simps: "exec step s [] s'" "exec step s ((c, r) # tr) s'"

lemma exec_append: "exec step s (tr @ tr') s' \<longleftrightarrow> (\<exists>s1. exec step s tr s1 \<and> exec step s1 tr' s')"
proof (induction tr arbitrary: s)
  case (Cons x tr)
  then show ?case by (cases x) (auto simp: exec_simps)
qed (simp add: exec_simps)

text \<open>
  An implementation with an invariant, a specification, and a function from the states of the one
  to those of the other that turns every step into a step with the same reply.
\<close>

locale refinement =
  fixes step :: "'s \<Rightarrow> 'c \<Rightarrow> 'r \<Rightarrow> 's \<Rightarrow> bool" and inv :: "'s \<Rightarrow> bool"
    and spec :: "'a \<Rightarrow> 'c \<Rightarrow> 'r \<Rightarrow> 'a \<Rightarrow> bool" and abstraction :: "'s \<Rightarrow> 'a"
  assumes step_inv: "inv s \<Longrightarrow> step s c r s' \<Longrightarrow> inv s'"
    and step_spec: "inv s \<Longrightarrow> step s c r s' \<Longrightarrow> spec (abstraction s) c r (abstraction s')"
begin

lemma exec_inv: "exec step s tr s' \<Longrightarrow> inv s \<Longrightarrow> inv s'"
  by (induction rule: exec.induct) (auto dest: step_inv)

lemma exec_spec: "exec step s tr s' \<Longrightarrow> inv s \<Longrightarrow> exec spec (abstraction s) tr (abstraction s')"
proof (induction rule: exec.induct)
  case (exec_Cons s c r s1 tr s')
  then show ?case using exec.exec_Cons [where step = spec, OF step_spec] step_inv by metis
qed (rule exec.exec_Nil)

text \<open>What holds in every state that the specification reaches holds of the implementation.\<close>

lemma exec_invariant:
  assumes "exec step s tr s'" and "inv s" and "P (abstraction s)"
    and "\<And>a c r a'. P a \<Longrightarrow> spec a c r a' \<Longrightarrow> P a'"
  shows "P (abstraction s')"
  using exec_spec [OF assms(1,2)] assms(3) by (induction rule: exec.induct) (auto dest: assms(4))

end

section \<open>States\<close>

record file_view =
  fbytes :: "nat \<Rightarrow> byte option"
  fsize :: nat

record spec_fs =
  dirs :: "nat \<Rightarrow> (cstring \<Rightarrow> nat option) option"
  files :: "nat \<Rightarrow> file_view option"
  opens :: "nat \<Rightarrow> (nat \<times> nat) option"

definition empty_file :: file_view where
  "empty_file = \<lparr>fbytes = Map.empty, fsize = 0\<rparr>"

text \<open>A formatted file system: the root directory, without entries.\<close>

definition empty_fs :: spec_fs where
  "empty_fs = \<lparr>dirs = [0 \<mapsto> Map.empty], files = Map.empty, opens = Map.empty\<rparr>"

fun spec_resolve :: "spec_fs \<Rightarrow> nat \<Rightarrow> cstring list \<Rightarrow> nat option" where
  "spec_resolve a i [] = Some i"
| "spec_resolve a i (name # rest) =
     (case dirs a i of None \<Rightarrow> None
      | Some entries \<Rightarrow> (case entries name of None \<Rightarrow> None | Some k \<Rightarrow> spec_resolve a k rest))"

text \<open>The directory that the last name of a path is looked up in, with its entries.\<close>

definition spec_dir :: "spec_fs \<Rightarrow> cstring list \<Rightarrow> (nat \<times> (cstring \<Rightarrow> nat option)) option" where
  "spec_dir a names = (case spec_resolve a 0 names of None \<Rightarrow> None | Some p \<Rightarrow> map_option (Pair p) (dirs a p))"

text \<open>The file number and position of a descriptor.\<close>

definition spec_handle :: "spec_fs \<Rightarrow> int \<Rightarrow> (nat \<times> nat) option" where
  "spec_handle a fd = (if fd < 0 \<or> 256 \<le> fd then None else opens a (nat fd))"

text \<open>What the code answers for a descriptor that is not one, or not open.\<close>

definition bad_handle :: "int \<Rightarrow> int" where
  "bad_handle fd = (if fd < 0 \<or> 256 \<le> fd then -1 else -2)"

section \<open>Calls\<close>

datatype fs_call =
    Create cstring file_t
  | Open cstring
  | Close int
  | Read int nat
  | Seek int int seek_t
  | Write int "nat \<Rightarrow> byte" nat
  | Remove cstring

datatype reply = Code int | Bytes int "byte list"

text \<open>The distance by which the code takes a position to lie before the real one, when it bounds a
  read or seeks from the current position (\<^verbatim>\<open>getPreviosOffset\<close>).\<close>

definition slack :: "nat \<Rightarrow> nat" where
  "slack pos = (if 1024 \<le> pos \<and> pos mod 1024 \<noteq> 0 then 1024 else 0)"

text \<open>A read returns the bytes from the position on, up to the number asked for, the size of the
  file and the first hole. Behind the end of the file the difference to the size wraps around, and
  the read is bounded by a hole alone.\<close>

definition spec_limit :: "file_view \<Rightarrow> nat \<Rightarrow> nat \<Rightarrow> nat" where
  "spec_limit v pos n = (let g = pos - slack pos in
     if n = 0 \<or> g + n \<le> fsize v then n else nat ((int (fsize v) - int g) mod 2 ^ 64))"

definition spec_read :: "file_view \<Rightarrow> nat \<Rightarrow> nat \<Rightarrow> byte list" where
  "spec_read v pos n = map (\<lambda>p. the (fbytes v p))
     (takeWhile (\<lambda>p. fbytes v p \<noteq> None) [pos..<pos + spec_limit v pos n])"

definition spec_target :: "file_view \<Rightarrow> nat \<Rightarrow> int \<Rightarrow> seek_t \<Rightarrow> int" where
  "spec_target v pos offset whence = max 0 (min (int (fsize v))
     (case whence of FS_SEEK_CUR \<Rightarrow> int (pos - slack pos) + offset
      | FS_SEEK_END \<Rightarrow> int (fsize v) + offset | _ \<Rightarrow> offset))"

text \<open>A write stores its bytes and keeps the others; new blocks are those that the range touches.\<close>

definition spec_wrote :: "file_view \<Rightarrow> nat \<Rightarrow> nat \<Rightarrow> (nat \<Rightarrow> byte) \<Rightarrow> file_view \<Rightarrow> bool" where
  "spec_wrote v pos n src v' \<longleftrightarrow> fsize v' = (fsize v + n) mod 2 ^ 64 \<and>
     (\<forall>k<n. fbytes v' (pos + k) = Some (src k)) \<and>
     (\<forall>p. \<not> (pos \<le> p \<and> p < pos + n) \<and> fbytes v p \<noteq> None \<longrightarrow> fbytes v' p = fbytes v p) \<and>
     (\<forall>p. fbytes v' p \<noteq> None \<longrightarrow> fbytes v p \<noteq> None \<or> (\<exists>p'. pos \<le> p' \<and> p' < pos + n \<and> p' div 1024 = p div 1024))"

text \<open>A number that nothing in the file system refers to.\<close>

definition unused :: "spec_fs \<Rightarrow> nat \<Rightarrow> bool" where
  "unused a q \<longleftrightarrow> dirs a q = None \<and> files a q = None \<and> (\<forall>d entries n. dirs a d = Some entries \<longrightarrow> entries n \<noteq> Some q) \<and>
     (\<forall>f pos. opens a f \<noteq> Some (q, pos))"

definition spec_made :: "spec_fs \<Rightarrow> file_t \<Rightarrow> nat \<Rightarrow> cstring \<Rightarrow> (cstring \<Rightarrow> nat option) \<Rightarrow> nat \<Rightarrow> spec_fs" where
  "spec_made a type p name entries q =
     (let a1 = a\<lparr>dirs := (dirs a)(p \<mapsto> entries(name \<mapsto> q))\<rparr> in
      if type = FS_DIRECTORY then a1\<lparr>dirs := (dirs a1)(q \<mapsto> Map.empty)\<rparr>
      else a1\<lparr>files := (files a1)(q \<mapsto> empty_file)\<rparr>)"

inductive spec_step :: "spec_fs \<Rightarrow> fs_call \<Rightarrow> reply \<Rightarrow> spec_fs \<Rightarrow> bool" where
  spec_create: "checked_tokens path = Some (tokens, cnt) \<Longrightarrow> spec_dir a (butlast tokens) = Some (p, entries) \<Longrightarrow>
    entries (last tokens) = None \<Longrightarrow> unused a q \<Longrightarrow> type = FS_REGULAR \<or> type = FS_DIRECTORY \<Longrightarrow>
    spec_step a (Create path type) (Code 0) (spec_made a type p (last tokens) entries q)"
| spec_create_refused: "(\<And>tokens cnt p entries. checked_tokens path = Some (tokens, cnt) \<Longrightarrow>
      spec_dir a (butlast tokens) = Some (p, entries) \<Longrightarrow>
      type = Other_type \<or> entries (last tokens) \<noteq> None \<or> 31 \<le> card (dom entries)) \<Longrightarrow>
    spec_step a (Create path type) (Code (-1)) a"
| spec_open: "checked_tokens path = Some (tokens, cnt) \<Longrightarrow> spec_resolve a 0 tokens = Some i \<Longrightarrow> files a i \<noteq> None \<Longrightarrow>
    f < 256 \<Longrightarrow> opens a f = None \<Longrightarrow> (\<And>g. g < f \<Longrightarrow> opens a g \<noteq> None) \<Longrightarrow>
    spec_step a (Open path) (Code (int f)) (a\<lparr>opens := (opens a)(f \<mapsto> (i, 0))\<rparr>)"
| spec_open_refused: "(\<And>tokens cnt. checked_tokens path = Some (tokens, cnt) \<Longrightarrow>
      spec_resolve a 0 tokens = None \<or> (\<forall>f<256. opens a f \<noteq> None)) \<Longrightarrow>
    spec_step a (Open path) (Code (-1)) a"
| spec_close: "spec_handle a fd \<noteq> None \<Longrightarrow>
    spec_step a (Close fd) (Code 0) (a\<lparr>opens := (opens a)(nat fd := None)\<rparr>)"
| spec_close_refused: "spec_handle a fd = None \<Longrightarrow> spec_step a (Close fd) (Code (-1)) a"
| spec_read: "spec_handle a fd = Some (i, pos) \<Longrightarrow> files a i = Some v \<Longrightarrow> bs = spec_read v pos n \<Longrightarrow>
    spec_step a (Read fd n) (Bytes (int (length bs)) bs) (a\<lparr>opens := (opens a)(nat fd \<mapsto> (i, pos + length bs))\<rparr>)"
| spec_read_refused: "spec_handle a fd = None \<Longrightarrow> spec_step a (Read fd n) (Bytes (bad_handle fd) []) a"
| spec_seek: "spec_handle a fd = Some (i, pos) \<Longrightarrow> files a i = Some v \<Longrightarrow> whence \<noteq> Other_whence \<Longrightarrow>
    t = spec_target v pos offset whence \<Longrightarrow>
    spec_step a (Seek fd offset whence) (Code t) (a\<lparr>opens := (opens a)(nat fd \<mapsto> (i, nat t))\<rparr>)"
| spec_seek_refused: "spec_handle a fd = None \<or> whence = Other_whence \<Longrightarrow>
    r = (if spec_handle a fd = None then bad_handle fd else -3) \<Longrightarrow> spec_step a (Seek fd offset whence) (Code r) a"
| spec_write: "spec_handle a fd = Some (i, pos) \<Longrightarrow> files a i = Some v \<Longrightarrow> spec_wrote v pos n src v' \<Longrightarrow>
    spec_step a (Write fd src n) (Code (int n))
      (a\<lparr>files := (files a)(i \<mapsto> v'), opens := (opens a)(nat fd \<mapsto> (i, pos + n))\<rparr>)"
| spec_write_refused: "spec_handle a fd = None \<Longrightarrow> spec_step a (Write fd src n) (Code (bad_handle fd)) a"
| spec_remove: "spec_dir a (strtok_all slash (c_dirname path)) = Some (p, entries) \<Longrightarrow>
    entries (c_basename path) = Some q \<Longrightarrow> files a q \<noteq> None \<Longrightarrow> (\<And>f pos. opens a f \<noteq> Some (q, pos)) \<Longrightarrow>
    spec_step a (Remove path) (Code 0)
      (a\<lparr>dirs := (dirs a)(p \<mapsto> entries(c_basename path := None)), files := (files a)(q := None)\<rparr>)"
| spec_remove_refused: "spec_dir a (strtok_all slash (c_dirname path)) = None \<Longrightarrow> spec_step a (Remove path) (Code (-4)) a"
| spec_remove_missing: "spec_dir a (strtok_all slash (c_dirname path)) = Some (p, entries) \<Longrightarrow>
    entries (c_basename path) = None \<Longrightarrow> spec_step a (Remove path) (Code (-5)) a"
| spec_remove_full: "spec_dir a (strtok_all slash (c_dirname path)) = Some (p, entries) \<Longrightarrow>
    entries (c_basename path) = Some q \<Longrightarrow> dirs a q = Some inner \<Longrightarrow> inner \<noteq> Map.empty \<Longrightarrow>
    spec_step a (Remove path) (Code (-8)) a"

inductive_cases spec_createE: "spec_step a (Create path type) r a'"
inductive_cases spec_openE: "spec_step a (Open path) r a'"
inductive_cases spec_closeE: "spec_step a (Close fd) r a'"
inductive_cases spec_readE: "spec_step a (Read fd n) r a'"
inductive_cases spec_seekE: "spec_step a (Seek fd offset whence) r a'"
inductive_cases spec_writeE: "spec_step a (Write fd src n) r a'"
inductive_cases spec_removeE: "spec_step a (Remove path) r a'"

lemma spec_read_0 [simp]: "spec_read v pos 0 = []"
  by (simp add: spec_read_def spec_limit_def Let_def)

lemmas spec_step_elims = spec_createE spec_openE spec_closeE spec_readE spec_seekE spec_writeE spec_removeE

section \<open>What follows from the specification alone\<close>

text \<open>A file number is never a directory, and every file and directory is reached from the root.\<close>

definition spec_live :: "spec_fs \<Rightarrow> bool" where
  "spec_live a \<longleftrightarrow> dirs a 0 \<noteq> None \<and> (\<forall>i. files a i \<noteq> None \<longrightarrow> dirs a i = None) \<and>
     (\<forall>i. files a i \<noteq> None \<or> dirs a i \<noteq> None \<longrightarrow> (\<exists>names. spec_resolve a 0 names = Some i))"

lemma spec_resolve_append:
  "spec_resolve a i (names @ rest) = (case spec_resolve a i names of None \<Rightarrow> None | Some k \<Rightarrow> spec_resolve a k rest)"
  by (induction a i names rule: spec_resolve.induct) (auto split: option.splits)

lemma spec_resolve_dirs: "dirs a' = dirs a \<Longrightarrow> spec_resolve a' i names = spec_resolve a i names"
  by (induction names arbitrary: i) (auto split: option.splits)

lemma spec_resolve_grows:
  assumes "\<And>d entries. dirs a d = Some entries \<Longrightarrow> \<exists>entries'. dirs a' d = Some entries' \<and> entries \<subseteq>\<^sub>m entries'"
  shows "spec_resolve a i names = Some k \<Longrightarrow> spec_resolve a' i names = Some k"
proof (induction names arbitrary: i)
  case (Cons name rest)
  then obtain entries j where e: "dirs a i = Some entries" "entries name = Some j" "spec_resolve a j rest = Some k"
    by (auto split: option.splits)
  obtain entries' where "dirs a' i = Some entries'" "entries \<subseteq>\<^sub>m entries'" using assms [OF e(1)] by blast
  moreover from this have "entries' name = Some j" using e(2) by (metis domI map_le_def)
  ultimately show ?case using Cons.IH [OF e(3)] by simp
qed simp

text \<open>A new entry keeps every path, and leads to the new number.\<close>

lemma spec_made_live:
  assumes live: "spec_live a" and p: "spec_dir a names = Some (p, entries)" "entries name = None" and q: "unused a q"
  shows "spec_live (spec_made a type p name entries q)"
proof -
  let ?b = "spec_made a type p name entries q"
  have pd: "spec_resolve a 0 names = Some p" "dirs a p = Some entries"
    using p(1) by (auto simp: spec_dir_def split: option.splits)
  have qn: "dirs a q = None" "files a q = None" using q by (simp_all add: unused_def)
  have pq: "p \<noteq> q" using pd(2) qn(1) by auto
  have dirs: "dirs ?b d = (if d = q \<and> type = FS_DIRECTORY then Some Map.empty
      else if d = p then Some (entries(name \<mapsto> q)) else dirs a d)" for d
    using pq by (simp add: spec_made_def Let_def)
  have files: "files ?b i = (if i = q \<and> type \<noteq> FS_DIRECTORY then Some empty_file else files a i)" for i
    by (simp add: spec_made_def Let_def)
  have "\<exists>es'. dirs ?b d = Some es' \<and> es \<subseteq>\<^sub>m es'" if "dirs a d = Some es" for d es
    using that pd(2) p(2) qn(1) unfolding dirs by (auto simp: map_le_def)
  then have grow: "spec_resolve a 0 ns = Some i \<Longrightarrow> spec_resolve ?b 0 ns = Some i" for ns i by (rule spec_resolve_grows)
  have "spec_resolve ?b 0 (names @ [name]) = Some q" using grow [OF pd(1)] pq by (simp add: spec_resolve_append dirs)
  moreover have "\<exists>ns. spec_resolve ?b 0 ns = Some i" if "files a i \<noteq> None \<or> dirs a i \<noteq> None" for i
    using live that grow unfolding spec_live_def by blast
  ultimately have "\<exists>ns. spec_resolve ?b 0 ns = Some i" if "files ?b i \<noteq> None \<or> dirs ?b i \<noteq> None" for i
    using that pd(2) by (auto simp: files dirs split: if_splits)
  then show ?thesis using live pq pd(2) qn unfolding spec_live_def by (auto simp: dirs files)
qed

text \<open>No path goes through a file, so the others keep theirs when a file is taken out.\<close>

lemma spec_removed_resolve:
  assumes p: "dirs a p = Some entries" "entries name = Some q" and q: "dirs a q = None"
    and b: "dirs b = (dirs a)(p \<mapsto> entries(name := None))"
  shows "spec_resolve a i names = Some k \<Longrightarrow> k \<noteq> q \<Longrightarrow> spec_resolve b i names = Some k"
proof (induction names arbitrary: i)
  case (Cons n rest)
  then obtain es j where e: "dirs a i = Some es" "es n = Some j" "spec_resolve a j rest = Some k" by (auto split: option.splits)
  have "j \<noteq> q" using e(3) q Cons.prems(2) by (cases rest) auto
  then have "\<exists>es'. dirs b i = Some es' \<and> es' n = Some j" using e p b by auto
  then show ?case using Cons.IH [OF e(3) Cons.prems(2)] by auto
qed simp

lemma spec_removed_live:
  assumes live: "spec_live a" and p: "dirs a p = Some entries" "entries name = Some q" and q: "files a q \<noteq> None"
  shows "spec_live (a\<lparr>dirs := (dirs a)(p \<mapsto> entries(name := None)), files := (files a)(q := None)\<rparr>)" (is "spec_live ?b")
proof -
  have nd: "dirs a q = None" using live q by (auto simp: spec_live_def)
  have "\<exists>ns. spec_resolve ?b 0 ns = Some i" if i: "files ?b i \<noteq> None \<or> dirs ?b i \<noteq> None" for i
  proof -
    have iq: "i \<noteq> q" using i nd p(1) by (auto split: if_splits)
    have "files a i \<noteq> None \<or> dirs a i \<noteq> None" using i p(1) by (auto split: if_splits)
    then obtain ns where "spec_resolve a 0 ns = Some i" using live by (auto simp: spec_live_def)
    then show ?thesis using spec_removed_resolve [OF p nd, of ?b] iq by auto
  qed
  then show ?thesis using live p(1) unfolding spec_live_def by (auto split: if_splits)
qed

lemma spec_live_same:
  assumes "spec_live a" and "dirs a' = dirs a" and "\<And>i. files a' i \<noteq> None \<longleftrightarrow> files a i \<noteq> None"
  shows "spec_live a'"
  using assms spec_resolve_dirs [OF assms(2)] unfolding spec_live_def by simp

lemma spec_step_live:
  assumes "spec_step a c r a'" and "spec_live a"
  shows "spec_live a'"
  using assms
proof cases
  case (spec_create path tokens cnt p entries q type)
  then show ?thesis using spec_made_live assms(2) by simp
next
  case (spec_remove path p entries q)
  then have "dirs a p = Some entries" by (auto simp: spec_dir_def split: option.splits)
  then show ?thesis using spec_removed_live [OF assms(2)] spec_remove by simp
next
  case (spec_write fd i pos v n src v')
  then show ?thesis by (intro spec_live_same [OF assms(2)]) auto
qed (auto intro: spec_live_same [OF assms(2)])

lemma empty_fs_live: "spec_live empty_fs"
proof -
  have "spec_resolve empty_fs 0 [] = Some 0" by simp
  then show ?thesis unfolding spec_live_def by (auto simp: empty_fs_def intro: exI [of _ "[]"] split: if_splits)
qed

text \<open>A file changes only by a write through a descriptor of its own and by its removal.\<close>

definition spec_affects :: "spec_fs \<Rightarrow> fs_call \<Rightarrow> nat \<Rightarrow> bool" where
  "spec_affects a c i \<longleftrightarrow> (case c of
      Write fd src n \<Rightarrow> \<exists>pos. spec_handle a fd = Some (i, pos)
    | Remove path \<Rightarrow> \<exists>p entries. spec_dir a (strtok_all slash (c_dirname path)) = Some (p, entries) \<and> entries (c_basename path) = Some i
    | _ \<Rightarrow> False)"

lemma spec_step_frame:
  assumes "spec_step a c r a'" and "files a i = Some v" and "\<not> spec_affects a c i"
  shows "files a' i = Some v"
  using assms by cases (auto simp: spec_affects_def spec_made_def unused_def Let_def)

end
