(* ===== verification/FS_Lifecycle.thy ===== *)
theory FS_Lifecycle
  imports FS_System
begin

text \<open>
  The life of a file, over the lemmas of the single operations: created, opened, written, closed and
  removed again, it leaves the three bit maps and every directory as they were.
\<close>

section \<open>The two ways to take a path apart\<close>

text \<open>\<^verbatim>\<open>fs_create\<close> splits the whole path with \<^verbatim>\<open>str_split\<close>; \<^verbatim>\<open>fs_remove\<close> takes \<^verbatim>\<open>dirname\<close> and \<^verbatim>\<open>basename\<close>.\<close>

lemma checked_parts:
  assumes ct: "checked_tokens path = Some (tokens, cnt)" and nul: "0 \<notin> set path"
  shows "isValidPath (Some path)" "strtok_all slash (c_dirname path) = butlast tokens" "c_basename path = last tokens"
proof -
  note t = checked_tokens_Some [OF ct]
  have sp: "path \<noteq> []" "hd path = slash" "cnt = length (filter (\<lambda>c. c = slash) path)"
    using ct by (auto simp: checked_tokens_def path_safe_def str_split_def Let_def split: if_splits)
  have "last path \<noteq> slash"
  proof
    assume "last path = slash"
    then obtain u where u: "path = u @ [slash]" using sp(1) by (metis append_butlast_last_id)
    have "strtok_all slash path = strtok_all slash u"
      using strtok_all_append [of slash u "[]"] by (simp add: u)
    then have "cnt \<le> length (filter (\<lambda>c. c = slash) u) + (if u = [] \<or> hd u = slash then 0 else 1)"
      using strtok_all_length [of slash u] t(1,2) by simp
    moreover have "u = [] \<or> hd u = slash" using sp(2) u by (cases u) auto
    ultimately show False using sp(3) by (simp add: u)
  qed
  with sp show v: "isValidPath (Some path)" by (simp add: isValidPath_def)
  note p = tokens_dirname_basename [OF v]
  show "strtok_all slash (c_dirname path) = butlast tokens" "c_basename path = last tokens"
    unfolding t(1) p by simp_all
qed

section \<open>Closing\<close>

text \<open>What depends on the image only.\<close>

lemma same_image:
  fixes m m' :: mem
  assumes img: "m' Image = m Image"
  shows "same_dirs m m'" "get_inode m' i = get_inode m i" "own_blocks h m' i = own_blocks h m i"
    "bitmap_test whole_bm j m' = bitmap_test whole_bm j m" "bitmap_test inode_bm j m' = bitmap_test inode_bm j m"
proof -
  show "same_dirs m m'" by (rule same_dirs_image) (rule img)
  show gi: "get_inode m' i = get_inode m i" by (rule image_cong(2)) (rule img)
  have rp: "read_ptrs (the_fs h) t m' = read_ptrs (the_fs h) t m" for t by (rule image_cong(3)) (rule img)
  show "own_blocks h m' i = own_blocks h m i" by (simp add: own_blocks_def gi map_of_file_def indirect_ptrs_def rp)
  show "bitmap_test whole_bm j m' = bitmap_test whole_bm j m" "bitmap_test inode_bm j m' = bitmap_test inode_bm j m"
    by (rule image_bits, rule img)+
qed

lemma close_file:
  assumes "sys_inv h m" and "f < 256" and "bitmap_test fd_bm f m"
  obtains m' where "fs_close (Some (the_fs h)) (int f) m = (0, m')" "sys_inv h m'" "m' Image = m Image"
    "\<And>g. bitmap_test fd_bm g m' \<longleftrightarrow> g \<noteq> f \<and> bitmap_test fd_bm g m"
proof -
  have cl: "fs_close (Some (the_fs h)) (int f) m = (0, bitmap_reset fd_bm f m)"
    using fs_close_cases(1) [OF assms(3,2)] .
  have img: "bitmap_reset fd_bm f m Image = m Image" by (rule image_fd)
  show thesis by (rule that [OF cl fs_close_inv [OF assms(1) cl] img]) (rule bitmap_test_reset)
qed

section \<open>The life of a file\<close>

lemma same_dirs_trans:
  assumes "same_dirs m m1" and "same_dirs m1 m2"
  shows "same_dirs m m2"
  using assms unfolding same_dirs_def by simp

lemma created_block_known:
  assumes inv: "fs_inv m" and p: "p < 256" "is_dir m p" "vacantFile (get_inode m p) \<noteq> 0" and cb: "create_blocks m p q m'"
    and j: "j < 65528"
  shows "bitmap_test whole_bm j m' \<longleftrightarrow> bitmap_test whole_bm j m"
proof -
  have "bitmap_test whole_bm (direct0 (get_inode m p)) m" using inv p by (auto simp: fs_inv_def dir_blocks_ok_def)
  then show ?thesis using cb p(3) j by (auto simp: create_blocks_def Let_def)
qed

lemma remove_new_file:
  assumes inv: "sys_inv h m" and p: "p < 256" "is_dir m p" and ct: "checked_tokens path = Some (tokens, cnt)" and nul: "0 \<notin> set path"
    and r: "resolve m 0 (butlast tokens) = Some p" and l: "lookup m p (last tokens) = Some q"
    and pre: "\<And>n. lookup m p n \<noteq> None \<Longrightarrow> take (length (last tokens)) n = last tokens \<Longrightarrow> n = last tokens"
    and q: "q < 256" "q \<noteq> 0" "is_reg m q" "linkCount (get_inode m q) = 1"
  shows "\<exists>m'. fs_remove (Some (the_fs h)) (Some path) m = (0, m') \<and> removed_file m h p q (last tokens) m' \<and>
    file_blocks h m (get_inode m q) = own_blocks h m q"
proof -
  note parts = checked_parts [OF ct nul]
  have n: "names_file m path p q"
    using parts nul valid_last(3) [OF ct nul] r p(2) l q(2) by (simp add: names_file_def)
  have fs: "fs_inv m" and fo: "file_ok (the_fs h) m q" "no_dir_blocks m (own_blocks h m q)" "bitmap_test inode_bm q m"
    "doubleIndirectPointer (get_inode m q) = 0"
    using inv q by (simp_all add: sys_inv_def files_ok_def)
  note own = file_blocks_own [OF inode_wf_get fo(4), of h]
  have ok: "dir_ok m p" using fs p by (simp add: fs_inv_def dirs_ok_def)
  have "own_blocks h m q \<subseteq> {..<65528}" using own_blocks_file_ok(2) [OF fo(1)] by blast
  moreover have "entry_name (dir_block m p) j = last tokens"
    if "dir_used m p j" "take (length (last tokens)) (entry_name (dir_block m p) j) = last tokens" for j
    using pre used_lookup [OF ok that(1)] that(2) by simp
  ultimately show ?thesis
    using fs_remove_single [OF fs n q(3) [unfolded is_reg_def], of h] fo own q(4) parts(3) by simp
qed

lemma write_new_file:
  assumes inv: "sys_inv h m" and f: "f < 256" "bitmap_test fd_bm f m" and q: "q < 256" "get_inode m q = new_inode FS_REGULAR q"
    and fd: "get_fd m f = \<lparr>inodeNum = of_nat q, usage = 1, locate_order = 0, locate_offset = 0\<rparr>"
    and n: "0 < n" "n \<le> e * 1024" "e \<le> 518" "e < free_blocks m"
  obtains m' where "fs_write (Some (the_fs h)) (int f) (Some src) n m = Some (int n, m')" "write_owned h m q m'"
    "sys_inv h m'" "same_dirs m m'" "is_reg m' q" "linkCount (get_inode m' q) = 1"
    "\<And>j. j < 65528 \<Longrightarrow> bitmap_test whole_bm j m' \<and> j \<notin> own_blocks h m' q \<longleftrightarrow> bitmap_test whole_bm j m"
proof -
  define e' where "e' = (n + 1023) div 1024"
  have e': "n \<le> e' * 1024" "e' \<le> e" unfolding e'_def using n(2) by linarith+
  then have bounds: "e' \<le> 518" "e' < free_blocks m" using n(3,4) by linarith+
  note nf = new_file_fits(1-3) [OF fd q e'(1) bounds] new_file_fits(4) [OF fd q e'(1) bounds, of h]
  have fits: "write_fits h m f n" using nf bounds(1) by (simp add: write_fits_def Let_def e'_def)
  have reg: "is_reg m q" by (simp add: is_reg_def q(2))
  have ok: "file_ok (the_fs h) m q" using inv q(1) reg by (simp add: sys_inv_def files_ok_def)
  obtain m' where w: "fs_write (Some (the_fs h)) (int f) (Some src) n m = Some (int n, m')" "write_owned h m q m'"
    using fs_write_owns [OF f nf(3) [symmetric] nf(1) n(1) fits ok, of src] by blast
  note W = write_ownedD [OF w(2)]
  have "own_blocks h m q = {}" using new_inode_ok(1) [OF q(2)] inv by (simp add: sys_inv_def fs_inv_def)
  then have bits: "bitmap_test whole_bm j m' \<and> j \<notin> own_blocks h m' q \<longleftrightarrow> bitmap_test whole_bm j m" if "j < 65528" for j
    using W(8) [of j] W(11) [OF that] by blast
  have "is_reg m' q" "linkCount (get_inode m' q) = 1" using reg W(2,12) q(2) by (simp_all add: is_reg_def)
  then show thesis
    using that [OF w write_owned_inv [OF inv q(1) reg w(2)] write_owned_same_dirs(1) [OF inv q(1) reg w(2)]] bits by blast
qed

text \<open>Created, opened, written and closed: what the state is then.\<close>

lemma file_made:
  assumes re: "reachable h m" and ct: "checked_tokens path = Some (tokens, cnt)" and nul: "0 \<notin> set path"
    and poss: "create_possible m tokens p" and v0: "vacantFile (get_inode m p) \<noteq> 0"
    and fd: "\<exists>f<256. \<not> bitmap_test fd_bm f m"
    and n: "0 < n" "n \<le> e * 1024" "e \<le> 518" "e + 1 < free_blocks m"
  obtains q f m1 m2 m3 m4 where "fs_create (Some (the_fs h)) (Some path) FS_REGULAR m = Some (0, m1)"
    "fs_open (Some (the_fs h)) (Some path) m1 = Some (int f, m2)"
    "fs_write (Some (the_fs h)) (int f) (Some src) n m2 = Some (int n, m3)"
    "fs_close (Some (the_fs h)) (int f) m3 = (0, m4)" "sys_inv h m4" "q < 256" "q \<noteq> 0" "is_reg m4 q"
    "linkCount (get_inode m4 q) = 1" "create_effect m p (last tokens) FS_REGULAR q m1" "same_dirs m1 m4"
    "\<And>j. j < 65528 \<Longrightarrow> bitmap_test whole_bm j m4 \<and> j \<notin> own_blocks h m4 q \<longleftrightarrow> bitmap_test whole_bm j m"
    "\<And>i. i < 256 \<Longrightarrow> bitmap_test inode_bm i m4 \<longleftrightarrow> i = q \<or> bitmap_test inode_bm i m"
    "\<And>g. bitmap_test fd_bm g m4 = bitmap_test fd_bm g m"
proof -
  have inv: "sys_inv h m" by (rule reachable_inv [OF re])
  then have fs: "fs_inv m" by (simp add: sys_inv_def)
  have p: "resolve m 0 (butlast tokens) = Some p" "is_dir m p" using poss by (simp_all add: create_possible_def)
  have p256: "p < 256" using resolve_bound [OF _ p(1)] by simp
  obtain q f m1 m2 where c: "fs_create (Some (the_fs h)) (Some path) FS_REGULAR m = Some (0, m1)"
    "fs_open (Some (the_fs h)) (Some path) m1 = Some (int f, m2)" "fs_step h m m1" "fs_step h m1 m2"
    "f < 256" "bitmap_test fd_bm f m2" "q < 256" "\<not> bitmap_test inode_bm q m" "get_inode m2 q = new_inode FS_REGULAR q"
    "get_fd m2 f = \<lparr>inodeNum = of_nat q, usage = 1, locate_order = 0, locate_offset = 0\<rparr>"
    "free_blocks m \<le> Suc (free_blocks m2)" "create_effect m p (last tokens) FS_REGULAR q m1" "create_blocks m p q m1"
    "m2 = opened f q m1" "\<not> bitmap_test fd_bm f m"
    by (rule create_open [OF inv ct nul poss fd]) blast
  have inv2: "sys_inv h m2" by (rule reachable_inv [OF reach_trans [OF re c(3,4)]])
  have e: "e < free_blocks m2" using n(4) c(11) by linarith
  obtain m3 where w: "fs_write (Some (the_fs h)) (int f) (Some src) n m2 = Some (int n, m3)" "write_owned h m2 q m3"
    "sys_inv h m3" "same_dirs m2 m3" "is_reg m3 q" "linkCount (get_inode m3 q) = 1"
    "\<And>j. j < 65528 \<Longrightarrow> bitmap_test whole_bm j m3 \<and> j \<notin> own_blocks h m3 q \<longleftrightarrow> bitmap_test whole_bm j m2"
    using write_new_file [OF inv2 c(5,6,7,9,10) n(1-3) e, of src] by blast
  note W = write_ownedD [OF w(2)]
  have "bitmap_test fd_bm f m3" using W(9) c(6) by simp
  then obtain m4 where cl: "fs_close (Some (the_fs h)) (int f) m3 = (0, m4)" "sys_inv h m4"
    and img4: "m4 Image = m3 Image" and fd4: "\<And>g. bitmap_test fd_bm g m4 \<longleftrightarrow> g \<noteq> f \<and> bitmap_test fd_bm g m3"
    using close_file [OF w(3) c(5)] by blast
  have img2: "m2 Image = m1 Image" unfolding c(14) by (rule opened_fd(3))
  have i2: "same_dirs m1 m2" "bitmap_test whole_bm j m2 = bitmap_test whole_bm j m1"
    "bitmap_test inode_bm j m2 = bitmap_test inode_bm j m1" for j
    by (rule same_image, rule img2)+
  have i4: "same_dirs m3 m4" "get_inode m4 i = get_inode m3 i" "own_blocks h m4 i = own_blocks h m3 i"
    "bitmap_test whole_bm j m4 = bitmap_test whole_bm j m3" "bitmap_test inode_bm j m4 = bitmap_test inode_bm j m3" for i j
    by (rule same_image, rule img4)+
  have same: "same_dirs m1 m4" by (rule same_dirs_trans [OF same_dirs_trans [OF i2(1) w(4)] i4(1)])
  have wb: "bitmap_test whole_bm j m4 \<and> j \<notin> own_blocks h m4 q \<longleftrightarrow> bitmap_test whole_bm j m" if j: "j < 65528" for j
    using w(7) [OF j] created_block_known [OF fs p256 p(2) v0 c(13) j] unfolding i2 i4 by simp
  have ib: "bitmap_test inode_bm i m4 \<longleftrightarrow> i = q \<or> bitmap_test inode_bm i m" if i: "i < 256" for i
    using W(5) [OF i] c(12) i unfolding i2 i4 by (simp add: create_effect_def)
  have "m1 FdBits = m FdBits" using c(12) by (simp add: create_effect_def)
  then have "bitmap_test fd_bm g m1 = bitmap_test fd_bm g m" for g by (rule fd_test_object)
  then have fb: "bitmap_test fd_bm g m4 = bitmap_test fd_bm g m" for g
    using W(9) [of g] c(15) unfolding fd4 c(14) opened_fd(2) by auto
  have r4: "is_reg m4 q" "linkCount (get_inode m4 q) = 1" using w(5,6) by (simp_all add: is_reg_def i4(2))
  show thesis
    by (rule that [OF c(1,2) w(1) cl c(7) create_effect_next(7) [OF c(12) fs] r4 c(12) same wb ib fb])
qed

lemma no_trace:
  assumes re: "reachable h m" and ct: "checked_tokens path = Some (tokens, cnt)" and nul: "0 \<notin> set path"
    and poss: "create_possible m tokens p" and v0: "vacantFile (get_inode m p) \<noteq> 0"
    and fd: "\<exists>f<256. \<not> bitmap_test fd_bm f m"
    and n: "0 < n" "n \<le> e * 1024" "e \<le> 518" "e + 1 < free_blocks m"
    and pre: "\<And>n. lookup m p n \<noteq> None \<Longrightarrow> take (length (last tokens)) n \<noteq> last tokens"
  shows "\<exists>f m1 m2 m3 m4 m5. fs_create (Some (the_fs h)) (Some path) FS_REGULAR m = Some (0, m1) \<and>
    fs_open (Some (the_fs h)) (Some path) m1 = Some (int f, m2) \<and>
    fs_write (Some (the_fs h)) (int f) (Some src) n m2 = Some (int n, m3) \<and>
    fs_close (Some (the_fs h)) (int f) m3 = (0, m4) \<and>
    fs_remove (Some (the_fs h)) (Some path) m4 = (0, m5) \<and>
    (\<forall>j<65528. bitmap_test whole_bm j m5 = bitmap_test whole_bm j m) \<and>
    (\<forall>i<256. bitmap_test inode_bm i m5 = bitmap_test inode_bm i m) \<and>
    (\<forall>g<256. bitmap_test fd_bm g m5 = bitmap_test fd_bm g m) \<and>
    (\<forall>d<256. is_dir m5 d = is_dir m d \<and> (is_dir m d \<longrightarrow> (\<forall>x. lookup m5 d x = lookup m d x)))"
proof -
  let ?name = "last tokens"
  have fs: "fs_inv m" using reachable_inv [OF re] by (simp add: sys_inv_def)
  have p: "resolve m 0 (butlast tokens) = Some p" "is_dir m p" "lookup m p ?name = None"
    using poss by (simp_all add: create_possible_def)
  have p256: "p < 256" using resolve_bound [OF _ p(1)] by simp
  obtain q f m1 m2 m3 m4 where c: "fs_create (Some (the_fs h)) (Some path) FS_REGULAR m = Some (0, m1)"
    "fs_open (Some (the_fs h)) (Some path) m1 = Some (int f, m2)"
    "fs_write (Some (the_fs h)) (int f) (Some src) n m2 = Some (int n, m3)"
    "fs_close (Some (the_fs h)) (int f) m3 = (0, m4)" "sys_inv h m4" "q < 256" "q \<noteq> 0" "is_reg m4 q"
    "linkCount (get_inode m4 q) = 1" "create_effect m p ?name FS_REGULAR q m1" "same_dirs m1 m4"
    and bits: "\<And>j. j < 65528 \<Longrightarrow> bitmap_test whole_bm j m4 \<and> j \<notin> own_blocks h m4 q \<longleftrightarrow> bitmap_test whole_bm j m"
    "\<And>i. i < 256 \<Longrightarrow> bitmap_test inode_bm i m4 \<longleftrightarrow> i = q \<or> bitmap_test inode_bm i m"
    "\<And>g. bitmap_test fd_bm g m4 = bitmap_test fd_bm g m"
    by (rule file_made [OF re ct nul poss v0 fd n]) blast
  note E = create_effect_next [OF c(10) fs] and S = same_dirsD(1,4) [OF c(11)]
  have uq: "\<not> bitmap_test inode_bm q m" using c(10) by (simp add: create_effect_def)
  have lk: "is_dir m4 d \<and> lookup m4 d x = (if d = p \<and> x = ?name then Some q else lookup m d x)" if "d < 256" "is_dir m d" for d x
    using E(5) [OF that] S [OF that(1)] by simp
  have rp: "resolve m4 0 (butlast tokens) = Some p"
    using same_dirs_resolve [OF c(11)] create_effect_resolve(1) [OF fs c(10) p256 p(2,3) _ p(1)] by simp
  have pre4: "x = ?name" if "lookup m4 p x \<noteq> None" "take (length ?name) x = ?name" for x
    using that pre [of x] lk [OF p256 p(2), of x] by (auto split: if_splits)
  have pd: "is_dir m4 p" and lq: "lookup m4 p ?name = Some q" using lk [OF p256 p(2), of ?name] by simp_all
  obtain m5 where rm: "fs_remove (Some (the_fs h)) (Some path) m4 = (0, m5)" "removed_file m4 h p q ?name m5"
    and own: "file_blocks h m4 (get_inode m4 q) = own_blocks h m4 q"
    using remove_new_file [OF c(5) p256 pd ct nul rp lq pre4 c(6-9)] by blast
  have R: "\<And>d. d < 256 \<Longrightarrow> is_dir m5 d \<longleftrightarrow> is_dir m4 d"
    "\<And>d x. d < 256 \<Longrightarrow> is_dir m4 d \<Longrightarrow> lookup m5 d x = (if d = p \<and> x = ?name then None else lookup m4 d x)"
    "\<And>i. i < 256 \<Longrightarrow> bitmap_test inode_bm i m5 \<longleftrightarrow> i \<noteq> q \<and> bitmap_test inode_bm i m4"
    "\<And>j. j < 65528 \<Longrightarrow> bitmap_test whole_bm j m5 \<longleftrightarrow> bitmap_test whole_bm j m4 \<and> j \<notin> own_blocks h m4 q"
    "m5 FdBits = m4 FdBits"
    using rm(2) unfolding removed_file_def own by simp_all
  have "bitmap_test whole_bm j m5 = bitmap_test whole_bm j m" if "j < 65528" for j using R(4) bits(1) that by simp
  moreover have "bitmap_test inode_bm i m5 = bitmap_test inode_bm i m" if "i < 256" for i using R(3) bits(2) uq that by auto
  moreover have "bitmap_test fd_bm g m5 = bitmap_test fd_bm g m4" for g using R(5) by (rule fd_test_object)
  then have "bitmap_test fd_bm g m5 = bitmap_test fd_bm g m" for g using bits(3) by simp
  moreover have "is_dir m5 d = is_dir m d" if d: "d < 256" for d
    using R(1) [OF d] S(1) [OF d] c(10) d E(4) fs uq by (cases "d = q") (auto simp: create_effect_def fs_inv_def)
  moreover have "lookup m5 d x = lookup m d x" if d: "d < 256" "is_dir m d" for d x
    using R(2) [OF d(1)] lk [OF d] p(3) by simp
  ultimately show ?thesis using c(1-4) rm(1) by blast
qed

end
