(* ===== verification/FS_Refine.thy ===== *)
theory FS_Refine
  imports FS_Spec FS_Lifecycle
begin

text \<open>
  The C code implements \<open>FS_Spec\<close>. \<open>spec_of\<close> forgets blocks, inodes and bit maps; \<open>run_call\<close> runs a call
  of the interface in the model of the code, \<open>call_ok\<close> says when the code keeps its own data
  consistent. Every such call is a step of the specification with the same reply.
\<close>

section \<open>The abstraction\<close>

definition view :: "int \<Rightarrow> mem \<Rightarrow> nat \<Rightarrow> file_view" where
  "view h m i = (let ino = get_inode m i in
     \<lparr>fbytes = (\<lambda>p. if file_block (the_fs h) ino m (p div 1024) = 0 then None else Some (file_byte (the_fs h) ino m p)),
      fsize = unat (fileSize ino)\<rparr>)"

definition spec_of :: "int \<Rightarrow> mem \<Rightarrow> spec_fs" where
  "spec_of h m =
     \<lparr>dirs = (\<lambda>d. if d < 256 \<and> is_dir m d then Some (lookup m d) else None),
      files = (\<lambda>i. if i < 256 \<and> is_reg m i then Some (view h m i) else None),
      opens = (\<lambda>f. if f < 256 \<and> bitmap_test fd_bm f m
                    then Some (unat (inodeNum (get_fd m f)), cursor_pos (get_fd m f)) else None)\<rparr>"

lemma view_simps:
  "fbytes (view h m i) p = (if file_block (the_fs h) (get_inode m i) m (p div 1024) = 0 then None
     else Some (file_byte (the_fs h) (get_inode m i) m p))"
  "fsize (view h m i) = unat (fileSize (get_inode m i))"
  by (simp_all add: view_def Let_def)

lemma spec_of_simps:
  "dirs (spec_of h m) d = (if d < 256 \<and> is_dir m d then Some (lookup m d) else None)"
  "files (spec_of h m) i = (if i < 256 \<and> is_reg m i then Some (view h m i) else None)"
  "opens (spec_of h m) f = (if f < 256 \<and> bitmap_test fd_bm f m
     then Some (unat (inodeNum (get_fd m f)), cursor_pos (get_fd m f)) else None)"
  by (simp_all add: spec_of_def)

lemma spec_fs_eqI:
  "dirs a = dirs b \<Longrightarrow> files a = files b \<Longrightarrow> opens a = opens b \<Longrightarrow> a = (b :: spec_fs)"
  by simp

lemma spec_resolve_of: "i < 256 \<Longrightarrow> spec_resolve (spec_of h m) i names = resolve m i names"
proof (induction names arbitrary: i)
  case (Cons name rest)
  then show ?case using lookup_inode_bound [of m i name] by (auto simp: spec_of_simps split: option.splits)
qed simp

lemma spec_dir_of:
  "spec_dir (spec_of h m) names = (case resolve m 0 names of None \<Rightarrow> None
     | Some p \<Rightarrow> if is_dir m p then Some (p, lookup m p) else None)"
  using resolve_bound [of 0 m names]
  by (auto simp: spec_dir_def spec_resolve_of spec_of_simps split: option.splits)

lemma spec_handle_of:
  "spec_handle (spec_of h m) fd = (if 0 \<le> fd \<and> fd < 256 \<and> bitmap_test fd_bm (nat fd) m
     then Some (unat (inodeNum (get_fd m (nat fd))), cursor_pos (get_fd m (nat fd))) else None)"
  by (auto simp: spec_handle_def spec_of_simps nat_less_iff)

lemma file_block_beyond:
  assumes "doubleIndirectPointer ino = 0" and "518 \<le> b"
  shows "file_block fs ino m b = 0"
  using assms by (simp add: file_block_def file_table_def)

lemma file_block_own:
  assumes "doubleIndirectPointer (get_inode m i) = 0" and "file_block (the_fs h) (get_inode m i) m b \<noteq> 0"
  shows "b < 518" and "file_block (the_fs h) (get_inode m i) m b \<in> own_blocks h m i"
proof -
  show b: "b < 518" using assms file_block_beyond [OF assms(1), of b] by (cases "b < 518") simp_all
  show "file_block (the_fs h) (get_inode m i) m b \<in> own_blocks h m i"
    using assms(2) b map_of_file_block [OF b, of "the_fs h" "get_inode m i" m] by (force simp: own_blocks_def)
qed

text \<open>The blocks of a file: with the inode and the blocks, the contents are the same.\<close>

lemma view_cong:
  assumes ok: "file_ok (the_fs h) m i" "doubleIndirectPointer (get_inode m i) = 0"
    and ino: "get_inode m' i = get_inode m i"
    and blk: "\<And>j. j \<in> own_blocks h m i \<Longrightarrow> get_block m' j = get_block m j"
  shows "view h m' i = view h m i"
proof -
  have "tables (get_inode m i) \<subseteq> {..65528}" using blocks_ok_tables ok(1) by (simp add: file_ok_def)
  then have M: "map_of_file (the_fs h) (get_inode m i) m' = map_of_file (the_fs h) (get_inode m i) m"
    by (intro map_of_file_cong) (use blk in \<open>auto simp: own_blocks_def\<close>)
  have b: "file_block (the_fs h) (get_inode m i) m' b = file_block (the_fs h) (get_inode m i) m b" for b
    using map_of_file_block [of b "the_fs h" "get_inode m i"] file_block_beyond [OF ok(2)] M
    by (cases "b < 518") (metis, simp)
  have "file_byte (the_fs h) (get_inode m i) m' p = file_byte (the_fs h) (get_inode m i) m p"
    if "file_block (the_fs h) (get_inode m i) m (p div 1024) \<noteq> 0" for p
    using blk [OF file_block_own(2) [OF ok(2) that]] by (simp add: file_byte_def b)
  then show ?thesis by (simp add: view_def ino b cong: if_cong)
qed

text \<open>With the same image, directories and files are the same.\<close>

lemma spec_of_image:
  fixes m m' :: mem
  assumes img: "m' Image = m Image"
  shows "dirs (spec_of h m') = dirs (spec_of h m)" "files (spec_of h m') = files (spec_of h m)"
proof -
  have gi: "get_inode m' i = get_inode m i" for i by (rule image_cong(2)) (rule img)
  have gb: "get_block m' j = get_block m j" for j by (rule image_cong(1)) (rule img)
  have fb: "file_block (the_fs h) ino m' b = file_block (the_fs h) ino m b" for ino b
    by (rule image_cong(4)) (rule img)
  have fy: "file_byte (the_fs h) ino m' p = file_byte (the_fs h) ino m p" for ino p
    by (rule image_cong(5)) (rule img)
  have "lookup m' d = lookup m d" for d by (simp add: fun_eq_iff lookup_def dir_block_def gi gb)
  then show "dirs (spec_of h m') = dirs (spec_of h m)" by (simp add: fun_eq_iff spec_of_simps is_dir_def gi)
  have "view h m' i = view h m i" for i by (simp add: view_def gi fb fy cong: if_cong)
  then show "files (spec_of h m') = files (spec_of h m)" by (simp add: fun_eq_iff spec_of_simps is_reg_def gi)
qed

section \<open>Reading and seeking\<close>

lemma lost_slack: "cursor_ok d \<Longrightarrow> lost d = slack (cursor_pos d)"
proof -
  assume ok: "cursor_ok d"
  have "locate_order d \<noteq> 0 \<longleftrightarrow> cursor_pos d div 1024 \<noteq> 0" "locate_offset d \<noteq> 0 \<longleftrightarrow> cursor_pos d mod 1024 \<noteq> 0"
    unfolding cursor_split [OF ok, symmetric] by (simp_all only: unat_eq_zero)
  moreover have "cursor_pos d div 1024 \<noteq> 0 \<longleftrightarrow> 1024 \<le> cursor_pos d" by (simp add: div_eq_0_iff not_less)
  ultimately have "locate_order d \<noteq> 0 \<and> locate_offset d \<noteq> 0 \<longleftrightarrow> 1024 \<le> cursor_pos d \<and> cursor_pos d mod 1024 \<noteq> 0" by blast
  then show ?thesis unfolding lost_def slack_def by (rule arg_cong)
qed

lemma clamp_spec_limit:
  assumes "pos - slack pos + n < 2 ^ 64" and "0 < n"
  shows "clamp_nbyte (fileSize (get_inode m i)) (int (pos - slack pos)) n = spec_limit (view h m i) pos n"
  using assms(2) by (simp add: clamp_nbyte_int [OF assms(1)] spec_limit_def view_simps Let_def)

text \<open>An open descriptor of a consistent state stands in a regular file.\<close>

lemma open_file:
  assumes inv: "sys_inv h m" and f: "f < 256" "bitmap_test fd_bm f m"
  defines "i \<equiv> unat (inodeNum (get_fd m f))"
  shows "i < 256" "is_reg m i" "cursor_ok (get_fd m f)" "file_ok (the_fs h) m i" "doubleIndirectPointer (get_inode m i) = 0"
    "spec_handle (spec_of h m) (int f) = Some (i, cursor_pos (get_fd m f))" "files (spec_of h m) i = Some (view h m i)"
proof -
  show i: "i < 256" unfolding i_def using unsigned_less [of "inodeNum (get_fd m f)", where 'a = nat] by simp
  show r: "is_reg m i" "cursor_ok (get_fd m f)" using inv f by (simp_all add: sys_inv_def fds_ok_def i_def)
  then show "file_ok (the_fs h) m i" "doubleIndirectPointer (get_inode m i) = 0"
    using inv i by (simp_all add: sys_inv_def files_ok_def)
  show "spec_handle (spec_of h m) (int f) = Some (i, cursor_pos (get_fd m f))" using f by (simp add: spec_handle_of i_def)
  show "files (spec_of h m) i = Some (view h m i)" using i r by (simp add: spec_of_simps)
qed

lemma first_hole:
  assumes ok: "file_ok (the_fs h) m i" "doubleIndirectPointer (get_inode m i) = 0" and c: "c < 65536"
  obtains e where "present (the_fs h) (get_inode m i) m c e" "file_block (the_fs h) (get_inode m i) m e = 0"
proof -
  let ?B = "file_block (the_fs h) (get_inode m i) m"
  define e where "e = (LEAST e. c \<le> e \<and> ?B e = 0)"
  have w: "c \<le> max c 518 \<and> ?B (max c 518) = 0" using file_block_beyond [OF ok(2)] by simp
  have e: "c \<le> e \<and> ?B e = 0" unfolding e_def by (rule LeastI) (rule w)
  have "e \<le> max c 518" unfolding e_def by (rule Least_le) (rule w)
  then have "e < 65536" using c by simp
  moreover have "?B b \<noteq> 0 \<and> ?B b \<le> 65528" if "c \<le> b" "b < e" for b
  proof -
    have nz: "?B b \<noteq> 0" using not_less_Least [of b "\<lambda>e. c \<le> e \<and> ?B e = 0"] that by (auto simp: e_def)
    then have "?B b < 65528" using own_blocks_file_ok(2) [OF ok(1)] file_block_own(2) [OF ok(2) nz] by blast
    with nz show ?thesis by simp
  qed
  ultimately show thesis using e by (intro that [of e]) (simp_all add: present_def)
qed

lemma spec_read_present:
  assumes pr: "present (the_fs h) (get_inode m i) m (pos div 1024) e" "file_block (the_fs h) (get_inode m i) m e = 0"
  shows "spec_read (view h m i) pos n =
    file_bytes (the_fs h) (get_inode m i) m pos (min (spec_limit (view h m i) pos n) (e * 1024 - pos))"
proof -
  let ?P = "\<lambda>p. fbytes (view h m i) p \<noteq> None" and ?k = "spec_limit (view h m i) pos n"
  have P: "?P p \<longleftrightarrow> file_block (the_fs h) (get_inode m i) m (p div 1024) \<noteq> 0" for p by (simp add: view_simps)
  have le: "pos div 1024 \<le> e" using pr(1) by (simp add: present_def)
  define b where "b = max pos (e * 1024)"
  have "pos div 1024 < e \<or> pos div 1024 = e" using le by linarith
  then have "b div 1024 = e"
  proof
    assume "pos div 1024 < e"
    then have "pos < e * 1024" by (simp add: div_less_iff_less_mult)
    then show ?thesis by (simp add: b_def)
  next
    assume eq: "pos div 1024 = e"
    then have "e * 1024 \<le> pos" using div_times_less_eq_dividend [of pos 1024] by simp
    then show ?thesis using eq by (simp add: b_def max_def)
  qed
  then have nb: "\<not> ?P b" unfolding P using pr(2) by simp
  have "?P p" if "pos \<le> p" "p < b" for p
  proof -
    have "p < e * 1024" using that by (simp add: b_def)
    then have "p div 1024 < e" by (simp add: div_less_iff_less_mult)
    moreover have "pos div 1024 \<le> p div 1024" using that(1) by (rule div_le_mono)
    ultimately show ?thesis using pr(1) unfolding P by (simp add: present_def)
  qed
  then have tw: "takeWhile ?P [pos..<pos + ?k] = [pos..<min (pos + ?k) b]"
    using nb by (intro takeWhile_upt) (simp_all add: b_def)
  have "min (pos + ?k) b = pos + min ?k (e * 1024 - pos)" by (auto simp: b_def min_def max_def)
  moreover have "the (fbytes (view h m i) p) = file_byte (the_fs h) (get_inode m i) m p"
    if "p \<in> set (takeWhile ?P [pos..<pos + ?k])" for p
    using set_takeWhileD [OF that] by (simp add: view_simps split: if_splits)
  then have "spec_read (view h m i) pos n = map (file_byte (the_fs h) (get_inode m i) m) (takeWhile ?P [pos..<pos + ?k])"
    unfolding spec_read_def by (rule map_cong [OF refl])
  ultimately show ?thesis unfolding tw file_bytes_def by simp
qed

lemma fs_read_spec:
  assumes inv: "sys_inv h m" and f: "f < 256" "bitmap_test fd_bm f m" and n: "0 < n" "n < 2 ^ 63"
  defines "i \<equiv> unat (inodeNum (get_fd m f))"
  defines "bs \<equiv> spec_read (view h m i) (cursor_pos (get_fd m f)) n"
  shows "\<exists>m'. fs_read (Some (the_fs h)) (int f) True n m = Some (int (length bs), bs, m') \<and> m' Image = m Image \<and>
    cursor_pos (get_fd m' f) = cursor_pos (get_fd m f) + length bs \<and> inodeNum (get_fd m' f) = inodeNum (get_fd m f) \<and>
    (\<forall>g. bitmap_test fd_bm g m' = bitmap_test fd_bm g m) \<and> (\<forall>g<256. g \<noteq> f \<longrightarrow> get_fd m' g = get_fd m g)"
proof -
  note o = open_file [OF inv f, folded i_def]
  let ?pos = "cursor_pos (get_fd m f)"
  have c: "unat (locate_order (get_fd m f)) = ?pos div 1024" by (rule cursor_split(1) [OF o(3)])
  then have "?pos div 1024 < 65536" using unsigned_less [of "locate_order (get_fd m f)", where 'a = nat] by simp
  then obtain e where e: "present (the_fs h) (get_inode m i) m (?pos div 1024) e" "file_block (the_fs h) (get_inode m i) m e = 0"
    by (rule first_hole [OF o(4,5)])
  have "?pos < 65536 * 1024" using \<open>?pos div 1024 < 65536\<close> by (simp add: div_less_iff_less_mult)
  then have "?pos - slack ?pos + n < 2 ^ 64" using n(2) by simp
  then have l: "clamp_nbyte (fileSize (get_inode m i)) (int (?pos - lost (get_fd m f))) n = spec_limit (view h m i) ?pos n"
    unfolding lost_slack [OF o(3)] using n(1) by (rule clamp_spec_limit)
  have st: "stops (the_fs h) (get_inode m i) m ?pos k e" for k using e(2) by (simp add: stops_def)
  have bs: "bs = file_bytes (the_fs h) (get_inode m i) m ?pos (min (spec_limit (view h m i) ?pos n) (e * 1024 - ?pos))"
    unfolding bs_def by (rule spec_read_present [OF e])
  show ?thesis
    using fs_read_clamped [OF f n(1) o(3), folded i_def, unfolded l c, OF e(1) st] unfolding bs length_file_bytes by blast
qed

section \<open>Calls\<close>

fun run_call :: "int \<Rightarrow> fs_call \<Rightarrow> mem \<Rightarrow> (reply \<times> mem) option" where
  "run_call h (Create path type) m = map_option (\<lambda>(r, m'). (Code r, m')) (fs_create (Some (the_fs h)) (Some path) type m)"
| "run_call h (Open path) m = map_option (\<lambda>(r, m'). (Code r, m')) (fs_open (Some (the_fs h)) (Some path) m)"
| "run_call h (Close fd) m = (case fs_close (Some (the_fs h)) fd m of (r, m') \<Rightarrow> Some (Code r, m'))"
| "run_call h (Read fd n) m = map_option (\<lambda>(r, bs, m'). (Bytes r bs, m')) (fs_read (Some (the_fs h)) fd True n m)"
| "run_call h (Seek fd offset whence) m =
     (case fs_seek (Some (the_fs h)) fd offset whence m of (r, m') \<Rightarrow> Some (Code r, m'))"
| "run_call h (Write fd src n) m = map_option (\<lambda>(r, m'). (Code r, m')) (fs_write (Some (the_fs h)) fd (Some src) n m)"
| "run_call h (Remove path) m = (case fs_remove (Some (the_fs h)) (Some path) m of (r, m') \<Rightarrow> Some (Code r, m'))"

definition fd_open :: "mem \<Rightarrow> int \<Rightarrow> bool" where
  "fd_open m fd \<longleftrightarrow> 0 \<le> fd \<and> fd < 256 \<and> bitmap_test fd_bm (nat fd) m"

fun call_ok :: "int \<Rightarrow> mem \<Rightarrow> fs_call \<Rightarrow> bool" where
  "call_ok h m (Create path type) \<longleftrightarrow> 0 \<notin> set path \<and>
     (case checked_tokens path of None \<Rightarrow> path_safe 65535 path
      | Some (tokens, cnt) \<Rightarrow> (case resolve m 0 (butlast tokens) of None \<Rightarrow> True
         | Some p \<Rightarrow> \<not> is_dir m p \<or> lookup m p (last tokens) \<noteq> None \<or> (\<forall>j<31. dir_used m p j) \<or>
             create_possible m tokens p))"
| "call_ok h m (Open path) \<longleftrightarrow> 0 \<notin> set path \<and>
     (case checked_tokens path of None \<Rightarrow> path_safe 65535 path
      | Some (tokens, cnt) \<Rightarrow> (case resolve m 0 tokens of None \<Rightarrow> True | Some i \<Rightarrow> \<not> is_dir m i))"
| "call_ok h m (Close fd) \<longleftrightarrow> True"
| "call_ok h m (Read fd n) \<longleftrightarrow> n < 2 ^ 63"
| "call_ok h m (Seek fd offset whence) \<longleftrightarrow> - (2 ^ 62) \<le> offset \<and> offset < 2 ^ 62 \<and>
     (fd_open m fd \<longrightarrow> unat (fileSize (get_inode m (unat (inodeNum (get_fd m (nat fd)))))) < 2 ^ 26)"
| "call_ok h m (Write fd src n) \<longleftrightarrow> fd_open m fd \<longrightarrow> 0 < n \<and> write_fits h m (nat fd) n"
| "call_ok h m (Remove path) \<longleftrightarrow> isValidPath (Some path) \<and> 0 \<notin> set path \<and> length (c_basename path) < 32 \<and>
     (case resolve m 0 (strtok_all slash (c_dirname path)) of None \<Rightarrow> True
      | Some p \<Rightarrow> \<not> is_dir m p \<or> (case lookup m p (c_basename path) of None \<Rightarrow> True
         | Some q \<Rightarrow> remove_safe m path p q \<or> (is_dir m q \<and> \<not> isDirectoryEmpty (get_inode m q))))"

definition call_step :: "int \<Rightarrow> mem \<Rightarrow> fs_call \<Rightarrow> reply \<Rightarrow> mem \<Rightarrow> bool" where
  "call_step h m c r m' \<longleftrightarrow> call_ok h m c \<and> run_call h c m = Some (r, m')"

lemma fd_openD: "fd_open m fd \<Longrightarrow> nat fd < 256 \<and> bitmap_test fd_bm (nat fd) m \<and> int (nat fd) = fd"
  by (auto simp: fd_open_def)

lemma handle_open: "spec_handle (spec_of h m) fd \<noteq> None \<longleftrightarrow> fd_open m fd"
  by (simp add: spec_handle_of fd_open_def)

lemma bad_fd:
  assumes "\<not> fd_open m fd"
  shows "fs_close (Some (the_fs h)) fd m = (-1, m)" "fs_read (Some (the_fs h)) fd True n m = Some (bad_handle fd, [], m)"
    "fs_seek (Some (the_fs h)) fd offset whence m = (bad_handle fd, m)"
    "fs_write (Some (the_fs h)) fd (Some src) n m = Some (bad_handle fd, m)"
proof -
  consider "fd < 0 \<or> 256 \<le> fd" | "0 \<le> fd" "fd < 256" "\<not> bitmap_test fd_bm (nat fd) m"
    using assms unfolding fd_open_def by (metis not_le)
  note c = this
  show "fs_close (Some (the_fs h)) fd m = (-1, m)"
    using c fs_close_cases(3) by cases (use fs_close_cases(2) [of "nat fd" m h] in auto)
  show "fs_read (Some (the_fs h)) fd True n m = Some (bad_handle fd, [], m)"
    "fs_seek (Some (the_fs h)) fd offset whence m = (bad_handle fd, m)"
    "fs_write (Some (the_fs h)) fd (Some src) n m = Some (bad_handle fd, m)"
    using c by (cases; auto simp: fs_read_def fs_seek_def fs_write_def bad_handle_def block_store_get_bm_def)+
qed

lemma spec_of_opens:
  fixes m m' :: mem
  assumes img: "m' Image = m Image" and "opens (spec_of h m') = x"
  shows "spec_of h m' = (spec_of h m)\<lparr>opens := x\<rparr>"
  by (rule spec_fs_eqI) (use spec_of_image [where h = h and m = m and m' = m', OF img] assms(2) in simp_all)

text \<open>A call that moves one descriptor and leaves the image alone.\<close>

lemma spec_of_moved:
  fixes m m' :: mem
  assumes img: "m' Image = m Image" and f: "f < 256" "bitmap_test fd_bm f m"
    and bits: "\<forall>g. bitmap_test fd_bm g m' = bitmap_test fd_bm g m" and oth: "\<forall>g<256. g \<noteq> f \<longrightarrow> get_fd m' g = get_fd m g"
  shows "spec_of h m' = (spec_of h m)\<lparr>opens := (opens (spec_of h m))
    (f \<mapsto> (unat (inodeNum (get_fd m' f)), cursor_pos (get_fd m' f)))\<rparr>"
  by (rule spec_of_opens [where m = m and m' = m', OF img])
    (use f bits oth in \<open>auto simp: fun_eq_iff spec_of_simps\<close>)

lemma close_refines:
  assumes "call_step h m (Close fd) r m'"
  shows "spec_step (spec_of h m) (Close fd) r (spec_of h m')"
proof (cases "fd_open m fd")
  case True
  note f = fd_openD [OF True]
  have run: "m' = bitmap_reset fd_bm (nat fd) m" "r = Code 0"
    using assms fs_close_cases(1) [of "nat fd" m h] f by (auto simp: call_step_def)
  have img: "m' Image = m Image" unfolding run by (rule image_fd)
  have "spec_of h m' = (spec_of h m)\<lparr>opens := (opens (spec_of h m))(nat fd := None)\<rparr>"
    by (rule spec_of_opens [where m = m and m' = m', OF img])
      (auto simp: fun_eq_iff spec_of_simps run(1) bitmap_test_reset get_fd_bits)
  then show ?thesis using spec_close [of "spec_of h m" fd] True handle_open run(2) by simp
next
  case False
  then have "m' = m" "r = Code (-1)" using assms bad_fd(1) [OF False] by (auto simp: call_step_def)
  then show ?thesis using spec_close_refused False handle_open by metis
qed

lemma read_refines:
  assumes inv: "sys_inv h m" and run: "call_step h m (Read fd n) r m'"
  shows "spec_step (spec_of h m) (Read fd n) r (spec_of h m')"
proof (cases "fd_open m fd")
  case True
  define f where "f = nat fd"
  note f = fd_openD [OF True, folded f_def]
  then have f': "f < 256" "bitmap_test fd_bm f m" by simp_all
  note o = open_file [OF inv f']
  let ?i = "unat (inodeNum (get_fd m f))" and ?pos = "cursor_pos (get_fd m f)"
  let ?bs = "spec_read (view h m ?i) ?pos n"
  have step: "spec_step (spec_of h m) (Read fd n) (Bytes (int (length ?bs)) ?bs)
      ((spec_of h m)\<lparr>opens := (opens (spec_of h m))(f \<mapsto> (?i, ?pos + length ?bs))\<rparr>)"
    unfolding f_def by (rule spec_read [OF _ o(7) [unfolded f_def] refl]) (use o(6) f in \<open>simp add: f_def\<close>)
  show ?thesis
  proof (cases "n = 0")
    case True
    have "m' = m" "r = Bytes 0 []" using run fs_read_none [OF f', of h] f True by (auto simp: call_step_def)
    moreover have "(spec_of h m)\<lparr>opens := (opens (spec_of h m))(f \<mapsto> (?i, ?pos))\<rparr> = spec_of h m"
      using f' by (intro spec_fs_eqI) (auto simp: fun_eq_iff spec_of_simps)
    ultimately show ?thesis using step True by simp
  next
    case False
    then have n: "0 < n" "n < 2 ^ 63" using run by (simp_all add: call_step_def)
    obtain m1 where m1: "fs_read (Some (the_fs h)) (int f) True n m = Some (int (length ?bs), ?bs, m1)" "m1 Image = m Image"
      "cursor_pos (get_fd m1 f) = ?pos + length ?bs" "inodeNum (get_fd m1 f) = inodeNum (get_fd m f)"
      "\<forall>g. bitmap_test fd_bm g m1 = bitmap_test fd_bm g m" "\<forall>g<256. g \<noteq> f \<longrightarrow> get_fd m1 g = get_fd m g"
      using fs_read_spec [OF inv f' n] by blast
    have "r = Bytes (int (length ?bs)) ?bs" "m' = m1" using run m1(1) f by (auto simp: call_step_def)
    then show ?thesis using step spec_of_moved [OF m1(2) f' m1(5,6), of h] m1(3,4) by simp
  qed
next
  case False
  then have "m' = m" "r = Bytes (bad_handle fd) []" using run bad_fd(2) [OF False] by (auto simp: call_step_def)
  then show ?thesis using spec_read_refused False handle_open by metis
qed

lemma seek_refines:
  assumes inv: "sys_inv h m" and run: "call_step h m (Seek fd offset whence) r m'"
  shows "spec_step (spec_of h m) (Seek fd offset whence) r (spec_of h m')"
proof (cases "fd_open m fd")
  case True
  define f where "f = nat fd"
  note f = fd_openD [OF True, folded f_def]
  then have f': "f < 256" "bitmap_test fd_bm f m" by simp_all
  note o = open_file [OF inv f']
  let ?i = "unat (inodeNum (get_fd m f))" and ?pos = "cursor_pos (get_fd m f)"
  have h: "spec_handle (spec_of h m) fd = Some (?i, ?pos)" using o(6) f by simp
  show ?thesis
  proof (cases "whence = Other_whence")
    case w: True
    have "fs_seek (Some (the_fs h)) fd offset whence m = (-3, m)"
      using True w by (simp add: fs_seek_def fd_open_def block_store_get_bm_def)
    then have "r = Code (-3)" "m' = m" using run by (simp_all add: call_step_def)
    then show ?thesis using spec_seek_refused [of "spec_of h m" fd whence] h w by simp
  next
    case w: False
    let ?v = "view h m ?i"
    define t where "t = spec_target ?v ?pos offset whence"
    have sz: "fsize ?v < 2 ^ 26" and off: "- (2 ^ 62) \<le> offset" "offset < 2 ^ 62"
      using run True by (simp_all add: call_step_def f_def view_simps)
    have pos: "?pos < 2 ^ 26"
      using o(3) unsigned_less [of "locate_order (get_fd m f)", where 'a = nat] by (simp add: cursor_ok_def cursor_pos_def)
    have "of_nat (fsize ?v) = fileSize (get_inode m ?i)" by (simp add: view_simps)
    then have s: "seek_offset whence (fileSize (get_inode m ?i)) (get_fd m f) offset = t"
      using seek_lands [OF pos sz off] w lost_slack [OF o(3)] by (cases whence) (simp_all add: t_def spec_target_def)
    have t: "0 \<le> t" "t < 2 ^ 26" using sz by (simp_all add: t_def spec_target_def min_def max_def)
    obtain m1 where m1: "fs_seek (Some (the_fs h)) (int f) offset whence m = (t, m1)" "m1 Image = m Image"
      "int (cursor_pos (get_fd m1 f)) = t" "inodeNum (get_fd m1 f) = inodeNum (get_fd m f)"
      "\<forall>g<256. g \<noteq> f \<longrightarrow> get_fd m1 g = get_fd m g" "\<forall>g. bitmap_test fd_bm g m1 = bitmap_test fd_bm g m"
      using fs_seek_moves [OF f' w, of offset h, unfolded s, OF t] by blast
    have "r = Code t" "m' = m1" using run m1(1) f by (auto simp: call_step_def)
    moreover have "cursor_pos (get_fd m1 f) = nat t" using m1(3) by simp
    ultimately show ?thesis
      using spec_seek [OF h o(7) w t_def] spec_of_moved [OF m1(2) f' m1(6,5), of h] m1(4) by (simp add: f_def)
  qed
next
  case False
  then have "m' = m" "r = Code (bad_handle fd)" using run bad_fd(3) [OF False] by (auto simp: call_step_def)
  moreover have "spec_handle (spec_of h m) fd = None" using False handle_open by metis
  ultimately show ?thesis using spec_seek_refused [of "spec_of h m" fd whence] by simp
qed

lemma open_refines:
  assumes inv: "sys_inv h m" and run: "call_step h m (Open path) r m'"
  shows "spec_step (spec_of h m) (Open path) r (spec_of h m')"
proof (cases "checked_tokens path")
  case None
  then have "fs_open (Some (the_fs h)) (Some path) m = Some (-1, m)" using run by (simp add: call_step_def fs_open_def)
  then have "r = Code (-1)" "m' = m" using run by (simp_all add: call_step_def)
  then show ?thesis using spec_open_refused [of path] None by simp
next
  case (Some tc)
  then obtain tokens cnt where ct: "checked_tokens path = Some (tokens, cnt)" by (cases tc) simp
  have nul: "0 \<notin> set path" using run by (simp add: call_step_def)
  have fs: "fs_inv m" using inv by (simp add: sys_inv_def)
  then have dok: "dirs_ok m" "is_dir m 0" by (simp_all add: fs_inv_def)
  note c = fs_open_cases [OF dok(1) ct nul, where h = h]
  let ?f = "bitmap_ffz (Some fd_bm) m" and ?a = "spec_of h m"
  have rs: "spec_resolve ?a 0 tokens = resolve m 0 tokens" by (rule spec_resolve_of) simp
  have opens: "opens ?a f \<noteq> None \<longleftrightarrow> f < 256 \<and> bitmap_test fd_bm f m" for f by (simp add: spec_of_simps)
  show ?thesis
  proof (cases "resolve m 0 tokens = None \<or> ?f = SIZE_MAX")
    case True
    then have "r = Code (-1)" "m' = m" using c(1,2) run by (cases "resolve m 0 tokens"; auto simp: call_step_def)+
    moreover have "resolve m 0 tokens = None \<or> (\<forall>f<256. bitmap_test fd_bm f m)"
      using True fds.ffz_full [of m] ffz_fd_free(1) [of m] by blast
    then have "spec_resolve ?a 0 tokens = None \<or> (\<forall>f<256. opens ?a f \<noteq> None)" unfolding rs opens by blast
    ultimately show ?thesis using spec_open_refused [of path ?a] ct by simp
  next
    case False
    then obtain i where i: "resolve m 0 tokens = Some i" by auto
    have nd: "\<not> is_dir m i" using run i ct by (simp add: call_step_def)
    have free: "\<exists>f<256. \<not> bitmap_test fd_bm f m" using False fds.ffz_found [of m] by blast
    note ff = ffz_fd_free [OF free]
    have m': "r = Code (int ?f)" "m' = opened ?f i m" using c(4) [OF i ff(1) nd] run by (simp_all add: call_step_def)
    have i256: "i < 256" using resolve_bound [OF _ i] by simp
    have reg: "is_reg m i" using resolve_names [OF _ dok(2) i] nd inv dok(2) by (auto simp: sys_inv_def)
    have img: "opened ?f i m Image = m Image" by (rule opened_fd(3))
    have "spec_of h m' = ?a\<lparr>opens := (opens ?a)(?f \<mapsto> (i, 0))\<rparr>"
      unfolding m'(2) by (rule spec_of_opens [where m = m and m' = "opened ?f i m", OF img])
        (use ff(2) i256 opened_fd(1) [OF ff(2)] opened_fd(2) in
          \<open>auto simp: fun_eq_iff spec_of_simps cursor_pos_def unat_of_nat\<close>)
    moreover have "spec_step ?a (Open path) (Code (int ?f)) (?a\<lparr>opens := (opens ?a)(?f \<mapsto> (i, 0))\<rparr>)"
      by (rule spec_open [OF ct _ _ ff(2)]) (use rs i i256 reg ff(2,3,4) in \<open>auto simp: spec_of_simps\<close>)
    ultimately show ?thesis using m'(1) by simp
  qed
qed

section \<open>Writing\<close>

text \<open>A file keeps its blocks, and only the blocks that the range touches are new.\<close>

lemma fs_write_map:
  assumes f: "f < 256" "bitmap_test fd_bm f m" and i: "i = unat (inodeNum (get_fd m f))" and cur: "cursor_ok (get_fd m f)"
    and n: "0 < n" "write_fits h m f n" and ok: "file_ok (the_fs h) m i" and b: "b < 518"
    and run: "fs_write (Some (the_fs h)) (int f) (Some src) n m = Some (r, m')"
  defines "pos \<equiv> cursor_pos (get_fd m f)"
  shows "file_block (the_fs h) (get_inode m i) m b \<noteq> 0 \<Longrightarrow>
      file_block (the_fs h) (get_inode m' i) m' b = file_block (the_fs h) (get_inode m i) m b"
    and "file_block (the_fs h) (get_inode m' i) m' b \<noteq> 0 \<Longrightarrow>
      file_block (the_fs h) (get_inode m i) m b \<noteq> 0 \<or> (\<exists>p. pos \<le> p \<and> p < pos + n \<and> p div 1024 = b)"
proof -
  let ?fs = "the_fs h" and ?ino = "get_inode m i"
  have i256: "i < 256" unfolding i using unsigned_less [of "inodeNum (get_fd m f)", where 'a = nat] by simp
  note w = write_fitsD [OF cur n(2)]
  obtain ino1 m1 where R: "fs_write (Some ?fs) (int f) (Some src) n m = Some (int n, write_done f i ino1 n m1)"
    "same_but_blocks ?ino ino1"
    "wrote (tables ?ino) (map_of_file ?fs ?ino m) m pos (pos + n) (\<lambda>p. src (p - pos)) (tables ino1) (map_of_file ?fs ino1 m1) m1"
    using fs_write_result [OF f cur n(1) w(1,2) ok [unfolded i] w(3,4)] unfolding i [symmetric] pos_def by blast
  have m': "m' = write_done f i ino1 n m1" using run R(1) by simp
  note wd = write_done_blocks [OF same_but_blocksD(1) [OF R(2)] i256, where f = f and k = n and m = m1]
  have "t \<in> tables ino1 \<Longrightarrow> 17 \<le> t" "tables ino1 \<subseteq> {..65528}" for t
    using blocks_okD(3) [OF wrote_ok [OF R(3)]] blocks_ok_tables [OF wrote_ok [OF R(3)]] by auto
  then have "map_of_file ?fs (get_inode m' i) m' = map_of_file ?fs ino1 m1"
    unfolding m' using wd(1) wd(3) [OF i256] by (intro map_of_file_cong) simp_all
  then have B: "file_block ?fs (get_inode m' i) m' b = map_of_file ?fs ino1 m1 b"
    using map_of_file_block [OF b, of ?fs "get_inode m' i" m'] by simp
  note B0 = map_of_file_block [OF b, of ?fs ?ino m]
  show "file_block ?fs ?ino m b \<noteq> 0 \<Longrightarrow> file_block ?fs (get_inode m' i) m' b = file_block ?fs ?ino m b"
    using wrote_keeps [OF R(3) b] unfolding B B0 by simp
  show "file_block ?fs (get_inode m' i) m' b \<noteq> 0 \<Longrightarrow> file_block ?fs ?ino m b \<noteq> 0 \<or> (\<exists>p. pos \<le> p \<and> p < pos + n \<and> p div 1024 = b)"
    using R(3) b unfolding B B0 [symmetric] wrote_def by metis
qed

lemma fs_write_spec:
  assumes inv: "sys_inv h m" and f: "f < 256" "bitmap_test fd_bm f m" and n: "0 < n" "write_fits h m f n"
  defines "i \<equiv> unat (inodeNum (get_fd m f))" and "pos \<equiv> cursor_pos (get_fd m f)"
  shows "\<exists>m'. fs_write (Some (the_fs h)) (int f) (Some src) n m = Some (int n, m') \<and> write_owned h m i m' \<and>
    spec_wrote (view h m i) pos n src (view h m' i) \<and> cursor_pos (get_fd m' f) = pos + n \<and>
    inodeNum (get_fd m' f) = inodeNum (get_fd m f) \<and> (\<forall>g<256. g \<noteq> f \<longrightarrow> get_fd m' g = get_fd m g)"
proof -
  let ?fs = "the_fs h"
  note o = open_file [OF inv f, folded i_def]
  have i: "i = unat (inodeNum (get_fd m f))" by (simp add: i_def)
  note w = write_fitsD [OF o(3) n(2)]
  obtain m' where own: "fs_write (Some ?fs) (int f) (Some src) n m = Some (int n, m')" "write_owned h m i m'"
    using fs_write_owns [OF f i o(3) n o(4), of src] by blast
  note W = write_ownedD [OF own(2)]
  have dz: "doubleIndirectPointer (get_inode m' i) = 0" using W(3) o(5) by simp
  have B: "fileSize (get_inode m' i) = fileSize (get_inode m i) + of_nat n"
    "\<And>p. pos \<le> p \<Longrightarrow> p < pos + n \<Longrightarrow> file_block ?fs (get_inode m' i) m' (p div 1024) \<noteq> 0 \<and>
       file_byte ?fs (get_inode m' i) m' p = src (p - pos)"
    "\<And>p. p < 518 * 1024 \<Longrightarrow> \<not> (pos \<le> p \<and> p < pos + n) \<Longrightarrow> file_block ?fs (get_inode m i) m (p div 1024) \<noteq> 0 \<Longrightarrow>
       file_byte ?fs (get_inode m' i) m' p = file_byte ?fs (get_inode m i) m p"
    and C: "cursor_pos (get_fd m' f) = pos + n" "inodeNum (get_fd m' f) = inodeNum (get_fd m f)"
    "\<forall>g<256. g \<noteq> f \<longrightarrow> get_fd m' g = get_fd m g"
    using fs_write_bytes [OF f o(3) n(1) w(1,2) o(4) [unfolded i_def] w(3,4), of src] own(1)
    unfolding i_def [symmetric] pos_def [symmetric] by auto
  have kept: "file_block ?fs (get_inode m' i) m' b \<noteq> 0" if "file_block ?fs (get_inode m i) m b \<noteq> 0" for b
    using fs_write_map(1) [OF f i o(3) n o(4) file_block_own(1) [OF o(5) that] own(1) that] that by simp
  have sz: "unat (fileSize (get_inode m' i)) = (unat (fileSize (get_inode m i)) + n) mod 2 ^ 64"
    unfolding B(1) by (simp add: unat_word_ariths unat_of_nat mod_simps)
  have "spec_wrote (view h m i) pos n src (view h m' i)"
    unfolding spec_wrote_def view_simps
  proof (intro conjI allI impI)
    fix p assume p: "\<not> (pos \<le> p \<and> p < pos + n) \<and>
      (if file_block ?fs (get_inode m i) m (p div 1024) = 0 then None else Some (file_byte ?fs (get_inode m i) m p)) \<noteq> None"
    then have nz: "file_block ?fs (get_inode m i) m (p div 1024) \<noteq> 0" by (auto split: if_splits)
    then have "p < 518 * 1024" using file_block_own(1) [OF o(5) nz] by (simp add: div_less_iff_less_mult)
    with B(3) nz kept [OF nz] p
    show "(if file_block ?fs (get_inode m' i) m' (p div 1024) = 0 then None else Some (file_byte ?fs (get_inode m' i) m' p)) =
      (if file_block ?fs (get_inode m i) m (p div 1024) = 0 then None else Some (file_byte ?fs (get_inode m i) m p))" by simp
  next
    fix p assume p: "(if file_block ?fs (get_inode m' i) m' (p div 1024) = 0 then None
      else Some (file_byte ?fs (get_inode m' i) m' p)) \<noteq> None"
    then have nz: "file_block ?fs (get_inode m' i) m' (p div 1024) \<noteq> 0" by (auto split: if_splits)
    from fs_write_map(2) [OF f i o(3) n o(4) file_block_own(1) [OF dz nz] own(1) nz]
    show "(if file_block ?fs (get_inode m i) m (p div 1024) = 0 then None else Some (file_byte ?fs (get_inode m i) m p)) \<noteq> None \<or>
      (\<exists>p'\<ge>pos. p' < pos + n \<and> p' div 1024 = p div 1024)" unfolding pos_def by auto
  qed (use sz B(2) in simp_all)
  then show ?thesis using own C by blast
qed

lemma write_refines:
  assumes inv: "sys_inv h m" and run: "call_step h m (Write fd src n) r m'"
  shows "spec_step (spec_of h m) (Write fd src n) r (spec_of h m')"
proof (cases "fd_open m fd")
  case True
  define f where "f = nat fd"
  note f = fd_openD [OF True, folded f_def]
  then have f': "f < 256" "bitmap_test fd_bm f m" by simp_all
  note o = open_file [OF inv f']
  define i where "i = unat (inodeNum (get_fd m f))"
  let ?pos = "cursor_pos (get_fd m f)" and ?a = "spec_of h m"
  note o = o [folded i_def]
  have n: "0 < n" "write_fits h m f n" using run True by (simp_all add: call_step_def f_def)
  obtain m1 where m1: "fs_write (Some (the_fs h)) (int f) (Some src) n m = Some (int n, m1)" "write_owned h m i m1"
    "spec_wrote (view h m i) ?pos n src (view h m1 i)" "cursor_pos (get_fd m1 f) = ?pos + n"
    "inodeNum (get_fd m1 f) = inodeNum (get_fd m f)" "\<forall>g<256. g \<noteq> f \<longrightarrow> get_fd m1 g = get_fd m g"
    using fs_write_spec [OF inv f' n, of src] unfolding i_def [symmetric] by blast
  have r: "r = Code (int n)" "m' = m1" using run m1(1) f by (auto simp: call_step_def)
  note W = write_ownedD [OF m1(2)] and S = write_owned_same_dirs [OF inv o(1,2) m1(2)]
  have views: "view h m1 x = view h m x" if x: "x < 256" "is_reg m x" "x \<noteq> i" for x
  proof (rule view_cong)
    have xf: "file_ok (the_fs h) m x" "doubleIndirectPointer (get_inode m x) = 0" "own_blocks h m x \<inter> own_blocks h m i = {}"
      using inv x o(1,2) by (simp_all add: sys_inv_def files_ok_def)
    show "file_ok (the_fs h) m x" "doubleIndirectPointer (get_inode m x) = 0" by (rule xf)+
    show "get_inode m1 x = get_inode m x" using W(4) x by blast
    show "get_block m1 j = get_block m j" if "j \<in> own_blocks h m x" for j
      using W(7) own_blocks_file_ok [OF xf(1) that] xf(3) that by blast
  qed
  have "lookup m1 d = lookup m d" if "d < 256" "is_dir m d" for d
    using same_dirsD(4) [OF S(1) that] by blast
  then have "spec_of h m1 = ?a\<lparr>files := (files ?a)(i \<mapsto> view h m1 i), opens := (opens ?a)(f \<mapsto> (i, ?pos + n))\<rparr>"
    using S(2,3) views o(1,2) f' W(9) m1(4-6)
    by (intro spec_fs_eqI) (auto simp: fun_eq_iff spec_of_simps i_def [symmetric])
  then show ?thesis
    using spec_write [of ?a fd i ?pos "view h m i" n src "view h m1 i"] o(6,7) m1(3) r f by (simp add: f_def)
next
  case False
  then have "m' = m" "r = Code (bad_handle fd)" using run bad_fd(4) [OF False] by (auto simp: call_step_def)
  then show ?thesis using spec_write_refused False handle_open by metis
qed

section \<open>Creating\<close>

lemma full_directory:
  assumes ok: "dir_ok m p" and full: "\<forall>j<31. dir_used m p j"
  shows "31 \<le> card (dom (lookup m p))"
proof -
  let ?n = "entry_name (dir_block m p)"
  have "inj_on ?n {..<31}" using ok full unfolding dir_ok_def inj_on_def by blast
  then have c: "card (?n ` {..<31}) = 31" by (simp add: card_image)
  have "finite (dom (lookup m p))"
  proof (rule finite_subset)
    show "dom (lookup m p) \<subseteq> ?n ` {..<31}" using lookup_used [of m p] by (fastforce simp: dir_used_def)
  qed simp
  moreover have "?n ` {..<31} \<subseteq> dom (lookup m p)" using used_lookup [OF ok] full by blast
  ultimately have "card (?n ` {..<31}) \<le> card (dom (lookup m p))" by (rule card_mono)
  then show ?thesis using c by simp
qed

lemma unused_free:
  assumes inv: "sys_inv h m" and q: "\<not> bitmap_test inode_bm q m" "q < 256"
  shows "unused (spec_of h m) q"
proof -
  have fs: "fs_inv m" "files_ok h m" "names_ok m" "fds_ok m" using inv by (simp_all add: sys_inv_def)
  have r: "\<not> is_dir m q" "\<not> is_reg m q" using fs(1,2) q by (auto simp: fs_inv_def files_ok_def)
  have "lookup m d n \<noteq> Some q" if "d < 256" "is_dir m d" for d n
    using fs(3) that q unfolding names_ok_def by blast
  moreover have "unat (inodeNum (get_fd m f)) \<noteq> q" if "f < 256" "bitmap_test fd_bm f m" for f
    using fs(4) that r(2) unfolding fds_ok_def by blast
  ultimately show ?thesis using r by (auto simp: unused_def spec_of_simps split: if_splits)
qed

lemma view_new:
  assumes "get_inode m q = new_inode type q"
  shows "view h m q = empty_file"
proof -
  have "file_block (the_fs h) (new_inode type q) m b = 0" for b
    by (simp add: file_block_def file_table_def new_inode_simps)
  then show ?thesis by (simp add: view_def assms empty_file_def new_inode_simps)
qed

text \<open>The state with the new file or directory.\<close>

lemma created_spec_of:
  assumes inv: "sys_inv h m" and eff: "create_effect m p name type q m'" and blks: "create_blocks m p q m'"
    and p: "p < 256" "is_dir m p" and ty: "type = FS_REGULAR \<or> type = FS_DIRECTORY"
  shows "spec_of h m' = spec_made (spec_of h m) type p name (lookup m p) q"
proof (rule spec_fs_eqI)
  have fs: "fs_inv m" using inv by (simp add: sys_inv_def)
  note E = create_effect_next [OF eff fs] and K = created_files_kept [OF inv eff blks p]
  have q: "\<not> bitmap_test inode_bm q m" "get_inode m' q = new_inode type q" "\<And>ob. ob \<noteq> Image \<Longrightarrow> m' ob = m ob"
    "\<And>d. d < 256 \<Longrightarrow> d \<noteq> q \<Longrightarrow> is_dir m' d \<longleftrightarrow> is_dir m d"
    using eff by (simp_all add: create_effect_def)
  have nq: "\<not> is_dir m q" "\<not> is_reg m q" using unused_free [OF inv q(1) E(8)] E(8)
    by (auto simp: unused_def spec_of_simps split: if_splits)
  have pq: "p \<noteq> q" using nq p(2) by blast
  note reg = created_reg [OF eff blks fs p]
  have views: "view h m' x = view h m x" if x: "x < 256" "is_reg m x" for x
    using inv x K(2,4) [OF x] by (intro view_cong) (simp_all add: sys_inv_def files_ok_def)
  have lk: "lookup m' d = (if d = p then (lookup m p)(name \<mapsto> q) else lookup m d)" if "d < 256" "is_dir m d" for d
    using E(5) [OF that] by (auto simp: fun_eq_iff)
  have lq: "lookup m' q = Map.empty" using E(6) by (simp add: fun_eq_iff)
  have rq: "is_reg m' q \<longleftrightarrow> type = FS_REGULAR" using q(2) ty by (auto simp: is_reg_def)
  let ?b = "spec_made (spec_of h m) type p name (lookup m p) q"
  show "dirs (spec_of h m') = dirs ?b"
    using E(4) q(4) lk lq pq p E(8) nq(1) ty by (auto simp: fun_eq_iff spec_of_simps spec_made_def Let_def)
  show "files (spec_of h m') = files ?b"
    using reg rq views view_new [OF q(2)] E(8) nq(2) ty by (auto simp: fun_eq_iff spec_of_simps spec_made_def Let_def)
  show "opens (spec_of h m') = opens ?b"
    by (auto simp: fun_eq_iff spec_of_simps spec_made_def Let_def fd_objects [OF q(3)])
qed

text \<open>A permitted creation is made or refused.\<close>

lemma create_call:
  assumes inv: "sys_inv h m" and run: "call_step h m (Create path type) r m'"
  obtains (made) tokens cnt p q where "checked_tokens path = Some (tokens, cnt)" "create_possible m tokens p"
      "type = FS_REGULAR \<or> type = FS_DIRECTORY" "fs_create (Some (the_fs h)) (Some path) type m = Some (0, m')" "r = Code 0"
      "create_effect m p (last tokens) type q m'" "create_blocks m p q m'"
  | (refused) "r = Code (-1)" "m' = m" "type = Other_type \<or> checked_tokens path = None \<or>
      (\<exists>tokens cnt. checked_tokens path = Some (tokens, cnt) \<and>
        (case resolve m 0 (butlast tokens) of None \<Rightarrow> True
         | Some p \<Rightarrow> \<not> is_dir m p \<or> lookup m p (last tokens) \<noteq> None \<or> (\<forall>j<31. dir_used m p j)))"
proof -
  have nul: "0 \<notin> set path" using run by (simp add: call_step_def)
  have fs: "fs_inv m" "dense m" using inv by (simp_all add: sys_inv_def)
  show thesis
  proof (cases "\<exists>tokens cnt p. checked_tokens path = Some (tokens, cnt) \<and> create_possible m tokens p \<and>
      (type = FS_REGULAR \<or> type = FS_DIRECTORY)")
    case True
    then obtain tokens cnt p where c: "checked_tokens path = Some (tokens, cnt)" "create_possible m tokens p"
      "type = FS_REGULAR \<or> type = FS_DIRECTORY" by blast
    obtain q m1 where e: "fs_create (Some (the_fs h)) (Some path) type m = Some (0, m1)"
      "create_effect m p (last tokens) type q m1" "create_blocks m p q m1"
      using fs_create_effect_blocks [OF fs c(1) nul c(3,2), of h] by blast
    have "r = Code 0" "m' = m1" using run e(1) by (simp_all add: call_step_def)
    then show thesis using made [OF c] e by blast
  next
    case False
    then have why: "type = Other_type \<or> checked_tokens path = None \<or>
      (\<exists>tokens cnt. checked_tokens path = Some (tokens, cnt) \<and>
        (case resolve m 0 (butlast tokens) of None \<Rightarrow> True
         | Some p \<Rightarrow> \<not> is_dir m p \<or> lookup m p (last tokens) \<noteq> None \<or> (\<forall>j<31. dir_used m p j)))"
      using run by (cases type) (auto simp: call_step_def split: option.splits prod.splits)
    have safe: "checked_tokens path = None \<Longrightarrow> path_safe 65535 path" using run by (simp add: call_step_def)
    have "fs_create (Some (the_fs h)) (Some path) type m = Some (-1, m)"
    proof (cases "type = Other_type")
      case True
      then show ?thesis by (simp add: fs_create_def)
    next
      case False
      then show ?thesis using why safe fs_create_refuses [OF fs(1) nul] by blast
    qed
    then show thesis using refused [OF _ _ why] run by (simp add: call_step_def)
  qed
qed

lemma create_refines:
  assumes inv: "sys_inv h m" and run: "call_step h m (Create path type) r m'"
  shows "spec_step (spec_of h m) (Create path type) r (spec_of h m')"
proof (cases rule: create_call [OF inv run, case_names made refused])
  case (made tokens cnt p q)
  have p: "resolve m 0 (butlast tokens) = Some p" "is_dir m p" "lookup m p (last tokens) = None"
    using made(2) by (simp_all add: create_possible_def)
  have p256: "p < 256" using resolve_bound [OF _ p(1)] by simp
  have q: "unused (spec_of h m) q" using made(6) by (intro unused_free [OF inv]) (simp_all add: create_effect_def)
  have "spec_dir (spec_of h m) (butlast tokens) = Some (p, lookup m p)" using p by (simp add: spec_dir_of)
  from spec_create [OF made(1) this p(3) q made(3)] show ?thesis
    unfolding made(5) created_spec_of [OF inv made(6,7) p256 p(2) made(3)] .
next
  case refused
  have fs: "fs_inv m" using inv by (simp add: sys_inv_def)
  have "type = Other_type \<or> entries (last tokens) \<noteq> None \<or> 31 \<le> card (dom entries)"
    if t: "checked_tokens path = Some (tokens, cnt)" "spec_dir (spec_of h m) (butlast tokens) = Some (p, entries)" for tokens cnt p entries
  proof -
    have d: "resolve m 0 (butlast tokens) = Some p" "is_dir m p" "entries = lookup m p"
      using t(2) by (auto simp: spec_dir_of split: option.splits if_splits)
    have "p < 256" using resolve_bound [OF _ d(1)] by simp
    then have "dir_ok m p" using fs d(2) by (simp add: fs_inv_def dirs_ok_def)
    then show ?thesis using refused(3) t(1) d full_directory by auto
  qed
  then show ?thesis unfolding refused(1,2) by (rule spec_create_refused)
qed

section \<open>Removing\<close>

text \<open>What \<^verbatim>\<open>fs_remove\<close> refuses.\<close>

lemma fs_remove_refuses:
  assumes inv: "fs_inv m" and v: "isValidPath (Some path)" "0 \<notin> set path" "length (c_basename path) < 32"
  shows "spec_dir (spec_of h m) (strtok_all slash (c_dirname path)) = None \<Longrightarrow>
      fs_remove (Some (the_fs h)) (Some path) m = (-4, m)"
    and "resolve m 0 (strtok_all slash (c_dirname path)) = Some p \<Longrightarrow> is_dir m p \<Longrightarrow> lookup m p (c_basename path) = None \<Longrightarrow>
      fs_remove (Some (the_fs h)) (Some path) m = (-5, m)"
    and "names_file m path p q \<Longrightarrow> is_dir m q \<Longrightarrow> \<not> isDirectoryEmpty (get_inode m q) \<Longrightarrow>
      fs_remove (Some (the_fs h)) (Some path) m = (-8, m)"
proof -
  note nul = path_parts_no_nul [OF v(2)]
  have ok: "dirs_ok m" "ids_ok m" "is_dir m 0" using inv by (auto simp: fs_inv_def)
  note d = getParentDirInodeID_resolve [OF ok nul(1), of h]
  have p0: "path \<noteq> []" using v(1) by (auto simp: isValidPath_def)
  show "spec_dir (spec_of h m) (strtok_all slash (c_dirname path)) = None \<Longrightarrow>
      fs_remove (Some (the_fs h)) (Some path) m = (-4, m)"
    using v p0 d by (auto simp: spec_dir_of fs_remove_def Let_def split: option.splits if_splits)
  show "fs_remove (Some (the_fs h)) (Some path) m = (-5, m)"
    if r: "resolve m 0 (strtok_all slash (c_dirname path)) = Some p" "is_dir m p" "lookup m p (c_basename path) = None"
  proof -
    have p: "p < 256" using resolve_bound [OF _ r(1)] by simp
    then have okp: "dir_ok m p" using ok(1) r(2) by (simp add: dirs_ok_def)
    have "getFileInodeID (the_fs h) p (c_basename path) m = 0"
      using getFileInodeID_lookup [OF p okp nul(2), of h] r(3) by simp
    then show ?thesis using v p0 d r p by (simp add: fs_remove_def Let_def)
  qed
  show "fs_remove (Some (the_fs h)) (Some path) m = (-8, m)"
    if n: "names_file m path p q" "is_dir m q" "\<not> isDirectoryEmpty (get_inode m q)"
    using fs_remove_unfold(3) [OF inv n(1), of h] n(2,3) by (simp add: is_dir_def Let_def)
qed

lemma removed_spec_of:
  assumes inv: "sys_inv h m" and rm: "removed_file m h p q name m'" and p: "p < 256" "is_dir m p" "vacantFile (get_inode m p) \<noteq> 0"
    and q: "q < 256" "is_reg m q" and own: "file_blocks h m (get_inode m q) = own_blocks h m q"
  shows "spec_of h m' = (spec_of h m)\<lparr>dirs := (dirs (spec_of h m))(p \<mapsto> (lookup m p)(name := None)),
    files := (files (spec_of h m))(q := None)\<rparr>"
proof (rule spec_fs_eqI)
  note K = removed_files_kept [OF inv rm p q own]
  have R: "\<And>d. d < 256 \<Longrightarrow> is_dir m' d \<longleftrightarrow> is_dir m d" "\<And>ob. ob \<noteq> Image \<Longrightarrow> m' ob = m ob"
    "\<And>d n. d < 256 \<Longrightarrow> is_dir m d \<Longrightarrow> lookup m' d n = (if d = p \<and> n = name then None else lookup m d n)"
    using rm by (simp_all add: removed_file_def)
  have views: "view h m' x = view h m x" if x: "x < 256" "is_reg m x" "x \<noteq> q" for x
    using inv x K [OF x] by (intro view_cong) (simp_all add: sys_inv_def files_ok_def)
  let ?b = "(spec_of h m)\<lparr>dirs := (dirs (spec_of h m))(p \<mapsto> (lookup m p)(name := None)),
    files := (files (spec_of h m))(q := None)\<rparr>"
  show "dirs (spec_of h m') = dirs ?b" using R(1,3) p(1,2) by (auto simp: fun_eq_iff spec_of_simps)
  show "files (spec_of h m') = files ?b"
    using removed_reg [OF rm p(1,2) q] views by (auto simp: fun_eq_iff spec_of_simps)
  show "opens (spec_of h m') = opens ?b" by (auto simp: fun_eq_iff spec_of_simps fd_objects [OF R(2)])
qed

text \<open>A permitted removal takes the file out or is refused.\<close>

lemma remove_call:
  assumes inv: "sys_inv h m" and run: "call_step h m (Remove path) r m'"
  defines "dir \<equiv> spec_dir (spec_of h m) (strtok_all slash (c_dirname path))"
  obtains (removed) p q where "remove_safe m path p q" "fs_remove (Some (the_fs h)) (Some path) m = (0, m')" "r = Code 0"
      "dir = Some (p, lookup m p)" "lookup m p (c_basename path) = Some q"
  | (no_parent) "dir = None" "r = Code (-4)" "m' = m"
  | (no_name) p where "dir = Some (p, lookup m p)" "lookup m p (c_basename path) = None" "r = Code (-5)" "m' = m"
  | (not_empty) p q where "dir = Some (p, lookup m p)" "lookup m p (c_basename path) = Some q" "q < 256" "is_dir m q"
      "lookup m q \<noteq> Map.empty" "r = Code (-8)" "m' = m"
proof -
  let ?name = "c_basename path"
  have fs: "fs_inv m" "names_ok m" using inv by (simp_all add: sys_inv_def)
  have v: "isValidPath (Some path)" "0 \<notin> set path" "length ?name < 32" using run by (simp_all add: call_step_def)
  note ref = fs_remove_refuses [OF fs(1) v]
  show thesis
  proof (cases dir)
    case None
    then show thesis using no_parent ref(1) run by (simp add: call_step_def dir_def)
  next
    case (Some pe)
    then obtain p where p: "resolve m 0 (strtok_all slash (c_dirname path)) = Some p" "is_dir m p" "dir = Some (p, lookup m p)"
      by (auto simp: dir_def spec_dir_of split: option.splits if_splits)
    have p256: "p < 256" using resolve_bound [OF _ p(1)] by simp
    show thesis
    proof (cases "lookup m p ?name")
      case None
      then show thesis using no_name [OF p(3)] ref(2) [OF p(1,2)] run by (simp add: call_step_def)
    next
      case l: (Some q)
      have q: "q < 256" "q \<noteq> 0" using lookup_inode_bound [OF l] fs(2) p256 p(2) l unfolding names_ok_def by blast+
      have n: "names_file m path p q" using v p l q by (simp add: names_file_def)
      consider "remove_safe m path p q" | "is_dir m q" "\<not> isDirectoryEmpty (get_inode m q)"
        using run p(1,2) l by (auto simp: call_step_def)
      then show thesis
      proof cases
        case 1
        then obtain m1 where "fs_remove (Some (the_fs h)) (Some path) m = (0, m1)" using remove_safe_effect [OF inv] by blast
        then show thesis using removed [OF 1 _ _ p(3) l] run by (simp add: call_step_def)
      next
        case 2
        obtain j where "dir_used m q j" using 2(2) by (auto simp: isDirectoryEmpty_bits dir_used_def)
        moreover have "dir_ok m q" using fs(1) 2(1) q(1) by (simp add: fs_inv_def dirs_ok_def)
        ultimately have "lookup m q \<noteq> Map.empty" using used_lookup [of m q j] by (metis option.distinct(1))
        then show thesis using not_empty [OF p(3) l q(1) 2(1)] ref(3) [OF n 2] run by (simp add: call_step_def)
      qed
    qed
  qed
qed

lemma remove_refines:
  assumes inv: "sys_inv h m" and run: "call_step h m (Remove path) r m'"
  shows "spec_step (spec_of h m) (Remove path) r (spec_of h m')"
proof (cases rule: remove_call [OF inv run, case_names removed no_parent no_name not_empty])
  case (removed p q)
  have n: "names_file m path p q" and reg: "is_reg m q"
    and closed: "\<forall>f<256. bitmap_test fd_bm f m \<longrightarrow> unat (inodeNum (get_fd m f)) \<noteq> q"
    using removed(1) by (simp_all add: remove_safe_def)
  have pd: "is_dir m p" using n by (simp add: names_file_def)
  have e: "removed_file m h p q (c_basename path) m'" "file_blocks h m (get_inode m q) = own_blocks h m q" "p < 256" "q < 256"
    "vacantFile (get_inode m p) \<noteq> 0"
    using remove_safe_effect [OF inv removed(1)] removed(2) by auto
  have "files (spec_of h m) q \<noteq> None" "\<And>f pos. opens (spec_of h m) f \<noteq> Some (q, pos)"
    using e(4) reg closed by (auto simp: spec_of_simps)
  from spec_remove [where path = path, OF removed(4,5) this] show ?thesis
    unfolding removed(3) removed_spec_of [OF inv e(1,3) pd e(5,4) reg e(2)] .
next
  case no_parent
  then show ?thesis using spec_remove_refused by simp
next
  case (no_name p)
  then show ?thesis using spec_remove_missing by simp
next
  case (not_empty p q)
  then have "dirs (spec_of h m) q = Some (lookup m q)" by (simp add: spec_of_simps)
  from spec_remove_full [OF not_empty(1,2) this not_empty(5)] show ?thesis using not_empty(6,7) by simp
qed

section \<open>The interface as a refinement\<close>

text \<open>A permitted call is a step of \<open>FS_System\<close>, or changes nothing.\<close>

lemma call_step_fs_step:
  assumes inv: "sys_inv h m" and run: "call_step h m c r m'"
  shows "fs_step h m m' \<or> m' = m"
proof (cases c)
  case (Create path type)
  have nul: "0 \<notin> set path" using run by (simp add: call_step_def Create)
  show ?thesis
    by (cases rule: create_call [OF inv run [unfolded Create]]) (use step_create [OF _ nul] in blast)+
next
  case (Open path)
  have o: "\<exists>r'. fs_open (Some (the_fs h)) (Some path) m = Some (r', m')" and nul: "0 \<notin> set path"
    using run by (auto simp: call_step_def Open split: prod.splits)
  show ?thesis
  proof (cases "checked_tokens path")
    case None
    then have "fs_open (Some (the_fs h)) (Some path) m = Some (-1, m)"
      using run by (simp add: call_step_def Open fs_open_def)
    then show ?thesis using o by simp
  next
    case (Some tc)
    then obtain tokens cnt where ct: "checked_tokens path = Some (tokens, cnt)" by (cases tc) simp
    have "\<not> is_dir m i" if "resolve m 0 tokens = Some i" for i using run that by (simp add: call_step_def Open ct)
    then show ?thesis using step_open [OF ct nul] o by blast
  qed
next
  case (Close fd)
  then show ?thesis using run step_close by (auto simp: call_step_def split: prod.splits)
next
  case (Read fd n)
  then show ?thesis using run step_read by (auto simp: call_step_def)
next
  case (Seek fd offset whence)
  then show ?thesis
    using run bad_fd(3) [of m fd h offset whence] step_seek [of h fd offset whence m]
    by (cases "fd_open m fd") (auto simp: call_step_def split: prod.splits)
next
  case (Write fd src n)
  show ?thesis
  proof (cases "fd_open m fd")
    case True
    then show ?thesis using run fd_openD [OF True] step_write [of "nat fd" m n h src] by (auto simp: call_step_def Write)
  qed (use run bad_fd(4) [of m fd h src n] in \<open>auto simp: call_step_def Write\<close>)
next
  case (Remove path)
  show ?thesis
    by (cases rule: remove_call [OF inv run [unfolded Remove]]) (use step_remove in blast)+
qed

lemma call_step_inv: "sys_inv h m \<Longrightarrow> call_step h m c r m' \<Longrightarrow> sys_inv h m'"
  using call_step_fs_step [of h m c r m'] fs_step_inv [of h m m'] by auto

lemma call_step_spec:
  assumes inv: "sys_inv h m" and run: "call_step h m c r m'"
  shows "spec_step (spec_of h m) c r (spec_of h m')"
proof (cases c)
  case (Create path type)
  then show ?thesis using create_refines [OF inv] run by simp
next
  case (Open path)
  then show ?thesis using open_refines [OF inv] run by simp
next
  case (Close fd)
  then show ?thesis using close_refines run by simp
next
  case (Read fd n)
  then show ?thesis using read_refines [OF inv] run by simp
next
  case (Seek fd offset whence)
  then show ?thesis using seek_refines [OF inv] run by simp
next
  case (Write fd src n)
  then show ?thesis using write_refines [OF inv] run by simp
next
  case (Remove path)
  then show ?thesis using remove_refines [OF inv] run by simp
qed

text \<open>A permitted call returns: it neither recurses for ever nor leaves its arrays and buffers.\<close>

lemma call_returns:
  assumes inv: "sys_inv h m" and ok: "call_ok h m c"
  shows "\<exists>r m'. call_step h m c r m'"
proof -
  have "run_call h c m \<noteq> None"
  proof (cases c)
    case (Create path type)
    have "path_safe 65535 path" using ok checked_tokens_safe [of path] by (auto simp: Create split: option.splits)
    then show ?thesis by (auto simp: Create fs_create_def Let_def split: option.splits prod.splits)
  next
    case (Open path)
    have "path_safe 65535 path" using ok checked_tokens_safe [of path] by (auto simp: Open split: option.splits)
    then show ?thesis by (auto simp: Open fs_open_def Let_def split: option.splits prod.splits)
  next
    case (Read fd n)
    show ?thesis
    proof (cases "fd_open m fd")
      case True
      note f = fd_openD [OF True]
      have n: "n < 2 ^ 63" using ok by (simp add: Read)
      show ?thesis
        using fs_read_none [of "nat fd" m h] fs_read_spec [OF inv, of "nat fd" n] f n
        by (cases "n = 0") (auto simp: Read)
    qed (use bad_fd(2) [of m fd h n] in \<open>simp add: Read\<close>)
  next
    case (Write fd src n)
    show ?thesis
    proof (cases "fd_open m fd")
      case True
      then show ?thesis
        using fs_write_spec [OF inv, of "nat fd" n src] fd_openD [OF True] ok by (auto simp: Write)
    qed (use bad_fd(4) [of m fd h src n] in \<open>simp add: Write\<close>)
  qed (auto split: prod.splits)
  then show ?thesis using ok by (auto simp: call_step_def)
qed

interpretation impl: refinement "call_step h" "sys_inv h" spec_step "spec_of h" for h :: int
  by unfold_locales (rule call_step_inv call_step_spec; assumption)+

text \<open>The states that calls reach, from a formatted image on.\<close>

lemma exec_reachable: "exec (call_step h) m tr m' \<Longrightarrow> reachable h m \<Longrightarrow> reachable h m'"
proof (induction rule: exec.induct)
  case (exec_Cons m c r m1 tr m')
  have "fs_step h m m1 \<or> m1 = m" by (rule call_step_fs_step [OF reachable_inv [OF exec_Cons.prems] exec_Cons.hyps(1)])
  then show ?case using exec_Cons.IH exec_Cons.prems reach_step [of h m m1] by auto
qed

lemma fresh_spec_of:
  assumes "fresh_fs m"
  shows "spec_of h m = empty_fs"
proof -
  have ino: "get_inode m i = (if i = 0 then root_inode else zero_inode)" if "i < 256" for i
    using assms that by (simp add: fresh_fs_def)
  have d: "is_dir m i \<longleftrightarrow> i = 0" and r: "\<not> is_reg m i" if "i < 256" for i
    using ino [OF that] by (simp_all add: is_dir_def is_reg_def root_inode_def zero_inode_def)
  have "lookup m 0 = Map.empty" using ino [of 0] by (simp add: fun_eq_iff lookup_def root_inode_def zero_inode_def)
  then show ?thesis
    using d r assms by (intro spec_fs_eqI) (auto simp: fun_eq_iff spec_of_simps empty_fs_def fresh_fs_def)
qed

lemma format_calls:
  assumes "host_ok host path h" and "path \<noteq> []" and "fs_format host (Some path) m0 = Some (Some (the_fs h), m)"
    and "exec (call_step h) m tr m'"
  shows "exec spec_step empty_fs tr (spec_of h m')" and "spec_live (spec_of h m')"
proof -
  have fresh: "fresh_fs m" using fs_format_fresh [OF assms(1,2), of m0] assms(3) by auto
  note inv = fresh_sys_inv [OF fresh, of h] and e = fresh_spec_of [OF fresh, of h]
  show "exec spec_step empty_fs tr (spec_of h m')" using impl.exec_spec [OF assms(4) inv] by (simp only: e)
  have "spec_live (spec_of h m)" unfolding e by (rule empty_fs_live)
  then show "spec_live (spec_of h m')" by (rule impl.exec_invariant [OF assms(4) inv]) (rule spec_step_live)
qed

text \<open>The calls that can change a file: writes through its descriptors, and its removal.\<close>

definition call_affects :: "mem \<Rightarrow> fs_call \<Rightarrow> nat \<Rightarrow> bool" where
  "call_affects m c i \<longleftrightarrow> (case c of
      Write fd src n \<Rightarrow> fd_open m fd \<and> unat (inodeNum (get_fd m (nat fd))) = i
    | Remove path \<Rightarrow> (case resolve m 0 (strtok_all slash (c_dirname path)) of None \<Rightarrow> False
        | Some p \<Rightarrow> is_dir m p \<and> lookup m p (c_basename path) = Some i)
    | _ \<Rightarrow> False)"

lemma spec_affects_of: "spec_affects (spec_of h m) c i \<longleftrightarrow> call_affects m c i"
  by (auto simp: spec_affects_def call_affects_def spec_handle_of spec_dir_of fd_open_def
      split: fs_call.split option.splits if_splits)

lemma exec_file_kept:
  assumes "exec (\<lambda>m c r m'. call_step h m c r m' \<and> \<not> call_affects m c i) m tr m'" and "sys_inv h m"
    and "files (spec_of h m) i = Some v"
  shows "files (spec_of h m') i = Some v"
  using assms
proof (induction rule: exec.induct)
  case (exec_Cons m c r m1 tr m')
  then have "files (spec_of h m1) i = Some v"
    using spec_step_frame [OF call_step_spec] by (auto simp: spec_affects_of)
  then show ?case using exec_Cons call_step_inv by blast
qed

end
