(* ===== verification/Block_Serial.thy ===== *)
theory Block_Serial
  imports Block_Store
begin

text \<open>
  \<^verbatim>\<open>block_store_serialize\<close> and \<^verbatim>\<open>block_store_deserialize\<close> of \<^verbatim>\<open>src/block_store.c\<close>, which no
  other function calls. The system calls on the file are a record of functions, as in
  \<open>Block_Store\<close>; a file is the list of its bytes. Both functions pass the address of the
  \<^verbatim>\<open>bitmap_t\<close> object where the address of its bits is meant: \<open>struct_bytes\<close> are the bytes that
  \<^verbatim>\<open>write\<close> finds there, and a \<^verbatim>\<open>read\<close> that stores anything there overwrites the object, which
  the model has no value for: the outer \<open>None\<close>, as for a null pointer.
\<close>

record serial_host =
  s_open_write :: "cstring \<Rightarrow> int"            \<comment> \<open>\<^verbatim>\<open>open\<close> with \<^verbatim>\<open>O_WRONLY | O_CREAT\<close>\<close>
  s_open_read :: "cstring \<Rightarrow> int"             \<comment> \<open>\<^verbatim>\<open>open\<close> with \<^verbatim>\<open>O_RDONLY\<close>\<close>
  s_write :: "int \<Rightarrow> nat \<Rightarrow> nat \<Rightarrow> int"       \<comment> \<open>descriptor, file offset, count\<close>
  s_read :: "int \<Rightarrow> nat \<Rightarrow> nat \<Rightarrow> mem \<Rightarrow> int \<times> byte list"

text \<open>One \<^verbatim>\<open>write\<close> at an offset not beyond the end; it may be short or fail.\<close>

definition file_put :: "byte list \<Rightarrow> nat \<Rightarrow> byte list \<Rightarrow> byte list" where
  "file_put content offset bs = take offset content @ bs @ drop (offset + length bs) content"

definition do_write :: "serial_host \<Rightarrow> int \<Rightarrow> byte list \<Rightarrow> nat \<times> byte list \<Rightarrow> nat \<times> byte list" where
  "do_write s fd bs st = (case st of (offset, content) \<Rightarrow>
     (let r = s_write s fd offset (length bs);
          done_bytes = take (nat r) bs
      in (offset + length done_bytes, file_put content offset done_bytes)))"

definition block_store_serialize ::
    "serial_host \<Rightarrow> byte list \<Rightarrow> block_store_t option \<Rightarrow> cstring option \<Rightarrow> byte list \<Rightarrow> mem \<Rightarrow> nat \<times> byte list" where
  "block_store_serialize s struct_bytes bs filename content m =
     (if bs \<noteq> None \<and> filename \<noteq> None then
        (let fd = s_open_write s (the filename) in
         if fd < 0 then (0, content)
         else
           (let st1 = do_write s fd (mread m (data_blocks (the bs)) (BLOCK_STORE_AVAIL_BLOCKS * BLOCK_SIZE_BYTES)) (0, content);
                st2 = do_write s fd (take (BLOCK_STORE_NUM_BLOCKS div 8) struct_bytes) st1;
                wr_size = block_store_get_used_blocks bs m
            in (wr_size * BLOCK_SIZE_BYTES, snd st2)))
      else (0, content))"

definition block_store_deserialize ::
    "host \<Rightarrow> serial_host \<Rightarrow> cstring option \<Rightarrow> mem \<Rightarrow> (block_store_t option \<times> mem) option" where
  "block_store_deserialize h s filename m = (case filename of
       None \<Rightarrow> Some (None, m)
     | Some f \<Rightarrow>
         (let fd = s_open_read s f in
          if fd < 0 then Some (None, m)
          else
            (let (bs, m1) = block_store_create h (Some f) m in
             if bs = None then None
             else
               (let (df_read1, bytes1) = s_read s fd 0 (BLOCK_STORE_AVAIL_BLOCKS * BLOCK_SIZE_BYTES) m1;
                    m2 = mwrite m1 (data_blocks (the bs)) (take (nat df_read1) bytes1);
                    (df_read2, bytes2) = s_read s fd (nat df_read1) (BLOCK_STORE_NUM_BLOCKS div 8) m2
                in if 0 < df_read2 then None
                   else if df_read1 < 0 \<or> df_read2 < 0 then Some (None, m2)
                   else Some (bs, m2)))))"

section \<open>Properties\<close>

text \<open>C27: when the system calls write everything, the file begins with the data blocks in order, followed by 8192 bytes
  that start at the \<^verbatim>\<open>bitmap_t\<close> object (not at its bits), and the result is 1024 times the number
  of blocks in use, whatever was written.\<close>

theorem block_store_serialize_result:
  assumes "0 \<le> s_open_write s f" and "\<And>offset n. s_write s (s_open_write s f) offset n = int n"
    and "length struct_bytes = 8192"
  shows "\<exists>content'. block_store_serialize s struct_bytes (Some (whole_store d)) (Some f) content m =
      (1024 * card {j. j < 65528 \<and> bitmap_test whole_bm j m}, content') \<and>
    (\<forall>j<65528. take 1024 (drop (j * 1024) content') = get_block m j) \<and>
    take 8192 (drop (65528 * 1024) content') = struct_bytes"
proof -
  let ?n = "65528 * 1024 :: nat"
  define data where "data = mread m (Image, 0) ?n"
  have len: "length data = ?n" by (simp add: data_def)
  have w1: "do_write s (s_open_write s f) data (0, content) = (?n, data @ drop ?n content)"
    using len assms(2) by (simp add: do_write_def file_put_def Let_def)
  have w2: "do_write s (s_open_write s f) struct_bytes (?n, data @ drop ?n content) =
      (?n + 8192, data @ struct_bytes @ drop (?n + 8192) content)"
    using len assms(2,3) by (simp add: do_write_def file_put_def Let_def drop_drop add.commute)
  have "block_store_serialize s struct_bytes (Some (whole_store d)) (Some f) content m =
      (1024 * card {j. j < 65528 \<and> bitmap_test whole_bm j m}, data @ struct_bytes @ drop (?n + 8192) content)"
    using assms(1,3) w1 w2
    by (simp add: block_store_serialize_def Let_def data_def block_store_get_used_blocks_def whole.total_card)
  moreover have "take 1024 (drop (j * 1024) (data @ u)) = get_block m j" if "j < 65528" for j u
  proof -
    have "Suc j * 1024 \<le> ?n" using that by (intro mult_le_mono1) simp
    then have j: "j * 1024 + 1024 \<le> ?n" by simp
    then have "take 1024 (drop (j * 1024) (data @ u)) = take 1024 (drop (j * 1024) data)" using len by simp
    also have "\<dots> = get_block m j" using take_drop_mread [OF j] by (simp add: data_def get_block_def)
    finally show ?thesis .
  qed
  ultimately show ?thesis using len assms(3) by (intro exI [of _ "data @ struct_bytes @ drop (?n + 8192) content"]) simp
qed

definition example_serial :: serial_host where
  "example_serial = \<lparr>s_open_write = (\<lambda>_. 4), s_open_read = (\<lambda>_. 4), s_write = (\<lambda>_ _ n. int n),
     s_read = (\<lambda>_ offset n m. (int n, mread m (Image, offset) n))\<rparr>"

definition example_struct :: "byte list" where
  "example_struct = replicate 8192 0"

lemma length_example_struct: "length example_struct = 8192"
  unfolding example_struct_def by (rule length_replicate)

theorem block_store_serialize_result_witness:
  "fst (block_store_serialize example_serial example_struct (Some (whole_store 3)) (Some [97]) []
     (bitmap_set whole_bm 5 (\<lambda>_ _. 0))) = 1024"
proof -
  have "{j. j < 65528 \<and> bitmap_test whole_bm j (bitmap_set whole_bm 5 (\<lambda>_ _. 0))} = {5}"
    by (auto simp: bitmap_test_set) (simp add: bitmap_test_bit byte_at_def)
  then show ?thesis
    using block_store_serialize_result [of example_serial "[97]" example_struct 3 "[]" "bitmap_set whole_bm 5 (\<lambda>_ _. 0)"]
      length_example_struct
    by (auto simp: example_serial_def)
qed

text \<open>Deserialising never gives the block store back: with a file that can be read, the code first creates the
  image anew under the same name, which empties it, and then reads into the \<^verbatim>\<open>bitmap_t\<close> object
  (or through a null pointer).\<close>

theorem block_store_deserialize_undefined:
  assumes "0 \<le> s_open_read s f" and "\<And>offset n m. s_read s (s_open_read s f) offset n m = (int n, mread m (Image, offset) n)"
  shows "block_store_deserialize h s (Some f) m = None"
  using assms by (simp add: block_store_deserialize_def Let_def split: prod.split)

theorem block_store_deserialize_undefined_witness:
  "block_store_deserialize \<lparr>h_malloc = True, h_open_creat = (\<lambda>_. 3), h_open_rdwr = (\<lambda>_. 3), h_ftruncate = (\<lambda>_ _. 0),
     h_fstat = (\<lambda>_. (0, BLOCK_STORE_NUM_BYTES)), h_mmap = (\<lambda>_. True), h_content = (\<lambda>_ _. 0)\<rparr>
     example_serial (Some [97]) (\<lambda>_ _. 0) = None"
  by (rule block_store_deserialize_undefined) (simp_all add: example_serial_def)

end
