(* ===== verification/Spec2Isabelle.thy ===== *)
theory Spec2Isabelle
  imports FS_Refine Block_Serial Dyn_Array
begin

text \<open>
  A verification development for F19FS, a small file system in C: an image file of 65536 blocks of
  1024 bytes mapped into memory, with an inode table, directories of 31 entries in one block, and
  files over 6 direct, 512 indirect and 512 * 512 double indirect blocks.

  \<^bold>\<open>The program and its theories.\<close> Files are named under \<^verbatim>\<open>src/\<close>.

  \<^item> \<^theory_text>\<open>Prelude\<close>: the byte-addressed memory that the code mutates through pointers (\<open>mem\<close>, from objects
    to bytes at offsets; the image, the two descriptor buffers and locals are objects), the
    little-endian encodings (locale \<open>codec\<close>), C strings.
  \<^item> \<^theory_text>\<open>Bitmap\<close>: \<^verbatim>\<open>bitmap.c\<close>, every function. Locale \<open>bitset\<close> states what allocators rely on (test after
    set and reset, first zero, count); it is interpreted for bit maps of every size, and in the
    client theories for the block, inode, descriptor and directory bit maps.
  \<^item> \<^theory_text>\<open>Block_Store\<close>: \<^verbatim>\<open>block_store.c\<close>: the image, the inode and descriptor stores laid over it, allocation,
    reading and writing of slots (locale \<open>slot_table\<close>, interpreted for blocks, inodes and
    descriptors). \<^theory_text>\<open>Block_Serial\<close>: its two serialization functions.
  \<^item> \<^theory_text>\<open>Dyn_Array\<close>: \<^verbatim>\<open>dyn_array.c\<close>, every function, refined to operations on lists.
  \<^item> \<^theory_text>\<open>Inode_Table\<close>, \<^theory_text>\<open>File_Descriptor\<close>: \<^verbatim>\<open>inode.c\<close>, \<^verbatim>\<open>file_descriptor.c\<close>, the records \<^verbatim>\<open>struct inode\<close> and
    \<^verbatim>\<open>struct fileDescriptor\<close> and their bytes.
  \<^item> \<^theory_text>\<open>FS_Names\<close>, \<^theory_text>\<open>FS_Dir\<close>: the names, paths and directories of \<^verbatim>\<open>F19FS.c\<close>; \<open>lookup\<close> and \<open>resolve\<close> are the
    abstract directory functions that the code's loops are shown to compute, \<open>fs_inv\<close> the
    invariant of directories and inodes.
  \<^item> \<^theory_text>\<open>FS_Format\<close> (\<^verbatim>\<open>fs_format\<close>, \<^verbatim>\<open>fs_mount\<close>, \<^verbatim>\<open>fs_unmount\<close>), \<^theory_text>\<open>FS_Create\<close> (\<^verbatim>\<open>fs_create\<close>, \<^verbatim>\<open>fs_create2\<close>),
    \<^theory_text>\<open>FS_Open\<close> (\<^verbatim>\<open>fs_open\<close>, \<^verbatim>\<open>fs_close\<close>, \<^verbatim>\<open>fs_get_dir\<close>), \<^theory_text>\<open>FS_Remove\<close> (\<^verbatim>\<open>fs_remove\<close>), \<^theory_text>\<open>FS_Ops\<close> (\<^verbatim>\<open>fs_move\<close>,
    \<^verbatim>\<open>fs_link\<close>): the definitions of the operations, their effect on directories and blocks,
    and their properties.
  \<^item> \<^theory_text>\<open>FS_IO\<close>: \<^verbatim>\<open>fs_write\<close>, \<^verbatim>\<open>fs_read\<close>, \<^verbatim>\<open>fs_seek\<close> and the functions over direct, indirect and double
    indirect blocks. \<^theory_text>\<open>FS_Read\<close>: the block map of a file (\<open>file_block\<close>, \<open>file_byte\<close>) and reading as a
    function of it. \<^theory_text>\<open>FS_Overwrite\<close>: writing into blocks that exist. \<^theory_text>\<open>FS_Wrote\<close>, \<^theory_text>\<open>FS_Write\<close>: the
    specification \<open>wrote\<close> of a write that may allocate, closed under composition, and the proof that
    the code implements it. \<^theory_text>\<open>FS_Transfer\<close>: the properties of the three operations.
  \<^item> \<^theory_text>\<open>FS_System\<close>: the invariant \<open>sys_inv\<close> over directories, names, files, blocks and descriptors, the
    step relation \<open>fs_step\<close>, the states \<open>reachable\<close> from a formatted image, and the lemma that each
    operation keeps the invariant. \<^theory_text>\<open>FS_Lifecycle\<close>: the life of a file, from its creation to its removal.
  \<^item> \<^theory_text>\<open>FS_Spec\<close>: the abstract file system: directories as partial functions from names to file numbers, files
    as partial functions from positions to bytes with a size, open files with their positions;
    \<open>spec_step\<close> relates a call, its reply and the states before and after, refusals included. Its
    quirks are those of the code: the bound of a read and a seek from the current position are off
    by \<open>slack\<close>, and every write adds to the size. Locale \<open>refinement\<close> lifts the simulation of single calls
    to sequences and carries invariants of the specification over; the invariant \<open>spec_live\<close> (every
    file and directory has a path) is proved on the specification alone.
  \<^item> \<^theory_text>\<open>FS_Refine\<close>: the abstraction \<open>spec_of\<close>, the calls (\<open>run_call\<close>, \<open>call_ok\<close>, \<open>call_step\<close>), one lemma per call
    that it refines the specification, and the interpretation of \<open>refinement\<close> on the model of the code.
  \<^item> This theory: the properties that span the components.

  \<^bold>\<open>State.\<close> An operation takes the objects of the C interface (\<open>None\<close> for a null pointer) and the
  memory and returns its result and the memory. Integers stored in structures are words of their
  width; sizes are natural numbers with the wrap-around written out where it can be reached. Error
  returns are the code's numbers; the outer \<open>option\<close> of some operations is \<open>None\<close> where the C code
  dereferences a null pointer, overruns a buffer or accesses an array at index -1, or where a
  recursion would not end. The buffers are those into which a path is copied: 65535 bytes in \<^verbatim>\<open>fs_create\<close>
  and \<^verbatim>\<open>fs_open\<close>, 200 in \<^verbatim>\<open>fs_get_dir\<close>, and 200 for each component in \<^verbatim>\<open>str_split\<close> (\<open>path_safe\<close>). The index
  -1 into the double indirect block comes up when the 16 bit locator has wrapped around
  (\<open>double_direct_target\<close>, \<open>double_read_target\<close>).

  \<^bold>\<open>Recursion and bounds.\<close> The two mutually recursive pairs of functions over indirect and double
  indirect blocks are \<open>partial_function (option)\<close>. \<open>permitted_calls_return\<close> shows that every permitted call on a
  reachable state returns; \<open>fs_read_returns\<close> shows it for reading on any image, cyclic pointers
  included, whose pointers are in range (\<open>pointers_ok\<close>), within the first 65535 blocks; past those the
  read has no result (\<open>fs_read_wraps\<close>). There is no fuel. Writing with allocation is characterised up
  to the 518 blocks of the direct and the indirect pointers, overwriting and reading for all three
  levels. A write into a hole among the direct blocks has to begin at the start of the block, since
  the code copies whole source blocks into a new block.

  \<^bold>\<open>Guards of the step relation.\<close> The code loses its own consistency in some calls: creating when entry
  0 of a directory has been removed, removing a directory without entries or a name that is the
  prefix of another, linking into a directory without entries, moving. Each of these is a property
  of the single operation with a concrete witness. \<open>fs_step\<close> has the calls outside these cases:
  creating where \<open>create_possible\<close> holds (with entry 0 in use or the directory empty, by \<open>dense\<close>),
  opening anything but a directory, closing, reading and seeking with any arguments (for files
  below 2 GiB), writing within \<open>write_fits\<close>, and removing under \<open>remove_safe\<close>. \<open>call_ok\<close>, the guard of the
  refinement, has besides these the calls that the code refuses (a name in use or a full directory,
  a path that does not resolve, a descriptor that is not open, a name that is not there, a directory
  that is not empty); it excludes paths that overrun a buffer, and bounds seeks to files below 64 MiB,
  which a cursor can reach, and counts and offsets to 63 bits.

  \<^bold>\<open>Assumed of other code.\<close> The system calls (\<^verbatim>\<open>open\<close>, \<^verbatim>\<open>ftruncate\<close>, \<^verbatim>\<open>fstat\<close>, \<^verbatim>\<open>mmap\<close>, \<^verbatim>\<open>read\<close>, \<^verbatim>\<open>write\<close>) and
  \<^verbatim>\<open>malloc\<close> are arguments: the records \<open>host\<close> and \<open>serial_host\<close> and flags. \<open>host_ok\<close> says that they succeed.
  The allocations inside the operations of \<^verbatim>\<open>F19FS.c\<close>, which does not check them, are taken to succeed.

  \<^bold>\<open>Undefined behaviour that has no value of its own.\<close> An object of which a store or a bit map is \<^verbatim>\<open>NULL\<close>
  (\<^verbatim>\<open>fs_mount\<close> can return one) makes the C code dereference a null pointer; \<open>bm_deref\<close> is unspecified there,
  and the properties are about \<open>the_fs h\<close>, the object of a file system whose stores are all there. Reading a
  block whose number is outside the store leaves the C buffer as it was, uninitialised in places,
  where the model has zeros; the properties on what is read or written have the block numbers in
  range, as hypotheses or by the invariant.

  \<^bold>\<open>Not modelled.\<close> \<^verbatim>\<open>printf\<close> output; the release of the C heap by \<^verbatim>\<open>free\<close>, except where a destroy function
  reports it; concurrency, which the program has none of; the test driver \<^verbatim>\<open>src/test/tests.cpp\<close>.
\<close>

section \<open>Properties that span the components\<close>

text \<open>C1: the file system implements its specification. Whatever calls are made on a formatted image,
  in the cases in which the code keeps its data consistent, the replies and the resulting names,
  file contents, sizes and open descriptors are those of the abstract file system that starts
  empty.\<close>

theorem calls_refine_spec:
  assumes "host_ok host path h" and "path \<noteq> []" and "fs_format host (Some path) m0 = Some (Some (the_fs h), m)"
    and "exec (call_step h) m tr m'"
  shows "exec spec_step empty_fs tr (spec_of h m')"
  using format_calls(1) [OF assms] .

text \<open>The example: a file is created, opened and closed on a formatted image.\<close>

lemma calls_example:
  obtains f q m where "exec (call_step 3) formatted [(Create (str ''/a'') FS_REGULAR, Code 0),
      (Open (str ''/a''), Code (int f)), (Close (int f), Code 0)] m" "q < 256" "is_reg m q"
proof -
  have "\<exists>f<256. \<not> bitmap_test fd_bm f formatted" using formatted_simps(5) [of 0] by (intro exI [of _ 0]) simp
  then obtain q f m1 m2 where c: "fs_create (Some (the_fs 3)) (Some (str ''/a'')) FS_REGULAR formatted = Some (0, m1)"
    "fs_open (Some (the_fs 3)) (Some (str ''/a'')) m1 = Some (int f, m2)" "fs_step 3 formatted m1" "fs_step 3 m1 m2"
    "f < 256" "bitmap_test fd_bm f m2" "q < 256" "get_inode m2 q = new_inode FS_REGULAR q"
    "create_effect formatted 0 (last [str ''a'']) FS_REGULAR q m1" "m2 = opened f q m1"
    using create_open [OF reachable_inv [OF reachable_formatted] example_tokens(1,2) formatted_create_possible] by metis
  obtain m3 where m3: "fs_close (Some (the_fs 3)) (int f) m2 = (0, m3)" "m3 Image = m2 Image"
    using close_file [OF reachable_inv [OF reach_trans [OF reachable_formatted c(3,4)]] c(5,6)] by blast
  have inv: "fs_inv formatted" by (rule formatted_inv(1))
  have "resolve m1 0 [str ''a''] = Some q"
    using create_effect_resolve(2) [OF inv c(9), of "[]"] formatted_create_possible by (simp add: create_possible_def)
  moreover have "\<not> is_dir m1 q" using create_effect_next(4) [OF c(9) inv] by simp
  ultimately have s: "call_step 3 formatted (Create (str ''/a'') FS_REGULAR) (Code 0) m1"
    "call_step 3 m1 (Open (str ''/a'')) (Code (int f)) m2" "call_step 3 m2 (Close (int f)) (Code 0) m3"
    using c(1,2) m3(1) example_tokens(1,2) formatted_create_possible by (simp_all add: call_step_def create_possible_def)
  have "get_inode m3 q = get_inode m2 q" using m3(2) by (rule image_cong(2))
  then have "is_reg m3 q" using c(8) by (simp add: is_reg_def)
  then show thesis by (intro that [OF _ c(7)]) (auto intro: s exec_Cons exec_Nil)
qed

lemma formatted_format: "fs_format example_host (Some (str ''disk'')) (\<lambda>_ _. 0) = Some (Some (the_fs 3), formatted)"
  using fs_format_fresh [OF example_host_ok str_disk, of "\<lambda>_ _. 0"] by (auto simp: formatted_def)

theorem calls_refine_spec_witness:
  "\<exists>f a. exec spec_step empty_fs [(Create (str ''/a'') FS_REGULAR, Code 0), (Open (str ''/a''), Code (int f)),
     (Close (int f), Code 0)] a"
proof -
  obtain f q m where e: "exec (call_step 3) formatted [(Create (str ''/a'') FS_REGULAR, Code 0),
      (Open (str ''/a''), Code (int f)), (Close (int f), Code 0)] m" "q < 256" "is_reg m q"
    by (rule calls_example)
  from calls_refine_spec [OF example_host_ok str_disk formatted_format e(1)] show ?thesis by blast
qed

text \<open>C2: nothing is lost: after any such calls, every inode in use as a file or a directory is found
  along a path from the root.\<close>

theorem every_inode_has_path:
  assumes "host_ok host path h" and "path \<noteq> []" and "fs_format host (Some path) m0 = Some (Some (the_fs h), m)"
    and "exec (call_step h) m tr m'" and "i < 256" and "is_reg m' i \<or> is_dir m' i"
  shows "\<exists>names. resolve m' 0 names = Some i"
proof -
  have "files (spec_of h m') i \<noteq> None \<or> dirs (spec_of h m') i \<noteq> None" using assms(5,6) by (auto simp: spec_of_simps)
  then obtain names where "spec_resolve (spec_of h m') 0 names = Some i"
    using format_calls(2) [OF assms(1-4)] unfolding spec_live_def by blast
  then show ?thesis using spec_resolve_of [of 0 h m' names] by auto
qed

theorem every_inode_has_path_witness:
  "\<exists>m q names. q < 256 \<and> is_reg m q \<and> resolve m 0 names = Some q"
proof -
  obtain f q m where e: "exec (call_step 3) formatted [(Create (str ''/a'') FS_REGULAR, Code 0),
      (Open (str ''/a''), Code (int f)), (Close (int f), Code 0)] m" "q < 256" "is_reg m q"
    by (rule calls_example)
  from every_inode_has_path [OF example_host_ok str_disk formatted_format e(1,2) disjI1 [OF e(3)]] e(2,3) show ?thesis by blast
qed

text \<open>C3: every state that the calls of the interface reach from a formatted image is consistent:
  the directories, their blocks and the inode table agree, every name leads to one file or
  directory in use and no two names to the same, the blocks of the files are allocated and
  disjoint, and every open descriptor stands within a block of a regular file.\<close>

theorem reachable_states_consistent:
  assumes "reachable h m"
  shows "fs_inv m \<and> dense m \<and> files_ok h m \<and> names_ok m \<and> fds_ok m"
  using reachable_inv [OF assms] by (simp add: sys_inv_def)

theorem reachable_states_consistent_witness:
  "\<exists>m f. reachable 3 m \<and> f < 256 \<and> bitmap_test fd_bm f m \<and> is_reg m (unat (inodeNum (get_fd m f))) \<and> names_ok m"
proof -
  obtain f m where r: "reachable 3 m" "f < 256" "bitmap_test fd_bm f m" by (rule two_files_example)
  from reachable_states_consistent [OF r(1)] r(2,3) have "is_reg m (unat (inodeNum (get_fd m f)))" "names_ok m"
    by (simp_all add: fds_ok_def)
  with r show ?thesis by blast
qed

text \<open>The example with three bytes written into the open file.\<close>

lemma written_example:
  obtains f q q2 m m' where "reachable 3 m" "reachable 3 m'" "f < 256" "bitmap_test fd_bm f m" "write_fits 3 m f 3"
    "unat (inodeNum (get_fd m f)) = q" "q < 256" "q2 < 256" "is_reg m q2" "q2 \<noteq> q" "is_reg m' q" "is_reg m' q2"
    "fs_write (Some (the_fs 3)) (int f) (Some (\<lambda>k. of_nat k)) 3 m = Some (int 3, m')"
    "file_block (the_fs 3) (get_inode m' q) m' 0 \<noteq> 0"
proof -
  obtain f q q2 m where e: "reachable 3 m" "f < 256" "bitmap_test fd_bm f m" "q < 256" "get_inode m q = new_inode FS_REGULAR q"
    "get_fd m f = \<lparr>inodeNum = of_nat q, usage = 1, locate_order = 0, locate_offset = 0\<rparr>"
    "q2 < 256" "is_reg m q2" "q2 \<noteq> q" "3 < free_blocks m"
    by (rule two_files_example)
  have fits: "write_fits 3 m f 3" by (rule new_file_write_fits [OF e(6,4,5,10)])
  note nf = new_file_fits(1-3) [OF e(6,4,5), where n = 3 and e = 1]
  have c: "cursor_ok (get_fd m f)" "cursor_pos (get_fd m f) = 0" "q = unat (inodeNum (get_fd m f))"
    using nf e(10) by simp_all
  have reg: "is_reg m q" by (simp add: is_reg_def e(5))
  have ok: "file_ok (the_fs 3) m q" using reachable_inv [OF e(1)] e(4) reg by (simp add: sys_inv_def files_ok_def)
  obtain m' where w: "fs_write (Some (the_fs 3)) (int f) (Some (\<lambda>k. of_nat k)) 3 m = Some (int 3, m')"
    "write_owned 3 m q m'" "file_block (the_fs 3) (get_inode m' q) m' (cursor_pos (get_fd m f) div 1024) \<noteq> 0"
    using fs_write_owns [OF e(2,3) c(3,1) _ fits ok, of "\<lambda>k. of_nat k"] by auto
  have "fs_step 3 m m'" using step_write [OF e(2,3) _ fits w(1)] by simp
  then have re: "reachable 3 m'" by (rule reach_step [OF e(1)])
  have "is_reg m' q" "is_reg m' q2" using write_ownedD(2,4) [OF w(2)] reg e(7-9) by (simp_all add: is_reg_def)
  then show thesis using that [OF e(1) re e(2,3) fits c(3) [symmetric] e(4,7,8,9)] w(1,3) c(2) by simp
qed

text \<open>C4: in a reachable state two files never share a block: a data block of one file is allocated, lies behind
  the inode table, is neither a data block nor the pointer block of another file, and is not the
  block of a directory with entries.\<close>

theorem files_share_no_blocks:
  assumes "reachable h m" and "i < 256" and "is_reg m i" and "i' < 256" and "is_reg m i'" and "i \<noteq> i'"
    and "b < 518" and "j = file_block (the_fs h) (get_inode m i) m b" and "j \<noteq> 0"
  shows "bitmap_test whole_bm j m \<and> 17 \<le> j \<and> j < 65528 \<and>
    (\<forall>b'<518. file_block (the_fs h) (get_inode m i') m b' \<noteq> j) \<and> j \<noteq> unat (indirectPointer (get_inode m i')) \<and>
    (\<forall>d<256. is_dir m d \<and> vacantFile (get_inode m d) \<noteq> 0 \<longrightarrow> direct0 (get_inode m d) \<noteq> j)"
proof -
  note s = sys_inv_separate [OF reachable_inv [OF assms(1)] assms(2-7) assms(9) [unfolded assms(8)], folded assms(8)]
  have "file_block (the_fs h) (get_inode m i') m b' \<noteq> j" if "b' < 518" for b'
    using s(1) assms(9) map_of_file_block [OF that, of "the_fs h" "get_inode m i'" m] that
    by (force simp: own_blocks_def)
  moreover have "j \<noteq> unat (indirectPointer (get_inode m i'))"
    using s(1) assms(9) by (cases "indirectPointer (get_inode m i') = 0") (auto simp: own_blocks_def tables_def)
  ultimately show ?thesis using s(2-5) by metis
qed

theorem files_share_no_blocks_witness:
  "\<exists>m q q2. reachable 3 m \<and> is_reg m q2 \<and> file_block (the_fs 3) (get_inode m q) m 0 \<noteq> 0 \<and>
    file_block (the_fs 3) (get_inode m q) m 0 \<noteq> file_block (the_fs 3) (get_inode m q2) m 0"
proof -
  obtain f q q2 m0 m where e: "reachable 3 m0" "reachable 3 m" "f < 256" "bitmap_test fd_bm f m0" "write_fits 3 m0 f 3"
    "unat (inodeNum (get_fd m0 f)) = q" "q < 256" "q2 < 256" "is_reg m0 q2" "q2 \<noteq> q" "is_reg m q" "is_reg m q2"
    "fs_write (Some (the_fs 3)) (int f) (Some (\<lambda>k. of_nat k)) 3 m0 = Some (int 3, m)"
    "file_block (the_fs 3) (get_inode m q) m 0 \<noteq> 0"
    by (rule written_example) blast
  from files_share_no_blocks [OF e(2,7,11,8,12) e(10) [symmetric] _ refl e(14)]
  have "file_block (the_fs 3) (get_inode m q2) m 0 \<noteq> file_block (the_fs 3) (get_inode m q) m 0" by simp
  with e(2,12,14) show ?thesis by metis
qed

text \<open>C5: during any sequence of calls, a file whose descriptors are not written to and whose name is
  not removed keeps its size and all its bytes.\<close>

theorem file_keeps_contents:
  assumes "reachable h m" and "exec (\<lambda>m c r m'. call_step h m c r m' \<and> \<not> call_affects m c i) m tr m'"
    and "i < 256" and "is_reg m i"
  shows "is_reg m' i \<and> view h m' i = view h m i"
proof -
  have "files (spec_of h m) i = Some (view h m i)" using assms(3,4) by (simp add: spec_of_simps)
  from exec_file_kept [OF assms(2) reachable_inv [OF assms(1)] this] show ?thesis
    by (auto simp: spec_of_simps split: if_splits)
qed

theorem file_keeps_contents_witness:
  "\<exists>m f q m'. reachable 3 m \<and> is_reg m q \<and> q \<noteq> unat (inodeNum (get_fd m f)) \<and> view 3 m' q = view 3 m q \<and>
    fs_write (Some (the_fs 3)) (int f) (Some (\<lambda>k. of_nat k)) 3 m = Some (int 3, m')"
proof -
  obtain f q q2 m m' where e: "reachable 3 m" "reachable 3 m'" "f < 256" "bitmap_test fd_bm f m" "write_fits 3 m f 3"
    "unat (inodeNum (get_fd m f)) = q" "q < 256" "q2 < 256" "is_reg m q2" "q2 \<noteq> q" "is_reg m' q" "is_reg m' q2"
    "fs_write (Some (the_fs 3)) (int f) (Some (\<lambda>k. of_nat k)) 3 m = Some (int 3, m')"
    by (rule written_example) blast
  let ?c = "Write (int f) (\<lambda>k. of_nat k) 3"
  have "call_step 3 m ?c (Code (int 3)) m'" using e(5,13) by (simp add: call_step_def)
  moreover have "\<not> call_affects m ?c q2" using e(6,10) by (simp add: call_affects_def)
  ultimately have "exec (\<lambda>m c r m'. call_step 3 m c r m' \<and> \<not> call_affects m c q2) m [(?c, Code (int 3))] m'"
    by (auto intro: exec_Cons exec_Nil)
  from file_keeps_contents [OF e(1) this e(8,9)] e show ?thesis by metis
qed



text \<open>In a reachable state a write through a descriptor succeeds and changes no other file: the inode of any other
  regular file and every byte of its mapped blocks stay as they were.\<close>

theorem write_leaves_other_files:
  assumes "reachable h m" and "f < 256" and "bitmap_test fd_bm f m" and "0 < n" and "write_fits h m f n"
    and "x < 256" and "is_reg m x" and "x \<noteq> unat (inodeNum (get_fd m f))"
  shows "\<exists>m'. fs_write (Some (the_fs h)) (int f) (Some src) n m = Some (int n, m') \<and> get_inode m' x = get_inode m x \<and>
    (\<forall>pos<518 * 1024. file_block (the_fs h) (get_inode m x) m (pos div 1024) \<noteq> 0 \<longrightarrow>
      file_byte (the_fs h) (get_inode m' x) m' pos = file_byte (the_fs h) (get_inode m x) m pos)"
  using reachable_inv [OF assms(1)] assms(2-8) by (rule fs_write_isolated)

text \<open>C7: a file leaves no trace: created in a directory that has entries, opened, written (up to 518
  blocks), closed and removed, it leaves the block, inode and descriptor bit maps and every name
  of the file system as they were before.\<close>

theorem file_leaves_no_trace:
  assumes "reachable h m" and "checked_tokens path = Some (tokens, cnt)" and "0 \<notin> set path"
    and "create_possible m tokens p" and "vacantFile (get_inode m p) \<noteq> 0" and "\<exists>f<256. \<not> bitmap_test fd_bm f m"
    and "0 < n" and "n \<le> e * 1024" and "e \<le> 518" and "e + 1 < free_blocks m"
    and "\<And>x. lookup m p x \<noteq> None \<Longrightarrow> take (length (last tokens)) x \<noteq> last tokens"
  shows "\<exists>f m1 m2 m3 m4 m5. fs_create (Some (the_fs h)) (Some path) FS_REGULAR m = Some (0, m1) \<and>
    fs_open (Some (the_fs h)) (Some path) m1 = Some (int f, m2) \<and>
    fs_write (Some (the_fs h)) (int f) (Some src) n m2 = Some (int n, m3) \<and>
    fs_close (Some (the_fs h)) (int f) m3 = (0, m4) \<and>
    fs_remove (Some (the_fs h)) (Some path) m4 = (0, m5) \<and>
    (\<forall>j<65528. bitmap_test whole_bm j m5 = bitmap_test whole_bm j m) \<and>
    (\<forall>i<256. bitmap_test inode_bm i m5 = bitmap_test inode_bm i m) \<and>
    (\<forall>g<256. bitmap_test fd_bm g m5 = bitmap_test fd_bm g m) \<and>
    (\<forall>d<256. is_dir m5 d = is_dir m d \<and> (is_dir m d \<longrightarrow> (\<forall>x. lookup m5 d x = lookup m d x)))"
  using assms by (rule no_trace)

theorem file_leaves_no_trace_witness:
  "\<exists>m f m1 m2 m3 m4 m5. reachable 3 m \<and> fs_create (Some (the_fs 3)) (Some (str ''/a'')) FS_REGULAR m = Some (0, m1) \<and>
    fs_open (Some (the_fs 3)) (Some (str ''/a'')) m1 = Some (int f, m2) \<and>
    fs_write (Some (the_fs 3)) (int f) (Some (\<lambda>k. of_nat k)) 10000 m2 = Some (int 10000, m3) \<and>
    fs_close (Some (the_fs 3)) (int f) m3 = (0, m4) \<and> fs_remove (Some (the_fs 3)) (Some (str ''/a'')) m4 = (0, m5) \<and>
    (\<forall>j<65528. bitmap_test whole_bm j m5 = bitmap_test whole_bm j m)"
proof -
  obtain q m where s: "reachable 3 m" "create_possible m [str ''a''] 0" "\<exists>f<256. \<not> bitmap_test fd_bm f m"
    "65509 \<le> free_blocks m" "vacantFile (get_inode m 0) \<noteq> 0" "\<And>n. lookup m 0 n \<noteq> None \<Longrightarrow> n = str ''dd''"
    by (rule two_creations) blast
  have "take (length (last [str ''a''])) x \<noteq> last [str ''a'']" if "lookup m 0 x \<noteq> None" for x
    using s(6) [OF that] more_tokens(11) by simp
  from file_leaves_no_trace [OF s(1) example_tokens(1,2) s(2,5,3) _ _ _ _ this, of 10000 10 "\<lambda>k. of_nat k"] s(1,4)
  show ?thesis by (auto simp del: not_None_eq)
qed

text \<open>C6: a whole session, from any reachable state with room: a new file can be created and opened, what is
  written into it (up to the 518 blocks that the direct and the indirect pointers reach) is what
  seeking to its beginning and reading it gives back.\<close>

theorem new_file_session:
  assumes "reachable h m" and "checked_tokens path = Some (tokens, cnt)" and "0 \<notin> set path"
    and "create_possible m tokens p" and "\<exists>f<256. \<not> bitmap_test fd_bm f m"
    and "0 < n" and "n \<le> e * 1024" and "e \<le> 518" and "e + 1 < free_blocks m"
  shows "\<exists>f m1 m2 m3 m4 m5. fs_create (Some (the_fs h)) (Some path) FS_REGULAR m = Some (0, m1) \<and>
    fs_open (Some (the_fs h)) (Some path) m1 = Some (int f, m2) \<and>
    fs_write (Some (the_fs h)) (int f) (Some src) n m2 = Some (int n, m3) \<and>
    fs_seek (Some (the_fs h)) (int f) 0 FS_SEEK_SET m3 = (0, m4) \<and>
    fs_read (Some (the_fs h)) (int f) True n m4 = Some (int n, map src [0..<n], m5)"
  using assms by (rule session)

theorem new_file_session_witness:
  "\<exists>f m1 m2 m3 m4 m5. fs_create (Some (the_fs 3)) (Some (str ''/a'')) FS_REGULAR formatted = Some (0, m1) \<and>
    fs_open (Some (the_fs 3)) (Some (str ''/a'')) m1 = Some (int f, m2) \<and>
    fs_write (Some (the_fs 3)) (int f) (Some (\<lambda>k. of_nat k)) 10000 m2 = Some (int 10000, m3) \<and>
    fs_seek (Some (the_fs 3)) (int f) 0 FS_SEEK_SET m3 = (0, m4) \<and>
    fs_read (Some (the_fs 3)) (int f) True 10000 m4 = Some (int 10000, map (\<lambda>k. of_nat k) [0..<10000], m5)"
proof -
  have "\<exists>f<256. \<not> bitmap_test fd_bm f formatted" using formatted_simps(5) [of 0] by (intro exI [of _ 0]) simp
  then show ?thesis
    by (rule new_file_session [OF reachable_formatted example_tokens(1,2) formatted_create_possible, where e = 10])
      (simp_all add: formatted_free)
qed

text \<open>C17: the two ways in which the code follows a path agree. \<^verbatim>\<open>getParentDirInodeID\<close> (used to remove, move and
  link) compares with \<^verbatim>\<open>strncmp\<close> over a bit map, fails at the first name that is not a directory,
  and takes the inode number from the inode; the loop of \<^verbatim>\<open>fs_create\<close> and \<^verbatim>\<open>fs_open\<close> compares with
  \<^verbatim>\<open>strcmp\<close> over shifted bits, counts the names found, and takes the number from the entry. On a
  consistent file system they lead to the same directory.\<close>

theorem path_walks_agree:
  assumes "fs_inv m" and "0 \<notin> set path" and "w = walk (the_fs h) m (strtok_all slash path)"
  shows "getParentDirInodeID (the_fs h) path m =
    (if walk_indicator w = length (strtok_all slash path) \<and> is_dir m (walk_inode_ID w) then walk_inode_ID w else SIZE_MAX)"
proof -
  have ok: "dirs_ok m" "ids_ok m" "is_dir m 0" using assms(1) by (simp_all add: fs_inv_def)
  have "\<forall>name \<in> set (strtok_all slash path). 0 \<notin> set name" using tokens_subset [of _ slash path] assms(2) by blast
  note w = walk_resolve(1,2) [OF ok(1) this, where h = h, folded assms(3)]
  show ?thesis
    unfolding getParentDirInodeID_resolve [OF ok assms(2)]
    using w by (cases "resolve m 0 (strtok_all slash path)") auto
qed

theorem path_walks_agree_witness:
  "getParentDirInodeID (the_fs 3) (str ''/dd'') formatted = SIZE_MAX \<and>
   (\<exists>m q. q \<noteq> 0 \<and> is_dir m q \<and> getParentDirInodeID (the_fs 3) (str ''/dd'') m = q)"
proof -
  have t: "0 \<notin> set (str ''/dd'')" "strtok_all slash (str ''/dd'') = [str ''dd'']" by code_simp+
  have "resolve formatted 0 [str ''dd''] = None" by (simp add: formatted_simps)
  have n: "\<forall>name \<in> set [str ''dd'']. 0 \<notin> set name" by code_simp
  have ok: "dirs_ok formatted" using formatted_inv(1) by (simp add: fs_inv_def)
  have 1: "getParentDirInodeID (the_fs 3) (str ''/dd'') formatted = SIZE_MAX"
    using path_walks_agree [OF formatted_inv(1) t(1) refl, of 3] walk_resolve(1) [OF ok n, of 3]
    by (simp add: t(2) formatted_simps)
  obtain q1 m where s: "fs_inv m" "is_dir m q1" "q1 \<noteq> 0" "lookup m 0 (str ''dd'') = Some q1"
    by (rule sub_example) (metis more_tokens(5))
  have ok: "dirs_ok m" "is_dir m 0" using s(1) by (simp_all add: fs_inv_def)
  then have "resolve m 0 [str ''dd''] = Some q1" using s(4) by simp
  then have "getParentDirInodeID (the_fs 3) (str ''/dd'') m = q1"
    using path_walks_agree [OF s(1) t(1) refl, of 3] walk_resolve(1,2) [OF ok(1) n, where h = 3] s(2) unfolding t(2) by simp
  with 1 s show ?thesis by blast
qed

text \<open>C24: as long as a block is free, \<^verbatim>\<open>block_store_allocate\<close> gives out the lowest free block and marks it and no
  other, so that the number of used blocks grows by one; when none is free it reports
  \<^verbatim>\<open>SIZE_MAX\<close> and changes nothing.\<close>

theorem allocation_progress:
  assumes "bs = whole_store fd"
  shows "if block_store_get_used_blocks (Some bs) m < 65528
    then \<exists>b m'. block_store_allocate (Some bs) m = (b, m') \<and> b < 65528 \<and> \<not> bitmap_test whole_bm b m \<and>
        (\<forall>j<b. bitmap_test whole_bm j m) \<and> (\<forall>j. bitmap_test whole_bm j m' \<longleftrightarrow> j = b \<or> bitmap_test whole_bm j m) \<and>
        block_store_get_used_blocks (Some bs) m' = Suc (block_store_get_used_blocks (Some bs) m)
    else block_store_allocate (Some bs) m = (SIZE_MAX, m)"
proof (cases rule: allocate_whole_cases [of fd m])
  case full
  then have "bitmap_total_set (Some whole_bm) m = 65528" unfolding whole.total_eq_iff by blast
  then show ?thesis using full(1) by (simp add: assms block_store_get_used_blocks_def)
next
  case (found b)
  then have "bitmap_total_set (Some whole_bm) m \<noteq> 65528" unfolding whole.total_eq_iff by blast
  then have "bitmap_total_set (Some whole_bm) m < 65528" using whole.total_le [of m] by simp
  moreover have "bitmap_total_set (Some whole_bm) (bitmap_set whole_bm b m) = Suc (bitmap_total_set (Some whole_bm) m)"
    by (rule whole.total_set [OF found(2,3)])
  ultimately show ?thesis using found by (simp add: assms block_store_get_used_blocks_def bitmap_test_set)
qed

theorem allocation_progress_witness:
  "\<exists>m'. block_store_allocate (Some (whole_store 3)) formatted = (17, m')"
proof -
  have "{j. j < 65528 \<and> bitmap_test whole_bm j formatted} = {..<17}" by (auto simp: formatted_simps)
  then have "block_store_get_used_blocks (Some (whole_store 3)) formatted = 17"
    by (simp add: block_store_get_used_blocks_def whole.total_card)
  with allocation_progress [OF refl, of 3 formatted] obtain b m' where
    b: "block_store_allocate (Some (whole_store 3)) formatted = (b, m')" "b < 65528"
      "\<not> bitmap_test whole_bm b formatted" "\<forall>j<b. bitmap_test whole_bm j formatted" by auto
  have "b = 17" using b(2-4) formatted_simps(7) [of b] formatted_simps(7) [of 17] by (metis linorder_neqE_nat less_irrefl less_trans numeral_less_iff)
  with b(1) show ?thesis by blast
qed

end
